(* ===== verification/Prelude.thy ===== *)
theory Prelude
  imports Main "HOL-Library.Word"
begin

text \<open>
  Shared material of the development: the collections of rewrite rules that the
  component theories fill, the type synonyms that name the machine types of the C
  engine, and the generic facts on words, bits, lists and folds that several
  components use.  Nothing here is specific to chess.
\<close>

unbundle bit_operations_syntax

named_theorems piece_simps "packing and unpacking of pieces, colours and piece types"
named_theorems sq_simps "arithmetic of square indices"
named_theorems move_simps "decoding of encoded moves"
named_theorems board_simps "frame rules of the board mutation primitives"
named_theorems wf_intros "introduction rules of the board invariant"

type_synonym u8 = "8 word"
type_synonym u32 = "32 word"
type_synonym u64 = "64 word"


section \<open>C integer conversions\<close>

text \<open>The conversion of an \<open>int\<close> to \<open>int8_t\<close>: the low eight bits, read as two's complement.\<close>

definition int8_of :: "int \<Rightarrow> int" where
  "int8_of x = signed_take_bit 7 x"

lemma int8_of_id [simp]: "- 128 \<le> x \<Longrightarrow> x < 128 \<Longrightarrow> int8_of x = x"
  by (simp add: int8_of_def signed_take_bit_int_eq_self)

lemma int8_of_range: "- 128 \<le> int8_of x \<and> int8_of x < 128"
  using signed_take_bit_int_greater_eq_minus_exp [of 7 x] signed_take_bit_int_less_exp [of 7 x]
  by (simp add: int8_of_def)

text \<open>C's integer division and remainder truncate towards zero.\<close>

definition cdiv :: "int \<Rightarrow> int \<Rightarrow> int" where
  "cdiv a b = sgn a * sgn b * (\<bar>a\<bar> div \<bar>b\<bar>)"

lemma cdiv_nonneg [simp]: "0 \<le> a \<Longrightarrow> 0 < b \<Longrightarrow> cdiv a b = a div b"
  by (cases "a = 0") (simp_all add: cdiv_def sgn_if)

lemma cdiv_neg: "cdiv (- a) b = - cdiv a b"
  by (simp add: cdiv_def)

lemma abs_cdiv_le: "\<bar>cdiv a b\<bar> \<le> \<bar>a\<bar>"
proof -
  have "\<bar>a\<bar> div \<bar>b\<bar> \<le> \<bar>a\<bar>"
    using zdiv_mono2 [of "\<bar>a\<bar>" 1 "\<bar>b\<bar>"] by (cases "b = 0") simp_all
  moreover have "0 \<le> \<bar>a\<bar> div \<bar>b\<bar>"
    by (cases "b = 0") (simp_all add: pos_imp_zdiv_nonneg_iff)
  ultimately show ?thesis
    by (cases "a = 0"; cases "b = 0") (simp_all add: cdiv_def abs_mult)
qed


section \<open>Bits of words\<close>

lemma int_and_7: "(x :: int) AND 7 = x mod 8"
  using take_bit_eq_mask [of 3 x] by (simp add: take_bit_eq_mod mask_eq_exp_minus_1)

lemma word_ne_0_iff_bit: "(w :: 'a :: len word) \<noteq> 0 \<longleftrightarrow> (\<exists>n < LENGTH('a). bit w n)"
  by (auto simp: bit_eq_iff dest: bit_imp_le_length)

lemma and_ne_0_iff: "((v :: 'a :: len word) AND w) \<noteq> 0 \<longleftrightarrow> (\<exists>n < LENGTH('a). bit v n \<and> bit w n)"
  by (simp add: word_ne_0_iff_bit bit_and_iff)

lemma drop_bit_and_1_eq_0: "drop_bit n (w :: 'a :: len word) AND 1 = 0 \<longleftrightarrow> \<not> bit w n"
  by (auto simp: and_one_eq bit_iff_odd_drop_bit even_iff_mod_2_eq_zero)

lemma push_bit_one_eq_iff:
  "i < LENGTH('a) \<Longrightarrow> bit (push_bit i (1 :: 'a :: len word)) n \<longleftrightarrow> n = i"
  by (auto simp: bit_exp_iff)

text \<open>Clearing the lowest set bit with \<open>x & (x - 1)\<close>.\<close>

lemma bit_clear_lowest:
  fixes x :: "'a :: len word"
  assumes k: "bit x k" and low: "\<And>i. i < k \<Longrightarrow> \<not> bit x i"
  shows "bit (x AND (x - 1)) n \<longleftrightarrow> bit x n \<and> n \<noteq> k"
proof -
  let ?u = "unset_bit k x"
  have kl: "k < LENGTH('a)" using k by (rule bit_imp_le_length)
  have "?u AND push_bit k 1 = 0"
    by (rule bit_word_eqI) (auto simp: bit_and_iff bit_unset_bit_iff bit_exp_iff)
  then have "?u + push_bit k 1 = ?u OR push_bit k 1"
    by (rule disjunctive_add_eq_or)
  also have "\<dots> = x"
    by (rule bit_word_eqI)
      (use k kl in \<open>auto simp: bit_or_iff bit_unset_bit_iff bit_exp_iff\<close>)
  finally have x: "x = ?u + 2 ^ k" by (simp add: push_bit_eq_mult)
  have "?u AND mask k = 0"
    by (rule bit_word_eqI) (use low in \<open>auto simp: bit_and_iff bit_unset_bit_iff bit_mask_iff\<close>)
  then have "?u + mask k = ?u OR mask k" by (rule disjunctive_add_eq_or)
  moreover have "x - 1 = ?u + mask k"
    by (subst x) (simp add: mask_eq_exp_minus_1)
  ultimately have "x - 1 = ?u OR mask k" by simp
  then show ?thesis
    using low by (auto simp: bit_and_iff bit_or_iff bit_unset_bit_iff bit_mask_iff
        dest: bit_imp_le_length)
qed

lemma bit_of_int_small: "0 \<le> x \<Longrightarrow> x < 2 ^ w \<Longrightarrow> bit (word_of_int x :: 'a :: len word) n \<Longrightarrow> n < w"
  by (metis bit_take_bit_iff bit_word_of_int_iff take_bit_int_eq_self)

lemma bit_of_nat_small: "x < 2 ^ w \<Longrightarrow> bit (word_of_nat x :: 'a :: len word) n \<Longrightarrow> n < w"
  using bit_of_int_small [of "int x" w n, where 'a = 'a] by simp

lemma word_eq_iff_bits: "(v :: 'a :: len word) = w \<longleftrightarrow> (\<forall>n < LENGTH('a). bit v n = bit w n)"
  by (auto intro: bit_word_eqI)


section \<open>Folds and lists\<close>

lemma fold_invariant_mem:
  assumes "P s" and "\<And>x s. x \<in> set xs \<Longrightarrow> P s \<Longrightarrow> P (f x s)"
  shows "P (fold f xs s)"
  using assms by (induction xs arbitrary: s) auto

lemma fold_unchanged: "(\<And>x s. x \<in> set xs \<Longrightarrow> g (f x s) = g s) \<Longrightarrow> g (fold f xs s) = g s"
  by (induction xs arbitrary: s) auto

lemma fold_xor_start: "fold (\<lambda>x h. h XOR f x) xs (h :: 'a :: len word) = h XOR fold (\<lambda>x h. h XOR f x) xs 0"
proof (induction xs arbitrary: h)
  case Nil
  then show ?case by simp
next
  case (Cons x xs)
  show ?case
    using Cons.IH [of "h XOR f x"] Cons.IH [of "f x"] by (simp add: xor.assoc)
qed

lemma ball_Suc_shift: "0 < k \<Longrightarrow> (\<forall>j \<in> {1..<Suc k}. P j) \<longleftrightarrow> P 1 \<and> (\<forall>j \<in> {1..<k}. P (Suc j))"
proof -
  assume "0 < k"
  then have "{1..<Suc k} = insert 1 (Suc ` {1..<k})" by (auto simp: image_Suc_atLeastLessThan)
  then show ?thesis by (simp only: ball_simps)
qed

lemma bex_Suc_shift: "(\<exists>j \<in> {1..Suc n}. P j) \<longleftrightarrow> P 1 \<or> (\<exists>j \<in> {1..n}. P (Suc j))"
proof -
  have "{1..Suc n} = insert 1 (Suc ` {1..n})" by (auto simp: image_Suc_atLeastAtMost)
  then show ?thesis by (simp only: bex_simps)
qed

lemma bit_fold_union:
  assumes "\<And>x w. x \<in> set xs \<Longrightarrow> bit (f x w) n \<longleftrightarrow> bit w n \<or> P x"
  shows "bit (fold f xs w) n \<longleftrightarrow> bit w n \<or> (\<exists>x \<in> set xs. P x)"
  using assms by (induction xs arbitrary: w) auto

text \<open>Exclusive or over a list.\<close>

lemmas xor_ac = xor.assoc xor.commute xor.left_commute

definition xor_over :: "('b \<Rightarrow> 'a :: len word) \<Rightarrow> 'b list \<Rightarrow> 'a word" where
  "xor_over f xs = fold (\<lambda>x h. h XOR f x) xs 0"

lemma xor_over_Nil [simp]: "xor_over f [] = 0"
  by (simp add: xor_over_def)

lemma xor_over_Cons [simp]: "xor_over f (x # xs) = f x XOR xor_over f xs"
  using fold_xor_start [of f xs "f x"] by (simp add: xor_over_def)

lemma fold_xor_over: "fold (\<lambda>x h. h XOR f x) xs h = h XOR xor_over f xs"
  unfolding xor_over_def by (rule fold_xor_start)

lemma xor_over_map_filter:
  "xor_over f (map g (filter P xs)) = xor_over (\<lambda>x. if P x then f (g x) else 0) xs"
  by (induction xs) simp_all

lemma xor_over_cong: "(\<And>x. x \<in> set xs \<Longrightarrow> f x = g x) \<Longrightarrow> xor_over f xs = xor_over g xs"
  by (induction xs) simp_all

lemma xor_over_change:
  assumes "distinct xs" "y \<in> set xs" "\<And>x. x \<in> set xs \<Longrightarrow> x \<noteq> y \<Longrightarrow> f x = g x"
  shows "xor_over f xs = xor_over g xs XOR (f y XOR g y)"
  using assms
proof (induction xs)
  case Nil
  then show ?case by simp
next
  case (Cons x xs)
  show ?case
  proof (cases "x = y")
    case True
    then have "xor_over f xs = xor_over g xs"
      using Cons.prems by (intro xor_over_cong) auto
    with True show ?thesis by (simp add: xor_ac)
  next
    case False
    with Cons show ?thesis by (simp add: xor_ac)
  qed
qed

lemma ball_upt_nat: "(\<forall>n < m. P (n :: nat)) \<longleftrightarrow> (\<forall>n \<in> set [0..<m]. P n)"
  by auto

end
