(* ===== verification/Types.thy ===== *)
theory Types
  imports Prelude
begin

text \<open>
  The basic types of the engine (\<open>frontend/native/engine/types.h\<close>): colours and piece
  types, the packed piece byte, square indices, bitboards with their iteration loop,
  the 32-bit move encoding, move lists, castling masks, the game mods and the
  Save-the-Queen square helpers.  The lemmas show that packing and unpacking are
  inverse, that the loop \<open>while (bb) sq = bb_pop_lsb(&bb)\<close> visits exactly the set bits
  in ascending order, and that a move list never exceeds its array.
\<close>

section \<open>Colours and piece types\<close>

text \<open>
  \<open>COLOR_NONE\<close> also stands for the values above 2 that \<open>c ^ 1\<close> can produce from it: the
  engine only compares colours with \<open>WHITE\<close> and \<open>BLACK\<close> or with each other.
\<close>

datatype Color = WHITE | BLACK | COLOR_NONE

primrec color_val :: "Color \<Rightarrow> nat" where
  "color_val WHITE = 0"
| "color_val BLACK = 1"
| "color_val COLOR_NONE = 2"

definition color_of :: "nat \<Rightarrow> Color" where
  "color_of n = (if n = 0 then WHITE else if n = 1 then BLACK else COLOR_NONE)"

definition color_opposite :: "Color \<Rightarrow> Color" where
  "color_opposite c = color_of (color_val c XOR 1)"

text \<open>
  \<open>PT_7\<close> is the eighth value a three-bit field can hold; it is outside the C enum and no
  operation of the engine produces it.
\<close>

datatype PieceType = PAWN | KNIGHT | BISHOP | ROOK | QUEEN | KING | PIECE_NONE | PT_7

primrec type_val :: "PieceType \<Rightarrow> nat" where
  "type_val PAWN = 0"
| "type_val KNIGHT = 1"
| "type_val BISHOP = 2"
| "type_val ROOK = 3"
| "type_val QUEEN = 4"
| "type_val KING = 5"
| "type_val PIECE_NONE = 6"
| "type_val PT_7 = 7"

definition ptype_of :: "nat \<Rightarrow> PieceType" where
  "ptype_of n =
     (if n = 0 then PAWN else if n = 1 then KNIGHT else if n = 2 then BISHOP
      else if n = 3 then ROOK else if n = 4 then QUEEN else if n = 5 then KING
      else if n = 6 then PIECE_NONE else PT_7)"

text \<open>The C enumerators are ordered by their values.\<close>

lemma type_val_inj: "type_val s = type_val t \<Longrightarrow> s = t"
  by (cases s; cases t) simp_all

instantiation PieceType :: linorder
begin

definition less_eq_PieceType :: "PieceType \<Rightarrow> PieceType \<Rightarrow> bool" where
  "s \<le> t \<longleftrightarrow> type_val s \<le> type_val t"

definition less_PieceType :: "PieceType \<Rightarrow> PieceType \<Rightarrow> bool" where
  "s < t \<longleftrightarrow> type_val s < type_val t"

instance
  by standard (auto simp: less_eq_PieceType_def less_PieceType_def intro: type_val_inj)

end

text \<open>The ranges of the loops \<open>for (c = 0; c < 2; c++)\<close> and \<open>for (t = 0; t < 6; t++)\<close>.\<close>

definition colors :: "Color list" where
  "colors = [WHITE, BLACK]"

definition piece_types :: "PieceType list" where
  "piece_types = [PAWN, KNIGHT, BISHOP, ROOK, QUEEN, KING]"

lemma set_colors [simp]: "set colors = {WHITE, BLACK}"
  by (simp add: colors_def)

lemma set_piece_types [simp]: "set piece_types = {PAWN, KNIGHT, BISHOP, ROOK, QUEEN, KING}"
  by (simp add: piece_types_def)

lemma color_of_val [piece_simps, simp]: "color_of (color_val c) = c"
  by (cases c) (simp_all add: color_of_def)

lemma ptype_of_val [piece_simps, simp]: "ptype_of (type_val t) = t"
  by (cases t) (simp_all add: ptype_of_def)

lemma type_val_less: "type_val t < 8"
  by (cases t) simp_all

lemma color_opposite_simps [piece_simps, simp]:
  "color_opposite WHITE = BLACK"
  "color_opposite BLACK = WHITE"
  "color_opposite COLOR_NONE = COLOR_NONE"
  by (simp_all add: color_opposite_def color_of_def)

lemma color_opposite_opposite [simp]: "color_opposite (color_opposite c) = c"
  by (cases c) simp_all

lemma color_opposite_neq: "c \<in> set colors \<Longrightarrow> color_opposite c \<noteq> c"
  by (cases c) simp_all

lemma color_opposite_mem [simp]: "color_opposite c \<in> {WHITE, BLACK} \<longleftrightarrow> c \<in> {WHITE, BLACK}"
  by (cases c) simp_all


section \<open>Pieces\<close>

type_synonym Piece = u8

definition PIECE_MAKE :: "Color \<Rightarrow> PieceType \<Rightarrow> Piece" where
  "PIECE_MAKE c t = word_of_nat (push_bit 3 (color_val c) OR type_val t)"

definition PIECE_COLOR :: "Piece \<Rightarrow> Color" where
  "PIECE_COLOR p = color_of (unat (drop_bit 3 p))"

definition PIECE_TYPE :: "Piece \<Rightarrow> PieceType" where
  "PIECE_TYPE p = ptype_of (unat (p AND 7))"

definition PIECE_EMPTY :: Piece where
  "PIECE_EMPTY = PIECE_MAKE COLOR_NONE PIECE_NONE"

lemma PIECE_COLOR_MAKE [piece_simps, simp]: "PIECE_COLOR (PIECE_MAKE c t) = c"
  by (cases c; cases t) (simp_all add: PIECE_COLOR_def PIECE_MAKE_def color_of_def)

lemma PIECE_TYPE_MAKE [piece_simps, simp]: "PIECE_TYPE (PIECE_MAKE c t) = t"
  by (cases c; cases t) (simp_all add: PIECE_TYPE_def PIECE_MAKE_def ptype_of_def)

lemma PIECE_MAKE_inject [piece_simps, simp]:
  "PIECE_MAKE c t = PIECE_MAKE c' t' \<longleftrightarrow> c = c' \<and> t = t'"
  by (metis PIECE_COLOR_MAKE PIECE_TYPE_MAKE)

lemma PIECE_MAKE_eq_EMPTY [piece_simps, simp]:
  "PIECE_MAKE c t = PIECE_EMPTY \<longleftrightarrow> c = COLOR_NONE \<and> t = PIECE_NONE"
  "PIECE_EMPTY = PIECE_MAKE c t \<longleftrightarrow> c = COLOR_NONE \<and> t = PIECE_NONE"
  by (auto simp: PIECE_EMPTY_def)

lemma PIECE_EMPTY_fields [piece_simps, simp]:
  "PIECE_COLOR PIECE_EMPTY = COLOR_NONE" "PIECE_TYPE PIECE_EMPTY = PIECE_NONE"
  by (simp_all add: PIECE_EMPTY_def)


section \<open>Squares\<close>

type_synonym Square = int

definition SQ_NONE :: Square where
  "SQ_NONE = - 1"

definition SQ :: "int \<Rightarrow> int \<Rightarrow> Square" where
  "SQ row col = int8_of (row * 8 + col)"

definition SQ_ROW :: "Square \<Rightarrow> int" where
  "SQ_ROW sq = drop_bit 3 sq"

definition SQ_COL :: "Square \<Rightarrow> int" where
  "SQ_COL sq = sq AND 7"

definition SQ_VALID :: "Square \<Rightarrow> bool" where
  "SQ_VALID sq \<longleftrightarrow> sq \<ge> 0 \<and> sq < 64"

lemma SQ_ROW_div [sq_simps]: "SQ_ROW sq = sq div 8"
  by (simp add: SQ_ROW_def drop_bit_eq_div)

lemma SQ_COL_mod [sq_simps]: "SQ_COL sq = sq mod 8"
  by (simp add: SQ_COL_def int_and_7)

lemma SQ_in_range [sq_simps]: "- 128 \<le> r * 8 + c \<Longrightarrow> r * 8 + c < 128 \<Longrightarrow> SQ r c = r * 8 + c"
  by (simp add: SQ_def)

lemma SQ_board [sq_simps]:
  assumes "0 \<le> r" "r < 8" "0 \<le> c" "c < 8"
  shows "SQ r c = r * 8 + c"
  using assms by (simp add: SQ_def)

lemma SQ_of_row_col [simp]: "SQ_VALID sq \<Longrightarrow> SQ (SQ_ROW sq) (SQ_COL sq) = sq"
  by (simp add: SQ_VALID_def SQ_ROW_div SQ_COL_mod SQ_def)

lemma SQ_ROW_bounds: "SQ_VALID sq \<Longrightarrow> 0 \<le> SQ_ROW sq \<and> SQ_ROW sq < 8"
  by (auto simp: SQ_VALID_def SQ_ROW_div)

lemma SQ_COL_bounds: "0 \<le> SQ_COL sq \<and> SQ_COL sq < 8"
  by (simp add: SQ_COL_mod)

lemma SQ_row_col_of_board:
  assumes "0 \<le> r" "r < 8" "0 \<le> c" "c < 8"
  shows "SQ_ROW (SQ r c) = r" "SQ_COL (SQ r c) = c" "SQ_VALID (SQ r c)"
  using assms by (simp_all add: SQ_ROW_div SQ_COL_mod SQ_VALID_def SQ_board)

lemma SQ_NONE_invalid [simp]: "\<not> SQ_VALID SQ_NONE"
  by (simp add: SQ_VALID_def SQ_NONE_def)


section \<open>Bitboards\<close>

type_synonym Bitboard = u64

definition BB_EMPTY :: Bitboard where
  "BB_EMPTY = 0"

definition BB_SQ :: "Square \<Rightarrow> Bitboard" where
  "BB_SQ sq = push_bit (nat sq) 1"

definition BB_SET :: "Bitboard \<Rightarrow> Square \<Rightarrow> Bitboard" where
  "BB_SET bb sq = bb OR BB_SQ sq"

definition BB_CLR :: "Bitboard \<Rightarrow> Square \<Rightarrow> Bitboard" where
  "BB_CLR bb sq = bb AND NOT (BB_SQ sq)"

definition BB_HAS :: "Bitboard \<Rightarrow> Square \<Rightarrow> bool" where
  "BB_HAS bb sq \<longleftrightarrow> drop_bit (nat sq) bb AND 1 \<noteq> 0"

lemma BB_HAS_bit: "BB_HAS bb sq \<longleftrightarrow> bit bb (nat sq)"
  by (simp add: BB_HAS_def drop_bit_and_1_eq_0)

lemma bit_BB_SQ: "SQ_VALID sq \<Longrightarrow> bit (BB_SQ sq) n \<longleftrightarrow> n = nat sq"
  unfolding BB_SQ_def by (rule push_bit_one_eq_iff) (simp add: SQ_VALID_def nat_less_iff)

lemma bit_BB_SET: "SQ_VALID sq \<Longrightarrow> bit (BB_SET bb sq) n \<longleftrightarrow> n = nat sq \<or> bit bb n"
  by (auto simp: BB_SET_def bit_or_iff bit_BB_SQ)

lemma bit_BB_CLR: "SQ_VALID sq \<Longrightarrow> bit (BB_CLR bb sq) n \<longleftrightarrow> n \<noteq> nat sq \<and> bit bb n"
  by (auto simp: BB_CLR_def bit_and_iff bit_not_iff bit_BB_SQ dest: bit_imp_le_length)

lemmas bit_BB_simps = BB_HAS_bit bit_BB_SQ bit_BB_SET bit_BB_CLR

text \<open>
  \<open>bb_lsb\<close> counts trailing zeros.  On an empty bitboard \<open>__builtin_ctzll\<close> is undefined and
  the portable loop does not end; the model returns 64 there, and no theorem below
  relies on that value.
\<close>

function ctz_from :: "nat \<Rightarrow> Bitboard \<Rightarrow> nat" where
  "ctz_from i bb = (if i < 64 \<and> drop_bit i bb AND 1 = 0 then ctz_from (Suc i) bb else i)"
  by pat_completeness auto
termination
  by (relation "measure (\<lambda>(i, bb). 64 - i)") auto

declare ctz_from.simps [simp del]

definition bb_lsb :: "Bitboard \<Rightarrow> Square" where
  "bb_lsb bb = int (ctz_from 0 bb)"

definition bb_pop_lsb :: "Bitboard \<Rightarrow> Square \<times> Bitboard" where
  "bb_pop_lsb bb = (bb_lsb bb, bb AND (bb - 1))"

lemma ctz_from_least:
  assumes "bit bb k" "i \<le> k" "\<And>j. i \<le> j \<Longrightarrow> j < k \<Longrightarrow> \<not> bit bb j"
  shows "ctz_from i bb = k"
  using assms
proof (induction i bb rule: ctz_from.induct)
  case (1 i bb)
  have k: "k < 64" using bit_imp_le_length [OF "1.prems"(1)] by simp
  show ?case
  proof (cases "bit bb i")
    case True
    then have "i = k" using "1.prems" by (metis le_neq_implies_less order_refl)
    with True show ?thesis
      by (subst ctz_from.simps) (simp add: drop_bit_and_1_eq_0)
  next
    case False
    then have "Suc i \<le> k" using "1.prems" by (metis le_neq_implies_less Suc_leI)
    moreover from False k \<open>Suc i \<le> k\<close> have g: "i < 64 \<and> drop_bit i bb AND 1 = 0"
      by (simp add: drop_bit_and_1_eq_0)
    ultimately have "ctz_from (Suc i) bb = k"
      using "1.prems" by (intro "1.IH") auto
    with g show ?thesis by (subst ctz_from.simps) simp
  qed
qed

lemma bb_lsb_props:
  assumes "bb \<noteq> 0"
  shows "SQ_VALID (bb_lsb bb)" "bit bb (nat (bb_lsb bb))" "\<And>i. i < nat (bb_lsb bb) \<Longrightarrow> \<not> bit bb i"
proof -
  define k where "k = (LEAST n. bit bb n)"
  from assms obtain n where "bit bb n" by (auto simp: word_ne_0_iff_bit)
  then have k: "bit bb k" and low: "\<And>i. i < k \<Longrightarrow> \<not> bit bb i"
    unfolding k_def by (auto intro: LeastI dest: not_less_Least)
  then have "ctz_from 0 bb = k" by (intro ctz_from_least) auto
  then have eq: "bb_lsb bb = int k" by (simp add: bb_lsb_def)
  show "SQ_VALID (bb_lsb bb)"
    using bit_imp_le_length [OF k] by (simp add: eq SQ_VALID_def)
  show "bit bb (nat (bb_lsb bb))" using k by (simp add: eq)
  show "\<And>i. i < nat (bb_lsb bb) \<Longrightarrow> \<not> bit bb i" using low by (simp add: eq)
qed

lemma bit_pop_lsb:
  "bb \<noteq> 0 \<Longrightarrow> bit (bb AND (bb - 1)) n \<longleftrightarrow> bit bb n \<and> n \<noteq> nat (bb_lsb bb)"
  using bb_lsb_props [of bb] by (intro bit_clear_lowest) auto

lemma pop_lsb_less: "bb \<noteq> 0 \<Longrightarrow> bb AND (bb - 1) < (bb :: Bitboard)"
proof -
  assume nz: "bb \<noteq> 0"
  have "bb AND (bb - 1) \<noteq> bb"
    using bit_pop_lsb [OF nz] bb_lsb_props(2) [OF nz] by metis
  moreover have "bb AND (bb - 1) \<le> bb" by (simp add: word_and_le2)
  ultimately show ?thesis by simp
qed

text \<open>
  The squares visited by the loop \<open>while (bb) { sq = bb_pop_lsb(&bb); ... }\<close>, in order.
\<close>

function bb_squares :: "Bitboard \<Rightarrow> Square list" where
  "bb_squares bb =
     (if bb = 0 then []
      else (case bb_pop_lsb bb of (sq, bb') \<Rightarrow> sq # bb_squares bb'))"
  by pat_completeness auto
termination
  by (relation "measure unat") (auto simp: bb_pop_lsb_def pop_lsb_less unat_mono)

declare bb_squares.simps [simp del]

text \<open>The portable population count loop.\<close>

function bb_popcount :: "Bitboard \<Rightarrow> int" where
  "bb_popcount bb = (if bb = 0 then 0 else 1 + bb_popcount (bb AND (bb - 1)))"
  by pat_completeness auto
termination
  by (relation "measure unat") (auto simp: pop_lsb_less unat_mono)

declare bb_popcount.simps [simp del]

lemma filter_upt_split:
  assumes "P k" "k < m" "\<And>i. i < k \<Longrightarrow> \<not> P i"
  shows "filter P [0..<m] = k # filter (\<lambda>i. P i \<and> i \<noteq> k) [0..<m]"
proof -
  have e: "[0..<m] = [0..<k] @ k # [Suc k..<m]"
    using assms(2) by (metis upt_conv_Cons upt_add_eq_append less_imp_add_positive zero_le)
  have "filter P [0..<k] = []" "filter (\<lambda>i. P i \<and> i \<noteq> k) [0..<k] = []"
    using assms(3) by (auto simp: filter_empty_conv)
  moreover have "filter (\<lambda>i. P i \<and> i \<noteq> k) [Suc k..<m] = filter P [Suc k..<m]"
    by (rule filter_cong) auto
  ultimately show ?thesis using assms(1) by (simp add: e)
qed

lemma filter_bit_pop_lsb:
  assumes "bb \<noteq> 0"
  shows "filter (bit bb) [0..<64] =
    nat (bb_lsb bb) # filter (bit (bb AND (bb - 1))) [0..<64]"
proof -
  have "bit (bb AND (bb - 1)) = (\<lambda>i. bit bb i \<and> i \<noteq> nat (bb_lsb bb))"
    using bit_pop_lsb [OF assms] by auto
  moreover have "nat (bb_lsb bb) < 64"
    using bb_lsb_props(1) [OF assms] by (simp add: SQ_VALID_def nat_less_iff)
  ultimately show ?thesis
    using bb_lsb_props(2,3) [OF assms] by (simp add: filter_upt_split)
qed

lemma bb_squares_filter: "bb_squares bb = map int (filter (bit bb) [0..<64])"
proof (induction bb rule: bb_squares.induct)
  case (1 bb)
  show ?case
  proof (cases "bb = 0")
    case True
    then show ?thesis by (simp add: bb_squares.simps)
  next
    case False
    then have "0 \<le> bb_lsb bb" using bb_lsb_props(1) by (simp add: SQ_VALID_def)
    moreover have "bb_squares (bb AND (bb - 1)) =
        map int (filter (bit (bb AND (bb - 1))) [0..<64])"
      by (rule "1.IH" [OF False]) (simp add: bb_pop_lsb_def)
    ultimately show ?thesis
      using False by (subst bb_squares.simps) (simp add: bb_pop_lsb_def filter_bit_pop_lsb)
  qed
qed

lemma set_bb_squares: "set (bb_squares bb) = {sq. SQ_VALID sq \<and> bit bb (nat sq)}"
proof -
  have "sq \<in> int ` {n. n < 64 \<and> bit bb n} \<longleftrightarrow> SQ_VALID sq \<and> bit bb (nat sq)" for sq
    by (auto simp: SQ_VALID_def nat_less_iff intro!: image_eqI [of sq int "nat sq"])
  then show ?thesis by (auto simp: bb_squares_filter)
qed

lemma bb_squares_valid: "sq \<in> set (bb_squares bb) \<Longrightarrow> SQ_VALID sq"
  by (simp add: set_bb_squares)

lemma bb_squares_empty [simp]: "bb_squares 0 = []"
  by (simp add: bb_squares_filter)

lemma bb_popcount_length: "bb_popcount bb = int (length (bb_squares bb))"
proof (induction bb rule: bb_popcount.induct)
  case (1 bb)
  then show ?case
    by (subst bb_popcount.simps, subst bb_squares.simps) (simp add: bb_pop_lsb_def)
qed

lemma bb_popcount_bounds: "0 \<le> bb_popcount bb \<and> bb_popcount bb \<le> 64"
  using length_filter_le [of "bit bb" "[0..<64]"]
  by (simp add: bb_popcount_length bb_squares_filter)

lemma bb_popcount_card: "bb_popcount bb = int (card {n. bit bb n})"
proof -
  have "{n. bit bb n} = set (filter (bit bb) [0..<64])"
    by (auto dest: bit_imp_le_length)
  then show ?thesis
    by (simp add: bb_popcount_length bb_squares_filter distinct_card del: set_filter)
qed

lemma bb_popcount_eq_0: "bb_popcount bb = 0 \<longleftrightarrow> bb = 0"
proof -
  have "bb_squares bb = [] \<longleftrightarrow> bb = 0"
    by (subst bb_squares.simps) (auto split: prod.splits)
  then show ?thesis by (simp add: bb_popcount_length)
qed


section \<open>Move encoding\<close>

type_synonym Move = u32

definition MOVE_NONE :: Move where
  "MOVE_NONE = 0"

definition MOVE_FROM :: "Move \<Rightarrow> Square" where
  "MOVE_FROM m = uint (m AND 0x3F)"

definition MOVE_TO :: "Move \<Rightarrow> Square" where
  "MOVE_TO m = uint (drop_bit 6 m AND 0x3F)"

definition MOVE_PIECE :: "Move \<Rightarrow> PieceType" where
  "MOVE_PIECE m = ptype_of (unat (drop_bit 12 m AND 7))"

definition MOVE_CAPTURED :: "Move \<Rightarrow> PieceType" where
  "MOVE_CAPTURED m = ptype_of (unat (drop_bit 15 m AND 7))"

definition MOVE_IS_CASTLE :: "Move \<Rightarrow> bool" where
  "MOVE_IS_CASTLE m \<longleftrightarrow> drop_bit 18 m AND 1 \<noteq> 0"

definition MOVE_IS_EP :: "Move \<Rightarrow> bool" where
  "MOVE_IS_EP m \<longleftrightarrow> drop_bit 19 m AND 1 \<noteq> 0"

definition MOVE_IS_PROMO :: "Move \<Rightarrow> bool" where
  "MOVE_IS_PROMO m \<longleftrightarrow> drop_bit 20 m AND 1 \<noteq> 0"

definition MOVE_PROMO_TYPE :: "Move \<Rightarrow> PieceType" where
  "MOVE_PROMO_TYPE m = ptype_of (unat (drop_bit 21 m AND 7))"

definition MOVE_IS_CAPTURE :: "Move \<Rightarrow> bool" where
  "MOVE_IS_CAPTURE m \<longleftrightarrow> MOVE_CAPTURED m \<noteq> PIECE_NONE"

definition move_encode ::
  "Square \<Rightarrow> Square \<Rightarrow> PieceType \<Rightarrow> PieceType \<Rightarrow> bool \<Rightarrow> bool \<Rightarrow> bool \<Rightarrow> PieceType \<Rightarrow> Move" where
  "move_encode from to piece captured castle ep promo promoType =
     word_of_int from OR
     push_bit 6 (word_of_int to) OR
     push_bit 12 (word_of_nat (type_val piece)) OR
     push_bit 15 (word_of_nat (type_val captured)) OR
     push_bit 18 (of_bool castle) OR
     push_bit 19 (of_bool ep) OR
     push_bit 20 (of_bool promo) OR
     push_bit 21 (word_of_nat (type_val promoType))"

definition move_simple :: "Square \<Rightarrow> Square \<Rightarrow> PieceType \<Rightarrow> Move" where
  "move_simple from to piece =
     move_encode from to piece PIECE_NONE False False False PIECE_NONE"

definition move_capture :: "Square \<Rightarrow> Square \<Rightarrow> PieceType \<Rightarrow> PieceType \<Rightarrow> Move" where
  "move_capture from to piece captured =
     move_encode from to piece captured False False False PIECE_NONE"

lemma bit_type_val: "bit (word_of_nat (type_val t) :: u32) n \<Longrightarrow> n < 3"
  using type_val_less [of t] by (intro bit_of_nat_small [of "type_val t" 3]) auto

lemma bit_of_sq: "SQ_VALID sq \<Longrightarrow> bit (word_of_int sq :: u32) n \<Longrightarrow> n < 6"
  by (rule bit_of_int_small [of sq 6]) (auto simp: SQ_VALID_def)

lemma bit_of_bool: "bit (of_bool b :: 'a :: len word) n \<longleftrightarrow> b \<and> n = 0"
  by (simp add: bit_1_iff)

lemma mask_and: "(w :: u32) AND 7 = take_bit 3 w" "(w :: u32) AND 0x3F = take_bit 6 w"
  by (simp_all add: take_bit_eq_mask mask_eq_exp_minus_1)

lemma bit_push_field:
  assumes "\<And>n. bit (x :: u32) n \<Longrightarrow> n < w" "k + w \<le> 32"
  shows "bit (push_bit k x) n \<longleftrightarrow> k \<le> n \<and> n < k + w \<and> bit x (n - k)"
  using assms(1) [of "n - k"] assms(2) by (auto simp: bit_push_bit_iff)

lemma bit_sq_field:
  assumes "SQ_VALID sq"
  shows "bit (push_bit 6 (word_of_int sq) :: u32) n \<longleftrightarrow> 6 \<le> n \<and> n < 12 \<and> bit (word_of_int sq :: u32) (n - 6)"
  using bit_push_field [where k = 6 and n = n, OF bit_of_sq [OF assms]] by simp

lemma bit_type_fields:
  "bit (push_bit 12 (word_of_nat (type_val t)) :: u32) n \<longleftrightarrow>
     12 \<le> n \<and> n < 15 \<and> bit (word_of_nat (type_val t) :: u32) (n - 12)"
  "bit (push_bit 15 (word_of_nat (type_val t)) :: u32) n \<longleftrightarrow>
     15 \<le> n \<and> n < 18 \<and> bit (word_of_nat (type_val t) :: u32) (n - 15)"
  "bit (push_bit 21 (word_of_nat (type_val t)) :: u32) n \<longleftrightarrow>
     21 \<le> n \<and> n < 24 \<and> bit (word_of_nat (type_val t) :: u32) (n - 21)"
  using bit_push_field [where k = 12 and n = n, OF bit_type_val [of t]]
    bit_push_field [where k = 15 and n = n, OF bit_type_val [of t]] bit_push_field [where k = 21 and n = n, OF bit_type_val [of t]]
  by simp_all

lemma bit_flag_fields:
  "k < 32 \<Longrightarrow> bit (push_bit k (of_bool b) :: u32) n \<longleftrightarrow> n = k \<and> b"
  by (auto simp: bit_push_bit_iff bit_of_bool)

lemma bit_move_encode:
  assumes "SQ_VALID from" "SQ_VALID to"
  shows "bit (move_encode from to piece captured castle ep promo pt) n \<longleftrightarrow>
    (n < 6 \<and> bit (word_of_int from :: u32) n) \<or>
    (6 \<le> n \<and> n < 12 \<and> bit (word_of_int to :: u32) (n - 6)) \<or>
    (12 \<le> n \<and> n < 15 \<and> bit (word_of_nat (type_val piece) :: u32) (n - 12)) \<or>
    (15 \<le> n \<and> n < 18 \<and> bit (word_of_nat (type_val captured) :: u32) (n - 15)) \<or>
    (n = 18 \<and> castle) \<or> (n = 19 \<and> ep) \<or> (n = 20 \<and> promo) \<or>
    (21 \<le> n \<and> n < 24 \<and> bit (word_of_nat (type_val pt) :: u32) (n - 21))"
proof -
  have "\<not> n < 6 \<Longrightarrow> \<not> bit (word_of_int from :: u32) n"
    using bit_of_sq [OF assms(1), of n] by blast
  then show ?thesis
    unfolding move_encode_def bit_or_iff bit_type_fields bit_sq_field [OF assms(2)]
    by (cases "n < 6") (simp_all add: bit_flag_fields)
qed

lemma take_bits_eqI:
  assumes "u = take_bit w (v :: u32)" "\<And>i. i < w \<Longrightarrow> bit v i = bit x i" "\<And>i. bit x i \<Longrightarrow> i < w"
  shows "u = x"
  by (rule bit_word_eqI) (use assms in \<open>auto simp: bit_take_bit_iff\<close>)

lemma move_encode_fields:
  assumes "SQ_VALID from" "SQ_VALID to"
    and m_def: "m = move_encode from to piece captured castle ep promo pt"
  shows "m AND 0x3F = word_of_int from"
    "drop_bit 6 m AND 0x3F = word_of_int to"
    "drop_bit 12 m AND 7 = word_of_nat (type_val piece)"
    "drop_bit 15 m AND 7 = word_of_nat (type_val captured)"
    "drop_bit 21 m AND 7 = word_of_nat (type_val pt)"
proof -
  have f: "i < 6 \<Longrightarrow> bit m i \<longleftrightarrow> bit (word_of_int from :: u32) i"
    and t: "i < 6 \<Longrightarrow> bit m (6 + i) \<longleftrightarrow> bit (word_of_int to :: u32) i"
    and p: "i < 3 \<Longrightarrow> bit m (12 + i) \<longleftrightarrow> bit (word_of_nat (type_val piece) :: u32) i"
    and c: "i < 3 \<Longrightarrow> bit m (15 + i) \<longleftrightarrow> bit (word_of_nat (type_val captured) :: u32) i"
    and r: "i < 3 \<Longrightarrow> bit m (21 + i) \<longleftrightarrow> bit (word_of_nat (type_val pt) :: u32) i" for i
    unfolding m_def bit_move_encode [OF assms(1,2)] by simp_all
  show "m AND 0x3F = word_of_int from"
    by (rule take_bits_eqI [OF mask_and(2) f bit_of_sq [OF assms(1)]])
  show "drop_bit 6 m AND 0x3F = word_of_int to"
    by (rule take_bits_eqI [OF mask_and(2) _ bit_of_sq [OF assms(2)]]) (simp add: bit_drop_bit_eq t)
  show "drop_bit 12 m AND 7 = word_of_nat (type_val piece)"
    by (rule take_bits_eqI [OF mask_and(1) _ bit_type_val]) (simp add: bit_drop_bit_eq p)
  show "drop_bit 15 m AND 7 = word_of_nat (type_val captured)"
    by (rule take_bits_eqI [OF mask_and(1) _ bit_type_val]) (simp add: bit_drop_bit_eq c)
  show "drop_bit 21 m AND 7 = word_of_nat (type_val pt)"
    by (rule take_bits_eqI [OF mask_and(1) _ bit_type_val]) (simp add: bit_drop_bit_eq r)
qed

lemma uint_of_sq: "SQ_VALID sq \<Longrightarrow> uint (word_of_int sq :: u32) = sq"
  by (simp add: SQ_VALID_def uint_word_of_int take_bit_int_eq_self)

lemma unat_of_type_val: "unat (word_of_nat (type_val t) :: u32) = type_val t"
  by (cases t) simp_all

lemma move_decode_eq:
  assumes "SQ_VALID from" "SQ_VALID to"
    and "m = move_encode from to piece captured castle ep promo pt"
  shows "MOVE_FROM m = from" "MOVE_TO m = to" "MOVE_PIECE m = piece" "MOVE_CAPTURED m = captured"
    "MOVE_IS_CASTLE m \<longleftrightarrow> castle" "MOVE_IS_EP m \<longleftrightarrow> ep" "MOVE_IS_PROMO m \<longleftrightarrow> promo"
    "MOVE_PROMO_TYPE m = pt" "MOVE_IS_CAPTURE m \<longleftrightarrow> captured \<noteq> PIECE_NONE"
  using move_encode_fields [OF assms] bit_move_encode [OF assms(1,2)]
  by (simp_all add: MOVE_FROM_def MOVE_TO_def MOVE_PIECE_def MOVE_CAPTURED_def MOVE_PROMO_TYPE_def
      MOVE_IS_CAPTURE_def MOVE_IS_CASTLE_def MOVE_IS_EP_def MOVE_IS_PROMO_def drop_bit_and_1_eq_0
      assms uint_of_sq unat_of_type_val)

lemmas move_decode [move_simps, simp] = move_decode_eq [OF _ _ refl]


lemma move_simple_decode [move_simps, simp]:
  assumes "SQ_VALID from" "SQ_VALID to"
  shows "MOVE_FROM (move_simple from to pt) = from" "MOVE_TO (move_simple from to pt) = to"
    "MOVE_PIECE (move_simple from to pt) = pt" "MOVE_CAPTURED (move_simple from to pt) = PIECE_NONE"
    "\<not> MOVE_IS_CASTLE (move_simple from to pt)" "\<not> MOVE_IS_EP (move_simple from to pt)"
    "\<not> MOVE_IS_PROMO (move_simple from to pt)" "\<not> MOVE_IS_CAPTURE (move_simple from to pt)"
  using assms by (simp_all add: move_simple_def)

lemma move_capture_decode [move_simps, simp]:
  assumes "SQ_VALID from" "SQ_VALID to"
  shows "MOVE_FROM (move_capture from to pt cp) = from" "MOVE_TO (move_capture from to pt cp) = to"
    "MOVE_PIECE (move_capture from to pt cp) = pt" "MOVE_CAPTURED (move_capture from to pt cp) = cp"
    "\<not> MOVE_IS_CASTLE (move_capture from to pt cp)" "\<not> MOVE_IS_EP (move_capture from to pt cp)"
    "\<not> MOVE_IS_PROMO (move_capture from to pt cp)"
    "MOVE_IS_CAPTURE (move_capture from to pt cp) \<longleftrightarrow> cp \<noteq> PIECE_NONE"
  using assms by (simp_all add: move_capture_def)

lemma uint_and_63: "0 \<le> uint ((w :: u32) AND 0x3F) \<and> uint (w AND 0x3F) < 64"
proof -
  have "w AND 0x3F = take_bit 6 w" by (rule mask_and(2))
  then have "uint (w AND 0x3F) = take_bit 6 (uint w)" by (simp add: unsigned_take_bit_eq del: take_bit_eq_mod)
  then show ?thesis using take_bit_int_less_exp [of 6 "uint w"] by simp
qed

lemma MOVE_squares_valid [simp]: "SQ_VALID (MOVE_FROM m)" "SQ_VALID (MOVE_TO m)"
  using uint_and_63 [of m] uint_and_63 [of "drop_bit 6 m"]
  by (simp_all add: SQ_VALID_def MOVE_FROM_def MOVE_TO_def)


section \<open>Move lists\<close>

text \<open>
  A \<open>MoveList\<close> is the prefix of length \<open>count\<close> of its array.  \<open>movelist_add\<close> drops a move
  silently when the array is full.
\<close>

type_synonym MoveList = "Move list"

definition MAX_MOVES :: nat where
  "MAX_MOVES = 256"

definition movelist_clear :: MoveList where
  "movelist_clear = []"

definition movelist_add :: "MoveList \<Rightarrow> Move \<Rightarrow> MoveList" where
  "movelist_add ml m = (if length ml < MAX_MOVES then ml @ [m] else ml)"

lemma set_movelist_add: "set (movelist_add ml m) \<subseteq> insert m (set ml)"
  by (auto simp: movelist_add_def)

lemma length_movelist_add: "length ml \<le> MAX_MOVES \<Longrightarrow> length (movelist_add ml m) \<le> MAX_MOVES"
  by (simp add: movelist_add_def)

lemma fold_movelist_add:
  assumes "length ml \<le> MAX_MOVES"
  shows "fold (\<lambda>m ml. movelist_add ml m) ms ml = take MAX_MOVES (ml @ ms)"
  using assms by (induction ms arbitrary: ml) (simp_all add: movelist_add_def take_Cons')


section \<open>Castling rights\<close>

definition CASTLE_WK :: u8 where "CASTLE_WK = 1"
definition CASTLE_WQ :: u8 where "CASTLE_WQ = 2"
definition CASTLE_BK :: u8 where "CASTLE_BK = 4"
definition CASTLE_BQ :: u8 where "CASTLE_BQ = 8"

lemmas castle_masks = CASTLE_WK_def CASTLE_WQ_def CASTLE_BK_def CASTLE_BQ_def


section \<open>Game mods and Save-the-Queen squares\<close>

datatype GameMod =
    MOD_CLASSIC | MOD_MERCENARY | MOD_HEIR | MOD_TRUCE
  | MOD_FRIENDLY_FIRE | MOD_KINGS_BATTLE | MOD_SAVE_QUEEN | MOD_SUCCESSION

definition STQ_WHITE_PRISON :: Square where "STQ_WHITE_PRISON = SQ 7 3"
definition STQ_BLACK_PRISON :: Square where "STQ_BLACK_PRISON = SQ 0 3"

definition stq_is_own_half :: "Square \<Rightarrow> Color \<Rightarrow> bool" where
  "stq_is_own_half sq c = (if c = WHITE then SQ_ROW sq \<le> 3 else SQ_ROW sq \<ge> 4)"

definition stq_on_prison :: "Square \<Rightarrow> Color \<Rightarrow> bool" where
  "stq_on_prison sq c = (if c = WHITE then sq = STQ_WHITE_PRISON else sq = STQ_BLACK_PRISON)"

text \<open>A side's prison square lies in the opponent's half.\<close>

lemma stq_prison_not_own_half:
  "c \<in> {WHITE, BLACK} \<Longrightarrow> stq_on_prison sq c \<Longrightarrow>
     \<not> stq_is_own_half sq c \<and> stq_is_own_half sq (color_opposite c)"
  by (auto simp: stq_on_prison_def stq_is_own_half_def STQ_WHITE_PRISON_def STQ_BLACK_PRISON_def
      SQ_ROW_div SQ_board)


section \<open>Properties\<close>

text \<open>
  (C38) The iteration \<open>while (bb) { sq = bb_pop_lsb(&bb); ... }\<close> visits exactly the squares of the
  bitboard, each once and in increasing order, and \<open>bb_popcount\<close> counts its rounds.
\<close>

theorem bb_iteration_exact:
  "set (bb_squares bb) = {sq. SQ_VALID sq \<and> BB_HAS bb sq} \<and> distinct (bb_squares bb) \<and>
   sorted (bb_squares bb) \<and> bb_popcount bb = int (length (bb_squares bb))"
proof -
  have "distinct (bb_squares bb)" "sorted (bb_squares bb)"
    by (auto simp: bb_squares_filter distinct_map inj_on_def sorted_map intro!: sorted_wrt_filter)
  then show ?thesis by (simp add: set_bb_squares BB_HAS_bit bb_popcount_length)
qed

end
