(* ===== verification/BoardState.thy ===== *)
theory BoardState
  imports Types
begin

text \<open>
  The board record of \<open>board.h\<close> and the mutation primitives of \<open>board.c\<close>.  The engine
  keeps the position twice: as bitboards per colour and type (with their unions) and as
  a 64-entry mailbox.  The invariant \<open>wf_place\<close> says that the two agree.  The interface
  \<open>piece_store\<close> states what the primitives promise in terms of the mailbox alone, and
  the make/unmake layer is proved against it.

  Flags that the C code keeps in a \<open>uint8_t\<close> holding only 0 and 1 are \<open>bool\<close> here.  The
  undo stack \<open>history\<close> is indexed by ply; indices at or above \<open>MAX_HISTORY\<close> are outside
  the C array.
\<close>

section \<open>State\<close>

definition MAX_HISTORY :: nat where
  "MAX_HISTORY = 512"

record Undo =
  u_move :: Move
  u_captured :: Piece
  u_captured_sq :: Square
  u_castling :: u8
  u_ep_square :: Square
  u_halfmove :: int
  u_hash :: u64
  u_heir_promoted :: "Color \<Rightarrow> bool"
  u_truce_active :: bool
  u_truce_frozen :: u64
  u_ff_moved :: u64
  u_kb_unlocked :: bool
  u_kb_idle_kings :: u8
  u_kb_bonus :: bool
  u_stq_reprisoned :: bool
  u_stq_reprison_sq :: Square

record Board =
  pieces :: "Color \<Rightarrow> PieceType \<Rightarrow> Bitboard"
  occupied :: "Color \<Rightarrow> Bitboard"
  all_bb :: Bitboard
  mailbox :: "Piece list"
  side :: Color
  castling :: u8
  ep_square :: Square
  halfmove :: int
  fullmove :: int
  game_mod :: GameMod
  heir_promoted :: "Color \<Rightarrow> bool"
  truce_active :: bool
  truce_frozen :: u64
  ff_moved :: u64
  kb_unlocked :: bool
  kb_idle_kings :: u8
  hash :: u64
  history :: "nat \<Rightarrow> Undo"
  ply :: nat

text \<open>An undo entry of all zero bytes, as \<open>memset\<close> leaves it.\<close>

definition zero_undo :: Undo where
  "zero_undo =
     \<lparr> u_move = 0, u_captured = 0, u_captured_sq = 0, u_castling = 0, u_ep_square = 0,
       u_halfmove = 0, u_hash = 0, u_heir_promoted = (\<lambda>_. False), u_truce_active = False,
       u_truce_frozen = 0, u_ff_moved = 0, u_kb_unlocked = False, u_kb_idle_kings = 0,
       u_kb_bonus = False, u_stq_reprisoned = False, u_stq_reprison_sq = 0 \<rparr>"

abbreviation piece_at :: "Board \<Rightarrow> Square \<Rightarrow> Piece" where
  "piece_at b sq \<equiv> mailbox b ! nat sq"

definition heir_check_applies :: "Board \<Rightarrow> Color \<Rightarrow> bool" where
  "heir_check_applies b s \<longleftrightarrow> heir_promoted b s \<or> pieces b s PAWN = BB_EMPTY"


section \<open>Mutation primitives\<close>

definition board_clear :: Board where
  "board_clear =
     \<lparr> pieces = (\<lambda>_ _. 0), occupied = (\<lambda>_. 0), all_bb = 0,
       mailbox = replicate 64 PIECE_EMPTY, side = WHITE, castling = 0, ep_square = SQ_NONE,
       halfmove = 0, fullmove = 0, game_mod = MOD_CLASSIC, heir_promoted = (\<lambda>_. False),
       truce_active = False, truce_frozen = 0, ff_moved = 0, kb_unlocked = False,
       kb_idle_kings = 0, hash = 0, history = (\<lambda>_. zero_undo), ply = 0 \<rparr>"

definition board_place :: "Board \<Rightarrow> Square \<Rightarrow> Color \<Rightarrow> PieceType \<Rightarrow> Board" where
  "board_place b sq c t =
     b \<lparr> mailbox := (mailbox b)[nat sq := PIECE_MAKE c t],
         pieces := (pieces b)(c := (pieces b c)(t := BB_SET (pieces b c t) sq)),
         occupied := (occupied b)(c := BB_SET (occupied b c) sq),
         all_bb := BB_SET (all_bb b) sq \<rparr>"

definition board_remove :: "Board \<Rightarrow> Square \<Rightarrow> Board" where
  "board_remove b sq =
     (let p = piece_at b sq in
      if p = PIECE_EMPTY then b
      else let c = PIECE_COLOR p; t = PIECE_TYPE p in
        b \<lparr> pieces := (pieces b)(c := (pieces b c)(t := BB_CLR (pieces b c t) sq)),
            occupied := (occupied b)(c := BB_CLR (occupied b c) sq),
            all_bb := BB_CLR (all_bb b) sq,
            mailbox := (mailbox b)[nat sq := PIECE_EMPTY] \<rparr>)"

lemma mailbox_place [board_simps, simp]:
  "mailbox (board_place b sq c t) = (mailbox b)[nat sq := PIECE_MAKE c t]"
  by (simp add: board_place_def)

lemma mailbox_remove [board_simps, simp]:
  "mailbox (board_remove b sq) = (mailbox b)[nat sq := PIECE_EMPTY]"
  by (simp add: board_remove_def Let_def list_update_same_conv)
    (metis list_update_id)

lemma board_place_frame [board_simps, simp]:
  "side (board_place b sq c t) = side b"
  "castling (board_place b sq c t) = castling b"
  "ep_square (board_place b sq c t) = ep_square b"
  "halfmove (board_place b sq c t) = halfmove b"
  "fullmove (board_place b sq c t) = fullmove b"
  "game_mod (board_place b sq c t) = game_mod b"
  "heir_promoted (board_place b sq c t) = heir_promoted b"
  "truce_active (board_place b sq c t) = truce_active b"
  "truce_frozen (board_place b sq c t) = truce_frozen b"
  "ff_moved (board_place b sq c t) = ff_moved b"
  "kb_unlocked (board_place b sq c t) = kb_unlocked b"
  "kb_idle_kings (board_place b sq c t) = kb_idle_kings b"
  "hash (board_place b sq c t) = hash b"
  "history (board_place b sq c t) = history b"
  "ply (board_place b sq c t) = ply b"
  by (simp_all add: board_place_def)

lemma board_remove_frame [board_simps, simp]:
  "side (board_remove b sq) = side b"
  "castling (board_remove b sq) = castling b"
  "ep_square (board_remove b sq) = ep_square b"
  "halfmove (board_remove b sq) = halfmove b"
  "fullmove (board_remove b sq) = fullmove b"
  "game_mod (board_remove b sq) = game_mod b"
  "heir_promoted (board_remove b sq) = heir_promoted b"
  "truce_active (board_remove b sq) = truce_active b"
  "truce_frozen (board_remove b sq) = truce_frozen b"
  "ff_moved (board_remove b sq) = ff_moved b"
  "kb_unlocked (board_remove b sq) = kb_unlocked b"
  "kb_idle_kings (board_remove b sq) = kb_idle_kings b"
  "hash (board_remove b sq) = hash b"
  "history (board_remove b sq) = history b"
  "ply (board_remove b sq) = ply b"
  by (simp_all add: board_remove_def Let_def)


section \<open>Consistency of bitboards and mailbox\<close>

definition piece_ok :: "Piece \<Rightarrow> bool" where
  "piece_ok p \<longleftrightarrow>
     p = PIECE_EMPTY \<or> (\<exists>c \<in> set colors. \<exists>t \<in> set piece_types. p = PIECE_MAKE c t)"

text \<open>
  \<open>wf_place b\<close>: the mailbox has 64 proper entries, each bitboard holds exactly the squares
  the mailbox gives it, and nothing was written under an enumerator that is not an index
  of the C arrays.
\<close>

definition wf_place :: "Board \<Rightarrow> bool" where
  "wf_place b \<longleftrightarrow>
     length (mailbox b) = 64 \<and>
     (\<forall>n < 64. piece_ok (mailbox b ! n)) \<and>
     (\<forall>c t n. n < 64 \<longrightarrow>
        (bit (pieces b c t) n \<longleftrightarrow> mailbox b ! n = PIECE_MAKE c t \<and> mailbox b ! n \<noteq> PIECE_EMPTY)) \<and>
     (\<forall>c n. n < 64 \<longrightarrow>
        (bit (occupied b c) n \<longleftrightarrow> PIECE_COLOR (mailbox b ! n) = c \<and> mailbox b ! n \<noteq> PIECE_EMPTY)) \<and>
     (\<forall>n < 64. bit (all_bb b) n \<longleftrightarrow> mailbox b ! n \<noteq> PIECE_EMPTY)"

lemma piece_ok_EMPTY [simp]: "piece_ok PIECE_EMPTY"
  by (simp add: piece_ok_def)

lemma piece_ok_MAKE [simp]:
  "c \<in> {WHITE, BLACK} \<Longrightarrow> t \<in> set piece_types \<Longrightarrow> piece_ok (PIECE_MAKE c t)"
  unfolding piece_ok_def by (intro disjI2) auto

lemma piece_ok_cases:
  assumes "piece_ok p"
  obtains "p = PIECE_EMPTY"
  | c t where "p = PIECE_MAKE c t" "c \<in> {WHITE, BLACK}" "t \<in> set piece_types" "p \<noteq> PIECE_EMPTY"
  using assms unfolding piece_ok_def by auto

lemma wf_place_length [simp]: "wf_place b \<Longrightarrow> length (mailbox b) = 64"
  by (simp add: wf_place_def)

lemma wf_place_piece_ok: "wf_place b \<Longrightarrow> SQ_VALID sq \<Longrightarrow> piece_ok (piece_at b sq)"
  by (simp add: wf_place_def SQ_VALID_def nat_less_iff)

lemma wf_place_bits:
  assumes "wf_place b" "n < 64"
  shows "bit (pieces b c t) n \<longleftrightarrow> mailbox b ! n = PIECE_MAKE c t \<and> mailbox b ! n \<noteq> PIECE_EMPTY"
    "bit (occupied b c) n \<longleftrightarrow> PIECE_COLOR (mailbox b ! n) = c \<and> mailbox b ! n \<noteq> PIECE_EMPTY"
    "bit (all_bb b) n \<longleftrightarrow> mailbox b ! n \<noteq> PIECE_EMPTY"
  using assms by (simp_all add: wf_place_def)

lemma wf_place_bits_sq:
  assumes "wf_place b" "SQ_VALID sq"
  shows "bit (pieces b c t) (nat sq) \<longleftrightarrow> piece_at b sq = PIECE_MAKE c t \<and> piece_at b sq \<noteq> PIECE_EMPTY"
    "bit (occupied b c) (nat sq) \<longleftrightarrow> PIECE_COLOR (piece_at b sq) = c \<and> piece_at b sq \<noteq> PIECE_EMPTY"
    "bit (all_bb b) (nat sq) \<longleftrightarrow> piece_at b sq \<noteq> PIECE_EMPTY"
  using assms by (simp_all add: wf_place_bits SQ_VALID_def nat_less_iff)

text \<open>The bitboards are determined by the mailbox.\<close>

lemma wf_place_ext:
  assumes "wf_place b" "wf_place b'" "mailbox b = mailbox b'"
  shows "pieces b = pieces b'" "occupied b = occupied b'" "all_bb b = all_bb b'"
  using assms by (intro ext bit_word_eqI; simp add: wf_place_bits)+

lemma wf_place_cong:
  assumes "wf_place b" "mailbox b' = mailbox b" "pieces b' = pieces b"
    "occupied b' = occupied b" "all_bb b' = all_bb b"
  shows "wf_place b'"
  using assms by (simp add: wf_place_def)

lemma wf_place_clear [wf_intros]: "wf_place board_clear"
  by (simp add: wf_place_def board_clear_def)

lemma wf_place_place [wf_intros]:
  assumes wf: "wf_place b" and sq: "SQ_VALID sq" and empty: "piece_at b sq = PIECE_EMPTY"
    and c: "c \<in> {WHITE, BLACK}" and t: "t \<in> set piece_types"
  shows "wf_place (board_place b sq c t)"
proof -
  have "PIECE_MAKE c t \<noteq> PIECE_EMPTY" using c by auto
  moreover have "nat sq < 64" using sq by (simp add: SQ_VALID_def nat_less_iff)
  ultimately show ?thesis
    using wf empty piece_ok_MAKE [OF c t] sq
    by (simp add: wf_place_def board_place_def nth_list_update bit_BB_SET)
qed

lemma wf_place_remove [wf_intros]:
  assumes wf: "wf_place b" and sq: "SQ_VALID sq"
  shows "wf_place (board_remove b sq)"
proof (cases "piece_at b sq = PIECE_EMPTY")
  case True
  with wf show ?thesis by (simp add: board_remove_def)
next
  case False
  have n: "nat sq < 64" using sq by (simp add: SQ_VALID_def nat_less_iff)
  from wf_place_piece_ok [OF wf sq] False obtain c t
    where p: "piece_at b sq = PIECE_MAKE c t" "c \<in> {WHITE, BLACK}" "t \<in> set piece_types"
    by (auto elim: piece_ok_cases)
  with False n wf sq show ?thesis
    by (simp add: wf_place_def board_remove_def Let_def nth_list_update bit_BB_CLR)
qed


section \<open>The interface of the mutation primitives\<close>

text \<open>
  What \<open>board_place\<close> and \<open>board_remove\<close> promise to the code above them, in terms of the
  contents of the squares: writing a square changes that square only, and the store stays
  consistent as long as a piece is only placed on an empty square (\<open>board_place\<close> does not
  clear a previous occupant from its bitboards).
\<close>

locale piece_store =
  fixes at :: "'b \<Rightarrow> Square \<Rightarrow> Piece"
    and place :: "'b \<Rightarrow> Square \<Rightarrow> Color \<Rightarrow> PieceType \<Rightarrow> 'b"
    and remove :: "'b \<Rightarrow> Square \<Rightarrow> 'b"
    and invar :: "'b \<Rightarrow> bool"
  assumes at_place: "invar b \<Longrightarrow> SQ_VALID sq \<Longrightarrow> SQ_VALID s \<Longrightarrow>
      at (place b sq c t) s = (if s = sq then PIECE_MAKE c t else at b s)"
    and at_remove: "invar b \<Longrightarrow> SQ_VALID sq \<Longrightarrow> SQ_VALID s \<Longrightarrow>
      at (remove b sq) s = (if s = sq then PIECE_EMPTY else at b s)"
    and invar_place: "invar b \<Longrightarrow> SQ_VALID sq \<Longrightarrow> at b sq = PIECE_EMPTY \<Longrightarrow>
      c \<in> {WHITE, BLACK} \<Longrightarrow> t \<in> set piece_types \<Longrightarrow> invar (place b sq c t)"
    and invar_remove: "invar b \<Longrightarrow> SQ_VALID sq \<Longrightarrow> invar (remove b sq)"
begin

text \<open>Lifting a piece and setting it down elsewhere, then taking the step back.\<close>

lemma relocate_invar:
  assumes "invar b" "SQ_VALID from" "SQ_VALID to" "from \<noteq> to" "at b to = PIECE_EMPTY"
    "c \<in> {WHITE, BLACK}" "t \<in> set piece_types"
  shows "invar (place (remove b from) to c t)"
  using assms by (intro invar_place invar_remove) (simp_all add: at_remove)

lemma relocate_at:
  assumes "invar b" "SQ_VALID from" "SQ_VALID to" "SQ_VALID s"
  shows "at (place (remove b from) to c t) s =
    (if s = to then PIECE_MAKE c t else if s = from then PIECE_EMPTY else at b s)"
  using assms by (simp add: at_place at_remove invar_remove)

lemma relocate_back_at:
  assumes b: "invar b" "SQ_VALID from" "SQ_VALID to" "from \<noteq> to" "at b to = PIECE_EMPTY"
    and p: "c \<in> {WHITE, BLACK}" "t' \<in> set piece_types" "at b from = PIECE_MAKE c t"
    and s: "SQ_VALID s"
  shows "at (place (remove (place (remove b from) to c t') to) from c t) s = at b s"
proof -
  have "invar (place (remove b from) to c t')"
    by (rule relocate_invar) (use b p in auto)
  then show ?thesis
    using b p s by (auto simp: at_place at_remove invar_remove relocate_at)
qed

end

interpretation bs: piece_store piece_at board_place board_remove wf_place
proof unfold_locales
  fix b sq s c t
  assume "wf_place b" "SQ_VALID sq" "SQ_VALID s"
  then show "piece_at (board_place b sq c t) s = (if s = sq then PIECE_MAKE c t else piece_at b s)"
    and "piece_at (board_remove b sq) s = (if s = sq then PIECE_EMPTY else piece_at b s)"
    by (auto simp: nth_list_update SQ_VALID_def nat_less_iff nat_eq_iff)
qed (simp_all add: wf_place_place wf_place_remove)

end
