(* ===== verification/Zobrist.thy ===== *)
theory Zobrist
  imports BoardState
begin

text \<open>
  Position hashing (\<open>board/board_zobrist.c\<close>) and \<open>board_refresh\<close> of \<open>board.c\<close>.  The
  static key tables and the generator state are a record, which \<open>zobrist_init\<close> fills
  once; every function that hashes takes the record as an argument.  The lemmas show
  that the generator is a bijection that never yields a zero key, that the tables have
  the dimensions the readers index, and that the piece part of the hash is the exclusive
  or of one key per occupied square, so that placing or removing a piece toggles exactly
  one key.
\<close>

section \<open>Key generation\<close>

record ZobState =
  zob_piece :: "u64 list list list"
  zob_side :: u64
  zob_castle :: "u64 list"
  zob_ep :: "u64 list"
  zob_heir_promoted :: "u64 list"
  zob_truce_active :: u64
  zob_kb_unlocked :: u64
  zob_ready :: bool
  xor_state :: u64

definition zob_static :: ZobState where
  "zob_static =
     \<lparr> zob_piece = replicate 2 (replicate 6 (replicate 64 0)), zob_side = 0,
       zob_castle = replicate 16 0, zob_ep = replicate 64 0, zob_heir_promoted = replicate 2 0,
       zob_truce_active = 0, zob_kb_unlocked = 0, zob_ready = False,
       xor_state = 0x12345678ABCDEF01 \<rparr>"

definition xor_next :: "u64 \<Rightarrow> u64" where
  "xor_next s =
     (let s = s XOR push_bit 13 s;
          s = s XOR drop_bit 7 s;
          s = s XOR push_bit 17 s
      in s)"

text \<open>Filling \<open>n\<close> consecutive cells with the generator's output.\<close>

primrec xor_fill :: "nat \<Rightarrow> u64 \<Rightarrow> u64 list \<times> u64" where
  "xor_fill 0 s = ([], s)"
| "xor_fill (Suc n) s =
     (let s = xor_next s; (ks, s') = xor_fill n s in (s # ks, s'))"

primrec xor_fill2 :: "nat \<Rightarrow> nat \<Rightarrow> u64 \<Rightarrow> u64 list list \<times> u64" where
  "xor_fill2 0 n s = ([], s)"
| "xor_fill2 (Suc m) n s =
     (let (ks, s) = xor_fill n s; (kss, s') = xor_fill2 m n s in (ks # kss, s'))"

primrec xor_fill3 :: "nat \<Rightarrow> nat \<Rightarrow> nat \<Rightarrow> u64 \<Rightarrow> u64 list list list \<times> u64" where
  "xor_fill3 0 m n s = ([], s)"
| "xor_fill3 (Suc l) m n s =
     (let (kss, s) = xor_fill2 m n s; (ksss, s') = xor_fill3 l m n s in (kss # ksss, s'))"

definition zobrist_init :: "ZobState \<Rightarrow> ZobState" where
  "zobrist_init z =
     (if zob_ready z then z
      else let (kp, s) = xor_fill3 2 6 64 (xor_state z);
               ks = xor_next s; s = ks;
               (kc, s) = xor_fill 16 s;
               (ke, s) = xor_fill 64 s;
               (kh, s) = xor_fill 2 s;
               kt = xor_next s; s = kt;
               kk = xor_next s; s = kk
           in \<lparr> zob_piece = kp, zob_side = ks, zob_castle = kc, zob_ep = ke,
                zob_heir_promoted = kh, zob_truce_active = kt, zob_kb_unlocked = kk,
                zob_ready = True, xor_state = s \<rparr>)"


section \<open>Hashing a position\<close>

abbreviation zkey :: "ZobState \<Rightarrow> Color \<Rightarrow> PieceType \<Rightarrow> Square \<Rightarrow> u64" where
  "zkey Z c t sq \<equiv> zob_piece Z ! color_val c ! type_val t ! nat sq"

definition zobrist_compute :: "ZobState \<Rightarrow> Board \<Rightarrow> u64" where
  "zobrist_compute Z b =
     (let h = fold (\<lambda>c h. fold (\<lambda>t h. fold (\<lambda>sq h. h XOR zkey Z c t sq)
                (bb_squares (pieces b c t)) h) piece_types h) colors 0;
          h = (if side b = BLACK then h XOR zob_side Z else h);
          h = h XOR zob_castle Z ! unat (castling b);
          h = (if ep_square b \<noteq> SQ_NONE then h XOR zob_ep Z ! nat (ep_square b) else h);
          h = fold (\<lambda>c h. if heir_promoted b c then h XOR zob_heir_promoted Z ! color_val c else h)
                colors h;
          h = (if truce_active b then h XOR zob_truce_active Z else h);
          h = (if kb_unlocked b then h XOR zob_kb_unlocked Z else h)
      in h)"

definition board_refresh :: "ZobState \<Rightarrow> Board \<Rightarrow> Board" where
  "board_refresh Z b =
     (let occ = (\<lambda>c. fold (\<lambda>t bb. bb OR pieces b c t) piece_types BB_EMPTY);
          b = b \<lparr> occupied := (occupied b)(WHITE := occ WHITE, BLACK := occ BLACK) \<rparr>;
          b = b \<lparr> all_bb := occupied b WHITE OR occupied b BLACK \<rparr>
      in b \<lparr> hash := zobrist_compute Z b \<rparr>)"


section \<open>The generator\<close>

lemma xor_push_inj:
  assumes "0 < k" "x XOR push_bit k x = y XOR push_bit k (y :: 'a :: len word)"
  shows "x = y"
proof (rule bit_word_eqI)
  fix n
  show "n < LENGTH('a) \<Longrightarrow> bit x n = bit y n"
  proof (induction n rule: less_induct)
    case (less n)
    have "bit (x XOR push_bit k x) n = bit (y XOR push_bit k y) n" using assms(2) by simp
    moreover have "k \<le> n \<Longrightarrow> bit x (n - k) = bit y (n - k)" using assms(1) less by simp
    ultimately show ?case
      using less.prems by (cases "k \<le> n") (auto simp: bit_xor_iff bit_push_bit_iff)
  qed
qed

lemma xor_drop_inj:
  assumes "0 < k" "x XOR drop_bit k x = y XOR drop_bit k (y :: 'a :: len word)"
  shows "x = y"
proof -
  have "bit x (LENGTH('a) - n) = bit y (LENGTH('a) - n)" for n
  proof (induction n rule: less_induct)
    case (less n)
    have "bit (x XOR drop_bit k x) (LENGTH('a) - n) = bit (y XOR drop_bit k y) (LENGTH('a) - n)"
      using assms(2) by simp
    moreover have "bit x (k + (LENGTH('a) - n)) = bit y (k + (LENGTH('a) - n))"
    proof (cases "k \<le> n \<and> n \<le> LENGTH('a)")
      case True
      then have "k + (LENGTH('a) - n) = LENGTH('a) - (n - k)" by simp
      then show ?thesis using assms(1) less [of "n - k"] True by simp
    next
      case False
      show ?thesis
      proof (cases "n \<le> LENGTH('a)")
        case True
        with False have "LENGTH('a) \<le> k + (LENGTH('a) - n)" by simp
        then show ?thesis by (metis bit_imp_le_length linorder_not_less)
      next
        case False
        then show ?thesis using less [of "LENGTH('a) - k"] assms(1)
          by (cases "k \<le> LENGTH('a)") (auto dest!: bit_imp_le_length)
      qed
    qed
    ultimately show ?case by (auto simp: bit_xor_iff bit_drop_bit_eq)
  qed
  then have "bit x n = bit y n" if "n < LENGTH('a)" for n
    using that by (metis diff_diff_cancel less_imp_le)
  then show ?thesis by (rule bit_word_eqI)
qed

lemma xor_next_inj: "xor_next x = xor_next y \<Longrightarrow> x = y"
  unfolding xor_next_def Let_def
  by (drule xor_push_inj [rotated], simp, drule xor_drop_inj [rotated], simp,
      drule xor_push_inj [rotated], simp)

lemma xor_next_0 [simp]: "xor_next 0 = 0"
  by (simp add: xor_next_def)

lemma xor_next_eq_0: "xor_next x = 0 \<longleftrightarrow> x = 0"
  using xor_next_inj [of x 0] by auto

lemma xor_fill_props:
  assumes "xor_fill n s = (ks, s')" "s \<noteq> 0"
  shows "length ks = n \<and> (\<forall>k \<in> set ks. k \<noteq> 0) \<and> s' \<noteq> 0"
  using assms
  by (induction n arbitrary: s ks s')
    (fastforce simp: Let_def xor_next_eq_0 split: prod.splits)+

lemma xor_fill2_props:
  assumes "xor_fill2 m n s = (kss, s')" "s \<noteq> 0"
  shows "length kss = m \<and> (\<forall>ks \<in> set kss. length ks = n \<and> (\<forall>k \<in> set ks. k \<noteq> 0)) \<and> s' \<noteq> 0"
  using assms
proof (induction m arbitrary: s kss s')
  case 0
  then show ?case by simp
next
  case (Suc m)
  obtain ks s1 where 1: "xor_fill n s = (ks, s1)" by fastforce
  obtain kss2 s2 where 2: "xor_fill2 m n s1 = (kss2, s2)" by fastforce
  note p1 = xor_fill_props [OF 1 Suc.prems(2)]
  then have "s1 \<noteq> 0" by simp
  note p2 = Suc.IH [OF 2 this]
  from Suc.prems(1) 1 2 have "kss = ks # kss2" "s' = s2" by simp_all
  with p1 p2 show ?case by simp
qed

lemma xor_fill3_props:
  assumes "xor_fill3 l m n s = (ksss, s')" "s \<noteq> 0"
  shows "length ksss = l \<and> s' \<noteq> 0 \<and>
    (\<forall>kss \<in> set ksss. length kss = m \<and> (\<forall>ks \<in> set kss. length ks = n \<and> (\<forall>k \<in> set ks. k \<noteq> 0)))"
  using assms
proof (induction l arbitrary: s ksss s')
  case 0
  then show ?case by simp
next
  case (Suc l)
  obtain kss s1 where 1: "xor_fill2 m n s = (kss, s1)" by fastforce
  obtain ksss2 s2 where 2: "xor_fill3 l m n s1 = (ksss2, s2)" by fastforce
  note p1 = xor_fill2_props [OF 1 Suc.prems(2)]
  then have "s1 \<noteq> 0" by simp
  note p2 = Suc.IH [OF 2 this]
  from Suc.prems(1) 1 2 have "ksss = kss # ksss2" "s' = s2" by simp_all
  with p1 p2 show ?case by simp
qed

text \<open>The shape of initialised tables: every index the hash uses is in range.\<close>

definition zob_ok :: "ZobState \<Rightarrow> bool" where
  "zob_ok Z \<longleftrightarrow>
     zob_ready Z \<and> length (zob_piece Z) = 2 \<and>
     (\<forall>kss \<in> set (zob_piece Z). length kss = 6 \<and>
        (\<forall>ks \<in> set kss. length ks = 64 \<and> (\<forall>k \<in> set ks. k \<noteq> 0))) \<and>
     zob_side Z \<noteq> 0 \<and>
     length (zob_castle Z) = 16 \<and> (\<forall>k \<in> set (zob_castle Z). k \<noteq> 0) \<and>
     length (zob_ep Z) = 64 \<and> (\<forall>k \<in> set (zob_ep Z). k \<noteq> 0) \<and>
     length (zob_heir_promoted Z) = 2 \<and> (\<forall>k \<in> set (zob_heir_promoted Z). k \<noteq> 0) \<and>
     zob_truce_active Z \<noteq> 0 \<and> zob_kb_unlocked Z \<noteq> 0"

lemma zobrist_init_ok:
  assumes "\<not> zob_ready z" "xor_state z \<noteq> 0"
  shows "zob_ok (zobrist_init z)"
proof -
  obtain kp s1 where 1: "xor_fill3 2 6 64 (xor_state z) = (kp, s1)" by fastforce
  obtain kc s2 where 2: "xor_fill 16 (xor_next s1) = (kc, s2)" by fastforce
  obtain ke s3 where 3: "xor_fill 64 s2 = (ke, s3)" by fastforce
  obtain kh s4 where 4: "xor_fill 2 s3 = (kh, s4)" by fastforce
  note p1 = xor_fill3_props [OF 1 assms(2)]
  then have "xor_next s1 \<noteq> 0" by (simp add: xor_next_eq_0)
  note p2 = xor_fill_props [OF 2 this]
  then have "s2 \<noteq> 0" by simp
  note p3 = xor_fill_props [OF 3 this]
  then have "s3 \<noteq> 0" by simp
  note p4 = xor_fill_props [OF 4 this]
  show ?thesis
    using assms(1) p1 p2 p3 p4
    by (simp add: zobrist_init_def 1 2 3 4 Let_def zob_ok_def xor_next_eq_0)
qed

lemma zobrist_init_static: "zob_ok (zobrist_init zob_static)"
  by (rule zobrist_init_ok) (simp_all add: zob_static_def)

lemma zobrist_init_idem: "zobrist_init (zobrist_init z) = zobrist_init z"
proof -
  have "zob_ready (zobrist_init z)"
    by (simp add: zobrist_init_def Let_def split: prod.splits)
  then show ?thesis by (simp add: zobrist_init_def [of "zobrist_init z"])
qed



section \<open>The hash of a position\<close>

text \<open>One key per occupied square, and the keys of the remaining state.\<close>

definition zob_placement :: "ZobState \<Rightarrow> Board \<Rightarrow> u64" where
  "zob_placement Z b =
     xor_over (\<lambda>c. xor_over (\<lambda>t. xor_over (zkey Z c t) (bb_squares (pieces b c t))) piece_types) colors"

definition zob_flags :: "ZobState \<Rightarrow> Board \<Rightarrow> u64" where
  "zob_flags Z b =
     (if side b = BLACK then zob_side Z else 0) XOR
     zob_castle Z ! unat (castling b) XOR
     (if ep_square b \<noteq> SQ_NONE then zob_ep Z ! nat (ep_square b) else 0) XOR
     (if heir_promoted b WHITE then zob_heir_promoted Z ! 0 else 0) XOR
     (if heir_promoted b BLACK then zob_heir_promoted Z ! 1 else 0) XOR
     (if truce_active b then zob_truce_active Z else 0) XOR
     (if kb_unlocked b then zob_kb_unlocked Z else 0)"

lemma fold_fold_xor_over:
  "fold (\<lambda>x h. fold (\<lambda>y h. h XOR f x y) (ys x) h) xs h = h XOR xor_over (\<lambda>x. xor_over (f x) (ys x)) xs"
  by (simp add: fold_xor_over)

lemma zobrist_compute_eq: "zobrist_compute Z b = zob_placement Z b XOR zob_flags Z b"
  unfolding zobrist_compute_def zob_placement_def zob_flags_def fold_xor_over
  by (simp add: Let_def colors_def xor.assoc)

lemma xor_over_squares_set:
  assumes "SQ_VALID sq" "\<not> bit bb (nat sq)"
  shows "xor_over f (bb_squares (BB_SET bb sq)) = xor_over f (bb_squares bb) XOR f sq"
proof -
  have n: "nat sq < 64" "int (nat sq) = sq" using assms(1) by (auto simp: SQ_VALID_def nat_less_iff)
  have "xor_over (\<lambda>x. if bit (BB_SET bb sq) x then f (int x) else 0) [0..<64] =
      xor_over (\<lambda>x. if bit bb x then f (int x) else 0) [0..<64] XOR (f sq XOR 0)"
    by (subst xor_over_change [where y = "nat sq" and g = "\<lambda>x. if bit bb x then f (int x) else 0"])
      (use assms n in \<open>auto simp: bit_BB_SET\<close>)
  then show ?thesis by (simp add: bb_squares_filter xor_over_map_filter)
qed

lemma zob_placement_set:
  assumes c: "c \<in> {WHITE, BLACK}" and t: "t \<in> set piece_types"
    and sq: "SQ_VALID sq" "\<not> bit (pieces b c t) (nat sq)"
    and p: "pieces b' = (pieces b)(c := (pieces b c)(t := BB_SET (pieces b c t) sq))"
  shows "zob_placement Z b' = zob_placement Z b XOR zkey Z c t sq"
proof -
  let ?g = "\<lambda>b c t. xor_over (zkey Z c t) (bb_squares (pieces b c t))"
  have "?g b' c t = ?g b c t XOR zkey Z c t sq"
    using p sq by (simp add: xor_over_squares_set)
  then have row: "xor_over (?g b' c) piece_types = xor_over (?g b c) piece_types XOR zkey Z c t sq"
    using t p by (subst xor_over_change [where y = t and g = "?g b c"])
      (auto simp: piece_types_def xor_ac)
  show ?thesis
    unfolding zob_placement_def
    using c p row
    by (subst xor_over_change [where y = c and g = "\<lambda>c. xor_over (?g b c) piece_types"])
      (auto simp: colors_def xor_ac)
qed

lemma zobrist_compute_place:
  assumes "wf_place b" "SQ_VALID sq" "piece_at b sq = PIECE_EMPTY"
    "c \<in> {WHITE, BLACK}" "t \<in> set piece_types"
  shows "zobrist_compute Z (board_place b sq c t) = zobrist_compute Z b XOR zkey Z c t sq"
proof -
  have "\<not> bit (pieces b c t) (nat sq)"
    using assms by (auto simp: wf_place_bits_sq)
  then have "zob_placement Z (board_place b sq c t) = zob_placement Z b XOR zkey Z c t sq"
    using assms by (intro zob_placement_set) (auto simp: board_place_def)
  then show ?thesis by (simp add: zobrist_compute_eq zob_flags_def xor_ac)
qed

text \<open>The hash reads nothing but the placement and these seven components.\<close>

lemma zobrist_compute_cong:
  assumes "pieces b = pieces b'" "side b = side b'" "castling b = castling b'"
    "ep_square b = ep_square b'" "heir_promoted b = heir_promoted b'"
    "truce_active b = truce_active b'" "kb_unlocked b = kb_unlocked b'"
  shows "zobrist_compute Z b = zobrist_compute Z b'"
  using assms by (simp add: zobrist_compute_eq zob_placement_def zob_flags_def)

text \<open>On a consistent board \<open>board_refresh\<close> only recomputes the hash.\<close>

lemma bit_fold_or: "bit (fold (\<lambda>t bb. bb OR f t) ts (h :: u64)) n \<longleftrightarrow> bit h n \<or> (\<exists>t \<in> set ts. bit (f t) n)"
  by (induction ts arbitrary: h) (auto simp: bit_or_iff)

lemma board_refresh_wf:
  assumes "wf_place b"
  shows "board_refresh Z b = b \<lparr> hash := zobrist_compute Z b \<rparr>"
proof -
  have occ: "fold (\<lambda>t bb. bb OR pieces b c t) piece_types BB_EMPTY = occupied b c"
    if "c \<in> {WHITE, BLACK}" for c
  proof (rule bit_word_eqI)
    fix n assume "n < LENGTH(64)"
    then have n: "n < 64" by simp
    then have "piece_ok (mailbox b ! n)" using assms by (simp add: wf_place_def)
    then show "bit (fold (\<lambda>t bb. bb OR pieces b c t) piece_types BB_EMPTY) n = bit (occupied b c) n"
      by (cases rule: piece_ok_cases)
        (use that in \<open>auto simp: bit_fold_or wf_place_bits [OF assms n] BB_EMPTY_def\<close>)
  qed
  have all: "occupied b WHITE OR occupied b BLACK = all_bb b"
  proof (rule bit_word_eqI)
    fix n assume "n < LENGTH(64)"
    then have n: "n < 64" by simp
    then have "piece_ok (mailbox b ! n)" using assms by (simp add: wf_place_def)
    then show "bit (occupied b WHITE OR occupied b BLACK) n = bit (all_bb b) n"
      by (cases rule: piece_ok_cases) (auto simp: bit_or_iff wf_place_bits [OF assms n])
  qed
  have "(occupied b)(WHITE := occupied b WHITE, BLACK := occupied b BLACK) = occupied b"
    by auto
  with occ all have "board_refresh Z b =
      b \<lparr> occupied := occupied b, all_bb := all_bb b,
         hash := zobrist_compute Z (b \<lparr> occupied := occupied b, all_bb := all_bb b \<rparr>) \<rparr>"
    by (simp add: board_refresh_def Let_def)
  then show ?thesis by simp
qed

end
