(* ===== verification/Attacks.thy ===== *)
theory Attacks
  imports BoardState
begin

text \<open>
  Attack detection (\<open>board/board_attacks.c\<close>): the precomputed leaper tables, the sliding
  attack loops, \<open>board_square_attacked\<close> and \<open>board_in_check\<close>.  The engine answers "is this
  square attacked?" by looking outwards from the square and intersecting with the
  attacker's bitboards.  The geometric specification looks the other way, from each piece
  to the squares it attacks; the two agree because every attack pattern has a dual, which
  is what the interface \<open>dual_attacks\<close> states.
\<close>

section \<open>Leaper tables\<close>

record AttackTables =
  knight_tab :: "Bitboard list"
  king_tab :: "Bitboard list"
  pawn_tab :: "Bitboard list list"
  attacks_ready :: bool

definition attacks_static :: AttackTables where
  "attacks_static =
     \<lparr> knight_tab = replicate 64 0, king_tab = replicate 64 0,
       pawn_tab = replicate 2 (replicate 64 0), attacks_ready = False \<rparr>"

definition on_board :: "int \<Rightarrow> int \<Rightarrow> bool" where
  "on_board r c \<longleftrightarrow> r \<ge> 0 \<and> r < 8 \<and> c \<ge> 0 \<and> c < 8"

definition leaper_bb :: "(int \<times> int) list \<Rightarrow> int \<Rightarrow> int \<Rightarrow> Bitboard" where
  "leaper_bb offs r c =
     fold (\<lambda>(dr, dc) bb. let nr = r + dr; nc = c + dc in
             if on_board nr nc then BB_SET bb (SQ nr nc) else bb) offs BB_EMPTY"

definition kn :: "(int \<times> int) list" where
  "kn = [(-2,-1), (-2,1), (-1,-2), (-1,2), (1,-2), (1,2), (2,-1), (2,1)]"

definition king_offsets :: "(int \<times> int) list" where
  "king_offsets = filter (\<lambda>(dr, dc). \<not> (dr = 0 \<and> dc = 0)) (List.product [-1..1] [-1..1])"

definition pawn_bb :: "Color \<Rightarrow> int \<Rightarrow> int \<Rightarrow> Bitboard" where
  "pawn_bb clr r c =
     (if clr = WHITE then
        (let bb = (if r < 7 \<and> c > 0 then BB_SET BB_EMPTY (SQ (r + 1) (c - 1)) else BB_EMPTY)
         in if r < 7 \<and> c < 7 then BB_SET bb (SQ (r + 1) (c + 1)) else bb)
      else
        (let bb = (if r > 0 \<and> c > 0 then BB_SET BB_EMPTY (SQ (r - 1) (c - 1)) else BB_EMPTY)
         in if r > 0 \<and> c < 7 then BB_SET bb (SQ (r - 1) (c + 1)) else bb))"

text \<open>The loop over the 64 squares writes each table entry once.\<close>

definition init_attacks :: "AttackTables \<Rightarrow> AttackTables" where
  "init_attacks a =
     (if attacks_ready a then a
      else \<lparr> knight_tab = map (\<lambda>sq. leaper_bb kn (SQ_ROW sq) (SQ_COL sq)) [0..63],
             king_tab = map (\<lambda>sq. leaper_bb king_offsets (SQ_ROW sq) (SQ_COL sq)) [0..63],
             pawn_tab = map (\<lambda>clr. map (\<lambda>sq. pawn_bb clr (SQ_ROW sq) (SQ_COL sq)) [0..63]) colors,
             attacks_ready = True \<rparr>)"

text \<open>
  The tables are written by \<open>init_attacks\<close> alone and every reader runs after it
  (\<open>board_square_attacked\<close>, \<open>generate_moves\<close> and \<open>generate_captures\<close> call it first), so
  readers see the initialised tables.
\<close>

definition knight_attacks :: "Square \<Rightarrow> Bitboard" where
  "knight_attacks sq = knight_tab (init_attacks attacks_static) ! nat sq"

definition king_attacks :: "Square \<Rightarrow> Bitboard" where
  "king_attacks sq = king_tab (init_attacks attacks_static) ! nat sq"

definition pawn_attacks :: "Color \<Rightarrow> Square \<Rightarrow> Bitboard" where
  "pawn_attacks clr sq = pawn_tab (init_attacks attacks_static) ! color_val clr ! nat sq"


section \<open>Sliding attacks\<close>

text \<open>
  The inner \<open>while\<close> loop along one direction.  The first argument bounds the number of
  steps; \<open>ray_loop_fuel\<close> shows that 8 is never reached from a square of the board.
\<close>

fun ray_loop :: "nat \<Rightarrow> int \<Rightarrow> int \<Rightarrow> Bitboard \<Rightarrow> int \<Rightarrow> int \<Rightarrow> Bitboard \<Rightarrow> Bitboard" where
  "ray_loop 0 dr dc occ nr nc attacks = attacks"
| "ray_loop (Suc n) dr dc occ nr nc attacks =
     (if on_board nr nc then
        (let s = SQ nr nc; attacks = BB_SET attacks s in
         if BB_HAS occ s then attacks
         else ray_loop n dr dc occ (nr + dr) (nc + dc) attacks)
      else attacks)"

definition slider_attacks :: "(int \<times> int) list \<Rightarrow> Square \<Rightarrow> Bitboard \<Rightarrow> Bitboard" where
  "slider_attacks dirs sq occ =
     (let r = SQ_ROW sq; c = SQ_COL sq in
      fold (\<lambda>(dr, dc) attacks. ray_loop 8 dr dc occ (r + dr) (c + dc) attacks) dirs BB_EMPTY)"

definition bishop_dirs :: "(int \<times> int) list" where
  "bishop_dirs = [(1,1), (1,-1), (-1,1), (-1,-1)]"

definition rook_dirs :: "(int \<times> int) list" where
  "rook_dirs = [(1,0), (-1,0), (0,1), (0,-1)]"

definition bishop_attacks_calc :: "Square \<Rightarrow> Bitboard \<Rightarrow> Bitboard" where
  "bishop_attacks_calc sq occ = slider_attacks bishop_dirs sq occ"

definition rook_attacks_calc :: "Square \<Rightarrow> Bitboard \<Rightarrow> Bitboard" where
  "rook_attacks_calc sq occ = slider_attacks rook_dirs sq occ"


section \<open>Attack queries\<close>

definition kb_phase1 :: "Board \<Rightarrow> bool" where
  "kb_phase1 b \<longleftrightarrow> game_mod b = MOD_KINGS_BATTLE \<and> \<not> kb_unlocked b"

definition effective_queens :: "Board \<Rightarrow> Color \<Rightarrow> Bitboard" where
  "effective_queens b by =
     (let q = pieces b by QUEEN in
      if game_mod b = MOD_SAVE_QUEEN
      then fold (\<lambda>qsq eq. if \<not> stq_is_own_half qsq by then eq AND NOT (BB_SQ qsq) else eq)
             (bb_squares q) q
      else q)"

definition board_square_attacked :: "Board \<Rightarrow> Square \<Rightarrow> Color \<Rightarrow> bool" where
  "board_square_attacked b sq by =
     (if \<not> kb_phase1 b \<and> knight_attacks sq AND pieces b by KNIGHT \<noteq> 0 then True
      else if king_attacks sq AND pieces b by KING \<noteq> 0 then True
      else if (if game_mod b = MOD_MERCENARY
               then king_attacks sq AND pieces b by PAWN \<noteq> 0
               else pawn_attacks (color_opposite by) sq AND pieces b by PAWN \<noteq> 0) then True
      else if kb_phase1 b then False
      else let eq = effective_queens b by in
        if bishop_attacks_calc sq (all_bb b) AND (pieces b by BISHOP OR eq) \<noteq> 0 then True
        else if rook_attacks_calc sq (all_bb b) AND (pieces b by ROOK OR eq) \<noteq> 0 then True
        else False)"

definition board_in_check :: "Board \<Rightarrow> Color \<Rightarrow> bool" where
  "board_in_check b s =
     (let kingBB = pieces b s KING in
      if kingBB = BB_EMPTY then False
      else if game_mod b = MOD_HEIR \<and> \<not> heir_check_applies b s then False
      else if game_mod b = MOD_TRUCE \<and> truce_active b then False
      else board_square_attacked b (bb_lsb kingBB) (color_opposite s))"


section \<open>Geometry\<close>

abbreviation sq_diff :: "Square \<Rightarrow> Square \<Rightarrow> int \<times> int" where
  "sq_diff a b \<equiv> (SQ_ROW b - SQ_ROW a, SQ_COL b - SQ_COL a)"

definition knight_step :: "Square \<Rightarrow> Square \<Rightarrow> bool" where
  "knight_step a b \<longleftrightarrow> (\<bar>fst (sq_diff a b)\<bar>, \<bar>snd (sq_diff a b)\<bar>) \<in> {(1, 2), (2, 1)}"

definition king_step :: "Square \<Rightarrow> Square \<Rightarrow> bool" where
  "king_step a b \<longleftrightarrow> a \<noteq> b \<and> \<bar>fst (sq_diff a b)\<bar> \<le> 1 \<and> \<bar>snd (sq_diff a b)\<bar> \<le> 1"

definition pawn_step :: "Color \<Rightarrow> Square \<Rightarrow> Square \<Rightarrow> bool" where
  "pawn_step c a b \<longleftrightarrow> fst (sq_diff a b) = (if c = WHITE then 1 else -1) \<and> \<bar>snd (sq_diff a b)\<bar> = 1"

text \<open>
  A slide: some \<open>k \<ge> 1\<close> steps in one direction, with every square strictly between the two
  ends empty.
\<close>

definition clear_ray :: "Bitboard \<Rightarrow> int \<Rightarrow> int \<Rightarrow> int \<Rightarrow> int \<Rightarrow> nat \<Rightarrow> bool" where
  "clear_ray occ r c dr dc k \<longleftrightarrow>
     on_board (r + int k * dr) (c + int k * dc) \<and>
     (\<forall>j \<in> {1..<k}. on_board (r + int j * dr) (c + int j * dc) \<and>
        \<not> BB_HAS occ (SQ (r + int j * dr) (c + int j * dc)))"

definition slides :: "(int \<times> int) list \<Rightarrow> Bitboard \<Rightarrow> Square \<Rightarrow> Square \<Rightarrow> bool" where
  "slides dirs occ a b \<longleftrightarrow>
     (\<exists>(dr, dc) \<in> set dirs. \<exists>k \<in> {1..8}.
        clear_ray occ (SQ_ROW a) (SQ_COL a) dr dc k \<and>
        b = SQ (SQ_ROW a + int k * dr) (SQ_COL a + int k * dc))"

lemma on_board_SQ:
  assumes "on_board r c"
  shows "SQ r c = r * 8 + c" "SQ_VALID (SQ r c)" "SQ_ROW (SQ r c) = r" "SQ_COL (SQ r c) = c"
  using assms SQ_row_col_of_board [of r c] by (simp_all add: on_board_def SQ_board)

lemma on_board_of_SQ: "SQ_VALID s \<Longrightarrow> on_board (SQ_ROW s) (SQ_COL s)"
  using SQ_ROW_bounds [of s] SQ_COL_bounds [of s] by (simp add: on_board_def)

lemma SQ_eq_iff:
  assumes "on_board r c" "SQ_VALID s"
  shows "SQ r c = s \<longleftrightarrow> r = SQ_ROW s \<and> c = SQ_COL s"
  using on_board_SQ [OF assms(1)] assms(2) by (metis SQ_of_row_col)

lemma SQ_VALID_eq_iff:
  "SQ_VALID a \<Longrightarrow> SQ_VALID b \<Longrightarrow> a = b \<longleftrightarrow> SQ_ROW a = SQ_ROW b \<and> SQ_COL a = SQ_COL b"
  by (metis SQ_of_row_col)

lemma nat_sq_eq_iff: "SQ_VALID a \<Longrightarrow> SQ_VALID b \<Longrightarrow> nat a = nat b \<longleftrightarrow> a = b"
  by (auto simp: SQ_VALID_def nat_eq_iff)


subsection \<open>Leapers\<close>

lemma bit_leaper_fold:
  "bit (fold (\<lambda>(dr, dc) bb. let nr = r + dr; nc = c + dc in
            if on_board nr nc then BB_SET bb (SQ nr nc) else bb) offs bb) n \<longleftrightarrow>
   bit bb n \<or> (\<exists>(dr, dc) \<in> set offs. on_board (r + dr) (c + dc) \<and> n = nat (SQ (r + dr) (c + dc)))"
  by (rule bit_fold_union) (auto simp: Let_def bit_BB_SET on_board_SQ(2) split: if_splits)

lemma bit_leaper_bb:
  assumes "SQ_VALID a" "SQ_VALID b"
  shows "bit (leaper_bb offs (SQ_ROW a) (SQ_COL a)) (nat b) \<longleftrightarrow> sq_diff a b \<in> set offs"
proof -
  have "(on_board (SQ_ROW a + dr) (SQ_COL a + dc) \<and> nat b = nat (SQ (SQ_ROW a + dr) (SQ_COL a + dc)))
      \<longleftrightarrow> sq_diff a b = (dr, dc)" for dr dc
  proof (cases "on_board (SQ_ROW a + dr) (SQ_COL a + dc)")
    case True
    then have "nat b = nat (SQ (SQ_ROW a + dr) (SQ_COL a + dc)) \<longleftrightarrow>
        SQ (SQ_ROW a + dr) (SQ_COL a + dc) = b"
      using assms(2) on_board_SQ(2) nat_sq_eq_iff by metis
    with True assms(2) show ?thesis by (auto simp: SQ_eq_iff)
  next
    case False
    then have "sq_diff a b \<noteq> (dr, dc)"
      using on_board_of_SQ [OF assms(2)] by (auto simp: algebra_simps)
    with False show ?thesis by simp
  qed
  then show ?thesis
    by (auto simp: leaper_bb_def bit_leaper_fold BB_EMPTY_def split: prod.splits)
qed

lemma nth_upto_63: "SQ_VALID sq \<Longrightarrow> map f [0..63] ! nat sq = f sq"
  by (auto simp: SQ_VALID_def nth_upto)

lemma knight_attacks_eq: "SQ_VALID sq \<Longrightarrow> knight_attacks sq = leaper_bb kn (SQ_ROW sq) (SQ_COL sq)"
  by (simp add: knight_attacks_def init_attacks_def attacks_static_def nth_upto_63)

lemma king_attacks_eq:
  "SQ_VALID sq \<Longrightarrow> king_attacks sq = leaper_bb king_offsets (SQ_ROW sq) (SQ_COL sq)"
  by (simp add: king_attacks_def init_attacks_def attacks_static_def nth_upto_63)

lemma pawn_attacks_eq:
  "SQ_VALID sq \<Longrightarrow> c \<in> {WHITE, BLACK} \<Longrightarrow> pawn_attacks c sq = pawn_bb c (SQ_ROW sq) (SQ_COL sq)"
  by (auto simp: pawn_attacks_def init_attacks_def attacks_static_def colors_def nth_upto_63)


text \<open>Evaluation looks up one entry without building the whole table.\<close>

lemma attack_tables_code [code]:
  "knight_attacks sq = (if SQ_VALID sq then leaper_bb kn (SQ_ROW sq) (SQ_COL sq)
     else knight_tab (init_attacks attacks_static) ! nat sq)"
  "king_attacks sq = (if SQ_VALID sq then leaper_bb king_offsets (SQ_ROW sq) (SQ_COL sq)
     else king_tab (init_attacks attacks_static) ! nat sq)"
  "pawn_attacks clr sq = (if SQ_VALID sq \<and> clr \<in> {WHITE, BLACK} then pawn_bb clr (SQ_ROW sq) (SQ_COL sq)
     else pawn_tab (init_attacks attacks_static) ! color_val clr ! nat sq)"
  by (simp_all add: knight_attacks_eq king_attacks_eq pawn_attacks_eq)
    (simp_all add: knight_attacks_def king_attacks_def pawn_attacks_def)

lemma bit_knight_attacks:
  assumes "SQ_VALID a" "SQ_VALID b"
  shows "bit (knight_attacks a) (nat b) \<longleftrightarrow> knight_step a b"
  unfolding knight_attacks_eq [OF assms(1)] bit_leaper_bb [OF assms]
  by (auto simp: kn_def knight_step_def abs_if split: if_splits)

lemma set_king_offsets: "set king_offsets = {(dr, dc). \<bar>dr\<bar> \<le> 1 \<and> \<bar>dc\<bar> \<le> 1 \<and> (dr, dc) \<noteq> (0, 0)}"
  by (auto simp: king_offsets_def)

lemma bit_king_attacks:
  assumes "SQ_VALID a" "SQ_VALID b"
  shows "bit (king_attacks a) (nat b) \<longleftrightarrow> king_step a b"
  unfolding king_attacks_eq [OF assms(1)] bit_leaper_bb [OF assms] set_king_offsets
  using SQ_VALID_eq_iff [OF assms] by (auto simp: king_step_def)

lemma bit_pawn_attacks:
  assumes "SQ_VALID a" "SQ_VALID b" "c \<in> {WHITE, BLACK}"
  shows "bit (pawn_attacks c a) (nat b) \<longleftrightarrow> pawn_step c a b"
proof -
  let ?r = "SQ_ROW a" and ?c = "SQ_COL a"
  have set_iff: "bit (BB_SET bb (SQ r' c')) (nat b) \<longleftrightarrow> (r' = SQ_ROW b \<and> c' = SQ_COL b) \<or> bit bb (nat b)"
    if "on_board r' c'" for r' c' bb
    using that assms(2) on_board_SQ(2) [OF that]
    by (metis bit_BB_SET nat_sq_eq_iff SQ_eq_iff)
  have a: "0 \<le> ?r" "?r < 8" "0 \<le> ?c" "?c < 8" and b: "0 \<le> SQ_ROW b" "SQ_ROW b < 8" "0 \<le> SQ_COL b" "SQ_COL b < 8"
    using on_board_of_SQ [OF assms(1)] on_board_of_SQ [OF assms(2)] by (simp_all add: on_board_def)
  from assms(3) show ?thesis
    unfolding pawn_attacks_eq [OF assms(1,3)] pawn_bb_def Let_def pawn_step_def
    using a b by (auto simp: set_iff on_board_def BB_EMPTY_def)
qed


subsection \<open>Sliders\<close>

text \<open>The loop collects exactly the squares of the clear part of the ray.\<close>

lemma clear_ray_1 [simp]: "clear_ray occ r c dr dc (Suc 0) \<longleftrightarrow> on_board (r + dr) (c + dc)"
  by (simp add: clear_ray_def)

lemma clear_ray_Suc:
  assumes "0 < k"
  shows "clear_ray occ r c dr dc (Suc k) \<longleftrightarrow>
    on_board (r + dr) (c + dc) \<and> \<not> BB_HAS occ (SQ (r + dr) (c + dc)) \<and>
    clear_ray occ (r + dr) (c + dc) dr dc k"
proof -
  have sh: "r + int (Suc j) * dr = (r + dr) + int j * dr" "c + int (Suc j) * dc = (c + dc) + int j * dc" for j
    by (simp_all add: algebra_simps)
  show ?thesis
    unfolding clear_ray_def ball_Suc_shift [OF assms] sh by auto
qed

lemma bit_ray_loop:
  "bit (ray_loop n dr dc occ (r + dr) (c + dc) att) t \<longleftrightarrow>
     bit att t \<or> (\<exists>k \<in> {1..n}. clear_ray occ r c dr dc k \<and> t = nat (SQ (r + int k * dr) (c + int k * dc)))"
proof (induction n arbitrary: r c att)
  case 0
  then show ?case by simp
next
  case (Suc n)
  have sh: "r + int (Suc k) * dr = (r + dr) + int k * dr" "c + int (Suc k) * dc = (c + dc) + int k * dc" for k
    by (simp_all add: algebra_simps)
  show ?case
  proof (cases "on_board (r + dr) (c + dc)")
    case False
    then have "\<not> clear_ray occ r c dr dc k" if "k \<in> {1..Suc n}" for k
      using that clear_ray_Suc [of "k - 1"] by (cases "k = 1") auto
    with False show ?thesis by auto
  next
    case True
    note on = this
    show ?thesis
    proof (cases "BB_HAS occ (SQ (r + dr) (c + dc))")
      case True
      then have "\<not> clear_ray occ r c dr dc (Suc k)" if "k \<in> {1..n}" for k
        using that by (simp add: clear_ray_Suc)
      with on True show ?thesis
        unfolding bex_Suc_shift by (auto simp: bit_BB_SET on_board_SQ(2))
    next
      case False
      have "(\<exists>k \<in> {1..n}. clear_ray occ r c dr dc (Suc k) \<and>
             t = nat (SQ (r + int (Suc k) * dr) (c + int (Suc k) * dc))) \<longleftrightarrow>
          (\<exists>k \<in> {1..n}. clear_ray occ (r + dr) (c + dc) dr dc k \<and>
             t = nat (SQ ((r + dr) + int k * dr) ((c + dc) + int k * dc)))"
        using on False by (intro bex_cong refl) (simp only: sh, simp add: clear_ray_Suc)
      with on False Suc.IH [of "r + dr" "c + dc"] show ?thesis
        unfolding bex_Suc_shift by (simp add: bit_BB_SET on_board_SQ(2)) auto
    qed
  qed
qed

lemma bit_fold_rays:
  "bit (fold (\<lambda>(dr, dc) att. ray_loop m dr dc occ (r + dr) (c + dc) att) dirs att) t \<longleftrightarrow>
     bit att t \<or> (\<exists>(dr, dc) \<in> set dirs. \<exists>k \<in> {1..m}.
        clear_ray occ r c dr dc k \<and> t = nat (SQ (r + int k * dr) (c + int k * dc)))"
  by (rule bit_fold_union) (simp add: bit_ray_loop split: prod.split)

lemma bit_slider_attacks:
  assumes "SQ_VALID b"
  shows "bit (slider_attacks dirs a occ) (nat b) \<longleftrightarrow> slides dirs occ a b"
proof -
  have "(clear_ray occ r c dr dc k \<and> nat b = nat (SQ (r + int k * dr) (c + int k * dc))) \<longleftrightarrow>
      (clear_ray occ r c dr dc k \<and> b = SQ (r + int k * dr) (c + int k * dc))" for r c dr dc k
    using assms nat_sq_eq_iff on_board_SQ(2) unfolding clear_ray_def by metis
  then show ?thesis
    by (simp add: slider_attacks_def slides_def bit_fold_rays BB_EMPTY_def Let_def)
qed

text \<open>No ray of the board has more than seven squares, so the step bound is never reached.\<close>

lemma clear_ray_bound:
  assumes "on_board r c" "(dr, dc) \<noteq> (0, 0)" "clear_ray occ r c dr dc k"
  shows "k < 8"
proof (rule ccontr)
  assume "\<not> k < 8"
  then have k: "8 \<le> int k" by simp
  have on: "on_board (r + int k * dr) (c + int k * dc)" using assms(3) by (simp add: clear_ray_def)
  from assms(2) consider "1 \<le> dr" | "dr \<le> - 1" | "1 \<le> dc" | "dc \<le> - 1" by fastforce
  then show False
  proof cases
    case 1
    then have "int k \<le> int k * dr" using mult_left_mono [of 1 dr "int k"] by simp
    then show False using on assms(1) k unfolding on_board_def by linarith
  next
    case 2
    then have "int k * dr \<le> - int k" using mult_left_mono [of dr "- 1" "int k"] by simp
    then show False using on assms(1) k unfolding on_board_def by linarith
  next
    case 3
    then have "int k \<le> int k * dc" using mult_left_mono [of 1 dc "int k"] by simp
    then show False using on assms(1) k unfolding on_board_def by linarith
  next
    case 4
    then have "int k * dc \<le> - int k" using mult_left_mono [of dc "- 1" "int k"] by simp
    then show False using on assms(1) k unfolding on_board_def by linarith
  qed
qed

lemma ray_loop_fuel:
  assumes "on_board r c" "(dr, dc) \<noteq> (0, 0)" "8 \<le> n"
  shows "ray_loop n dr dc occ (r + dr) (c + dc) att = ray_loop 8 dr dc occ (r + dr) (c + dc) att"
proof (rule bit_word_eqI)
  fix t
  have "(\<exists>k \<in> {1..n}. clear_ray occ r c dr dc k \<and> P k) \<longleftrightarrow> (\<exists>k \<in> {1..8}. clear_ray occ r c dr dc k \<and> P k)" for P
    using clear_ray_bound [OF assms(1,2)] assms(3) by (force dest: less_imp_le)
  then show "bit (ray_loop n dr dc occ (r + dr) (c + dc) att) t =
      bit (ray_loop 8 dr dc occ (r + dr) (c + dc) att) t"
    unfolding bit_ray_loop by simp
qed

text \<open>Slides can be taken back: the same squares lie between the two ends.\<close>

lemma clear_ray_reverse:
  assumes "on_board r c" "clear_ray occ r c dr dc k" "1 \<le> k"
  shows "clear_ray occ (r + int k * dr) (c + int k * dc) (- dr) (- dc) k"
proof -
  have "on_board ((r + int k * dr) + int j * - dr) ((c + int k * dc) + int j * - dc) \<and>
      \<not> BB_HAS occ (SQ ((r + int k * dr) + int j * - dr) ((c + int k * dc) + int j * - dc))"
    if j: "j \<in> {1..<k}" for j
  proof -
    have kj: "k - j \<in> {1..<k}" using j by auto
    have eqs: "(r + int k * dr) + int j * - dr = r + int (k - j) * dr"
      "(c + int k * dc) + int j * - dc = c + int (k - j) * dc"
      using j by (simp_all add: of_nat_diff algebra_simps)
    show ?thesis
      unfolding eqs using assms(2) kj unfolding clear_ray_def by blast
  qed
  then show ?thesis using assms(1) unfolding clear_ray_def by simp
qed

lemma slides_sym_imp:
  assumes dirs: "\<And>dr dc. (dr, dc) \<in> set dirs \<Longrightarrow> (- dr, - dc) \<in> set dirs"
    and a: "SQ_VALID a" and s: "slides dirs occ a b"
  shows "slides dirs occ b a"
proof -
  let ?r = "SQ_ROW a" and ?c = "SQ_COL a"
  from s obtain dr dc k where d: "(dr, dc) \<in> set dirs" and k: "k \<in> {1..8}"
    and ray: "clear_ray occ ?r ?c dr dc k"
    and b: "b = SQ (?r + int k * dr) (?c + int k * dc)"
    unfolding slides_def by auto
  have on: "on_board (?r + int k * dr) (?c + int k * dc)" using ray by (simp add: clear_ray_def)
  have rb: "SQ_ROW b = ?r + int k * dr" "SQ_COL b = ?c + int k * dc"
    using on_board_SQ(3,4) [OF on] b by simp_all
  have "clear_ray occ (SQ_ROW b) (SQ_COL b) (- dr) (- dc) k"
    using clear_ray_reverse [OF on_board_of_SQ [OF a] ray] k rb by simp
  moreover have "a = SQ (SQ_ROW b + int k * - dr) (SQ_COL b + int k * - dc)"
    using a rb by simp
  ultimately show ?thesis
    unfolding slides_def using dirs [OF d] k by blast
qed

lemma dirs_closed:
  "(dr, dc) \<in> set bishop_dirs \<Longrightarrow> (- dr, - dc) \<in> set bishop_dirs"
  "(dr, dc) \<in> set rook_dirs \<Longrightarrow> (- dr, - dc) \<in> set rook_dirs"
  by (auto simp: bishop_dirs_def rook_dirs_def)


section \<open>Reverse lookup\<close>

text \<open>
  Two attack patterns are dual when one holds from \<open>a\<close> to \<open>b\<close> exactly if the other holds
  from \<open>b\<close> to \<open>a\<close>.  Then intersecting the pattern of a square with a set of pieces finds
  exactly the pieces that attack it.
\<close>

locale dual_attacks =
  fixes att att' :: "Square \<Rightarrow> Bitboard"
  assumes dual: "SQ_VALID a \<Longrightarrow> SQ_VALID b \<Longrightarrow> bit (att a) (nat b) \<longleftrightarrow> bit (att' b) (nat a)"
begin

lemma reverse_lookup:
  assumes "SQ_VALID sq"
  shows "att sq AND pcs \<noteq> 0 \<longleftrightarrow> (\<exists>s. SQ_VALID s \<and> bit pcs (nat s) \<and> bit (att' s) (nat sq))"
proof -
  have "att sq AND pcs \<noteq> 0 \<longleftrightarrow> (\<exists>n < 64. bit (att sq) n \<and> bit pcs n)"
    by (simp add: and_ne_0_iff)
  also have "\<dots> \<longleftrightarrow> (\<exists>s. SQ_VALID s \<and> bit (att sq) (nat s) \<and> bit pcs (nat s))"
    using bit_imp_le_length [of pcs] by (force simp: SQ_VALID_def nat_less_iff intro: exI [of _ "int _"])
  also have "\<dots> \<longleftrightarrow> (\<exists>s. SQ_VALID s \<and> bit pcs (nat s) \<and> bit (att' s) (nat sq))"
    using assms dual by blast
  finally show ?thesis .
qed

end

locale symmetric_attacks = dual_attacks att att for att

interpretation knight: symmetric_attacks knight_attacks
  by unfold_locales (simp add: bit_knight_attacks knight_step_def abs_minus_commute)

interpretation king: symmetric_attacks king_attacks
  by unfold_locales (auto simp: bit_king_attacks king_step_def abs_minus_commute)

interpretation white_pawn: dual_attacks "pawn_attacks BLACK" "pawn_attacks WHITE"
  by unfold_locales (auto simp: bit_pawn_attacks pawn_step_def abs_minus_commute)

interpretation black_pawn: dual_attacks "pawn_attacks WHITE" "pawn_attacks BLACK"
  by unfold_locales (auto simp: bit_pawn_attacks pawn_step_def abs_minus_commute)

interpretation bishop: symmetric_attacks "\<lambda>sq. bishop_attacks_calc sq occ" for occ
  by unfold_locales (use slides_sym_imp dirs_closed in
      \<open>auto simp: bishop_attacks_calc_def bit_slider_attacks\<close>)

interpretation rook: symmetric_attacks "\<lambda>sq. rook_attacks_calc sq occ" for occ
  by unfold_locales (use slides_sym_imp dirs_closed in
      \<open>auto simp: rook_attacks_calc_def bit_slider_attacks\<close>)

lemma pawn_reverse_lookup:
  assumes "SQ_VALID sq" "by \<in> {WHITE, BLACK}"
  shows "pawn_attacks (color_opposite by) sq AND pcs \<noteq> 0 \<longleftrightarrow>
    (\<exists>s. SQ_VALID s \<and> bit pcs (nat s) \<and> bit (pawn_attacks by s) (nat sq))"
  using assms(2) white_pawn.reverse_lookup [OF assms(1)] black_pawn.reverse_lookup [OF assms(1)]
  by fastforce


section \<open>The attack query against the geometric rules\<close>

text \<open>
  The rules of attack, from the attacking piece's side: which square a piece of type \<open>t\<close>
  and colour \<open>by\<close> standing on \<open>s\<close> attacks, in each game mod.
\<close>

definition rule_attacks :: "Board \<Rightarrow> Color \<Rightarrow> PieceType \<Rightarrow> Square \<Rightarrow> Square \<Rightarrow> bool" where
  "rule_attacks b by t s sq =
     (case t of
        PAWN \<Rightarrow> (if game_mod b = MOD_MERCENARY then king_step s sq else pawn_step by s sq)
      | KNIGHT \<Rightarrow> \<not> kb_phase1 b \<and> knight_step s sq
      | BISHOP \<Rightarrow> \<not> kb_phase1 b \<and> slides bishop_dirs (all_bb b) s sq
      | ROOK \<Rightarrow> \<not> kb_phase1 b \<and> slides rook_dirs (all_bb b) s sq
      | QUEEN \<Rightarrow> \<not> kb_phase1 b \<and> (game_mod b = MOD_SAVE_QUEEN \<longrightarrow> stq_is_own_half s by) \<and>
          (slides bishop_dirs (all_bb b) s sq \<or> slides rook_dirs (all_bb b) s sq)
      | KING \<Rightarrow> king_step s sq
      | _ \<Rightarrow> False)"

lemma bit_effective_queens:
  assumes "SQ_VALID s"
  shows "bit (effective_queens b by) (nat s) \<longleftrightarrow>
    bit (pieces b by QUEEN) (nat s) \<and> (game_mod b = MOD_SAVE_QUEEN \<longrightarrow> stq_is_own_half s by)"
proof -
  have "bit (fold (\<lambda>q e. if \<not> stq_is_own_half q by then e AND NOT (BB_SQ q) else e) qs (w :: u64)) (nat s)
      \<longleftrightarrow> bit w (nat s) \<and> (s \<in> set qs \<longrightarrow> stq_is_own_half s by)"
    if "\<forall>q \<in> set qs. SQ_VALID q" for qs w
    using that
  proof (induction qs arbitrary: w)
    case Nil
    then show ?case by simp
  next
    case (Cons q qs)
    then have "bit (w AND NOT (BB_SQ q)) (nat s) \<longleftrightarrow> bit w (nat s) \<and> s \<noteq> q"
      using assms bit_BB_CLR [of q w "nat s"] by (simp add: BB_CLR_def nat_sq_eq_iff) blast
    with Cons show ?case by auto
  qed
  from this [of "bb_squares (pieces b by QUEEN)" "pieces b by QUEEN"] assms show ?thesis
    by (auto simp: effective_queens_def Let_def set_bb_squares)
qed

lemma board_square_attacked_bits:
  assumes sq: "SQ_VALID sq" and clr: "by \<in> {WHITE, BLACK}"
  shows "board_square_attacked b sq by \<longleftrightarrow>
    (\<exists>s t. SQ_VALID s \<and> bit (pieces b by t) (nat s) \<and> rule_attacks b by t s sq)"
proof -
  let ?ex = "\<lambda>t R. \<exists>s. SQ_VALID s \<and> bit (pieces b by t) (nat s) \<and> R s"
  let ?half = "\<lambda>s. game_mod b = MOD_SAVE_QUEEN \<longrightarrow> stq_is_own_half s by"
  let ?diag = "\<lambda>s. slides bishop_dirs (all_bb b) s sq" and ?orth = "\<lambda>s. slides rook_dirs (all_bb b) s sq"
  have n: "knight_attacks sq AND pieces b by KNIGHT \<noteq> 0 \<longleftrightarrow> ?ex KNIGHT (\<lambda>s. knight_step s sq)"
    unfolding knight.reverse_lookup [OF sq] using sq by (auto simp: bit_knight_attacks)
  have k: "king_attacks sq AND pieces b by t \<noteq> 0 \<longleftrightarrow> ?ex t (\<lambda>s. king_step s sq)" for t
    unfolding king.reverse_lookup [OF sq] using sq by (auto simp: bit_king_attacks)
  have p: "pawn_attacks (color_opposite by) sq AND pieces b by PAWN \<noteq> 0 \<longleftrightarrow> ?ex PAWN (\<lambda>s. pawn_step by s sq)"
    unfolding pawn_reverse_lookup [OF sq clr] using sq clr by (auto simp: bit_pawn_attacks)
  have d: "bishop_attacks_calc sq (all_bb b) AND (pieces b by BISHOP OR effective_queens b by) \<noteq> 0 \<longleftrightarrow>
      ?ex BISHOP ?diag \<or> ?ex QUEEN (\<lambda>s. ?half s \<and> ?diag s)"
    unfolding bishop.reverse_lookup [OF sq] using sq
    by (auto simp: bishop_attacks_calc_def bit_slider_attacks bit_or_iff bit_effective_queens)
  have o: "rook_attacks_calc sq (all_bb b) AND (pieces b by ROOK OR effective_queens b by) \<noteq> 0 \<longleftrightarrow>
      ?ex ROOK ?orth \<or> ?ex QUEEN (\<lambda>s. ?half s \<and> ?orth s)"
    unfolding rook.reverse_lookup [OF sq] using sq
    by (auto simp: rook_attacks_calc_def bit_slider_attacks bit_or_iff bit_effective_queens)
  have split: "(\<exists>s t. SQ_VALID s \<and> bit (pieces b by t) (nat s) \<and> rule_attacks b by t s sq) \<longleftrightarrow>
      (\<exists>t \<in> set piece_types. ?ex t (\<lambda>s. rule_attacks b by t s sq))"
    (is "?l = ?r")
  proof
    assume ?l
    then obtain s t where "SQ_VALID s" "bit (pieces b by t) (nat s)" "rule_attacks b by t s sq" by blast
    moreover from this(3) have "t \<in> set piece_types" by (cases t) (auto simp: rule_attacks_def)
    ultimately show ?r by blast
  qed blast
  have q: "?ex QUEEN (\<lambda>s. ?half s \<and> (?diag s \<or> ?orth s)) \<longleftrightarrow>
      ?ex QUEEN (\<lambda>s. ?half s \<and> ?diag s) \<or> ?ex QUEEN (\<lambda>s. ?half s \<and> ?orth s)"
    by blast
  show ?thesis
  proof (cases "kb_phase1 b")
    case True
    then have "game_mod b \<noteq> MOD_MERCENARY" by (auto simp: kb_phase1_def)
    with True show ?thesis
      unfolding board_square_attacked_def Let_def n k p split piece_types_def by (auto simp: rule_attacks_def)
  next
    case False
    show ?thesis
      unfolding board_square_attacked_def Let_def n k p d o split piece_types_def
      by (cases "game_mod b = MOD_MERCENARY")
        (use False in \<open>simp add: rule_attacks_def; simp only: q; blast\<close>)+
  qed
qed

lemma board_square_attacked_rules:
  assumes "wf_place b" "SQ_VALID sq" "by \<in> {WHITE, BLACK}"
  shows "board_square_attacked b sq by \<longleftrightarrow>
    (\<exists>s t. SQ_VALID s \<and> piece_at b s = PIECE_MAKE by t \<and> rule_attacks b by t s sq)"
  using assms by (auto simp: board_square_attacked_bits wf_place_bits_sq)


section \<open>Properties\<close>

text \<open>
  (C4) On a consistent board, \<open>board_square_attacked\<close> answers yes exactly when some piece of
  colour \<open>by\<close> attacks the square by the rules of the mod: knights and kings by their steps,
  pawns diagonally (like kings in Mercenary), sliders along clear rays, queens of Save the
  Queen only from their own half, and only kings and pawns in phase 1 of King's Battle.
\<close>

theorem attack_query_rules:
  assumes "wf_place b" "SQ_VALID sq" "by \<in> {WHITE, BLACK}"
  shows "board_square_attacked b sq by \<longleftrightarrow>
    (\<exists>s t. SQ_VALID s \<and> piece_at b s = PIECE_MAKE by t \<and> rule_attacks b by t s sq)"
  using assms by (rule board_square_attacked_rules)

theorem attack_query_rules_witness:
  "let b = board_place (board_place board_clear 0 WHITE ROOK) 9 BLACK KNIGHT
   in wf_place b \<and> (\<exists>s t. SQ_VALID s \<and> piece_at b s = PIECE_MAKE WHITE t \<and> rule_attacks b WHITE t s 7)"
proof -
  let ?b = "board_place (board_place board_clear 0 WHITE ROOK) 9 BLACK KNIGHT"
  have wf: "wf_place ?b"
    by (intro wf_place_place wf_place_clear) (simp_all add: SQ_VALID_def board_place_def board_clear_def)
  have "rook_attacks_calc 7 (all_bb ?b) AND (pieces ?b WHITE ROOK OR effective_queens ?b WHITE) \<noteq> 0"
    by code_simp
  then have "board_square_attacked ?b 7 WHITE"
    unfolding board_square_attacked_def Let_def by (simp add: kb_phase1_def board_clear_def)
  then show ?thesis
    using wf attack_query_rules [OF wf, of 7 WHITE] by (simp add: SQ_VALID_def)
qed

end
