(* ===== verification/MakeMove.thy ===== *)
theory MakeMove
  imports Zobrist Attacks
begin

text \<open>
  \<open>board_make_move\<close> and \<open>board_unmake_move\<close> of \<open>board/board_make.c\<close>.  Each block of the C
  function is one definition, and the whole function is their composition in source order.
  The undo record is written in place at index \<open>ply b\<close> of \<open>history\<close>, as in the code.

  The placement part is related to a specification on square contents (\<open>moved_to\<close>), and
  taking a move back is shown to restore every component of the board.
\<close>

section \<open>Make\<close>

abbreviation undo_top :: "Board \<Rightarrow> Undo" where
  "undo_top b \<equiv> history b (ply b)"

definition upd_undo :: "(Undo \<Rightarrow> Undo) \<Rightarrow> Board \<Rightarrow> Board" where
  "upd_undo f b = b \<lparr> history := (history b)(ply b := f (history b (ply b))) \<rparr>"

definition save_undo :: "Board \<Rightarrow> Move \<Rightarrow> Board" where
  "save_undo b m =
     upd_undo (\<lambda>u. u \<lparr> u_move := m, u_castling := castling b, u_ep_square := ep_square b,
        u_halfmove := halfmove b, u_hash := hash b, u_captured := PIECE_EMPTY,
        u_captured_sq := SQ_NONE, u_heir_promoted := heir_promoted b,
        u_truce_active := truce_active b, u_truce_frozen := truce_frozen b,
        u_ff_moved := ff_moved b, u_kb_unlocked := kb_unlocked b,
        u_kb_idle_kings := kb_idle_kings b, u_kb_bonus := False, u_stq_reprisoned := False,
        u_stq_reprison_sq := SQ_NONE \<rparr>) b"

definition ep_cap_sq :: "Move \<Rightarrow> Square" where
  "ep_cap_sq m = SQ (SQ_ROW (MOVE_FROM m)) (SQ_COL (MOVE_TO m))"

definition make_capture :: "Board \<Rightarrow> Move \<Rightarrow> Board" where
  "make_capture b m =
     (let to = MOVE_TO m; them = color_opposite (side b) in
      if MOVE_IS_EP m then
        let cap_sq = ep_cap_sq m;
            b = upd_undo (\<lambda>u. u \<lparr> u_captured := piece_at b cap_sq, u_captured_sq := cap_sq \<rparr>) b
        in board_remove b cap_sq
      else if MOVE_IS_CAPTURE m then
        let captured_piece = piece_at b to;
            b = upd_undo (\<lambda>u. u \<lparr> u_captured := captured_piece, u_captured_sq := to \<rparr>) b;
            b = (if game_mod b = MOD_SAVE_QUEEN \<and> captured_piece \<noteq> PIECE_EMPTY \<and>
                    PIECE_TYPE captured_piece = QUEEN \<and> \<not> stq_is_own_half to them
                 then let prison_sq = (if them = WHITE then STQ_WHITE_PRISON else STQ_BLACK_PRISON) in
                   if piece_at b prison_sq = PIECE_EMPTY
                   then upd_undo (\<lambda>u. u \<lparr> u_stq_reprisoned := True, u_stq_reprison_sq := prison_sq \<rparr>) b
                   else b
                 else b);
            b = board_remove b to
        in if u_stq_reprisoned (undo_top b)
           then board_place b (u_stq_reprison_sq (undo_top b)) them QUEEN else b
      else b)"

definition make_piece :: "Board \<Rightarrow> Move \<Rightarrow> Board" where
  "make_piece b m =
     (let us = side b; b = board_remove b (MOVE_FROM m) in
      if MOVE_IS_PROMO m then
        let promo_pt = MOVE_PROMO_TYPE m;
            b = board_place b (MOVE_TO m) us promo_pt;
            b = (if game_mod b = MOD_HEIR \<and> promo_pt = KING
                 then b \<lparr> heir_promoted := (heir_promoted b)(us := True) \<rparr> else b)
        in if game_mod b = MOD_SUCCESSION \<and> promo_pt = KING
           then b \<lparr> heir_promoted := (heir_promoted b)(us := True) \<rparr> else b
      else board_place b (MOVE_TO m) us (MOVE_PIECE m))"

text \<open>The rook's source, its destination and its colour, by the king's destination.\<close>

definition castle_rook :: "Square \<Rightarrow> (Square \<times> Square \<times> Color) option" where
  "castle_rook to =
     (if to = SQ 0 6 then Some (SQ 0 7, SQ 0 5, WHITE)
      else if to = SQ 0 2 then Some (SQ 0 0, SQ 0 3, WHITE)
      else if to = SQ 7 6 then Some (SQ 7 7, SQ 7 5, BLACK)
      else if to = SQ 7 2 then Some (SQ 7 0, SQ 7 3, BLACK)
      else None)"

definition make_castle_rook :: "Board \<Rightarrow> Move \<Rightarrow> Board" where
  "make_castle_rook b m =
     (if MOVE_IS_CASTLE m then
        case castle_rook (MOVE_TO m) of
          None \<Rightarrow> b
        | Some (rf, rt, c) \<Rightarrow> board_place (board_remove b rf) rt c ROOK
      else b)"

definition track_castle :: "Bitboard \<Rightarrow> Move \<Rightarrow> Bitboard" where
  "track_castle bb m =
     (if MOVE_IS_CASTLE m then
        case castle_rook (MOVE_TO m) of
          None \<Rightarrow> bb
        | Some (rf, rt, _) \<Rightarrow> (bb AND NOT (BB_SQ rf)) OR BB_SQ rt
      else bb)"

definition make_truce :: "Board \<Rightarrow> Move \<Rightarrow> Board" where
  "make_truce b m =
     (if game_mod b = MOD_TRUCE \<and> truce_active b then
        let to = MOVE_TO m;
            f = (truce_frozen b AND NOT (BB_SQ (MOVE_FROM m))) OR BB_SQ to;
            f = (if MOVE_IS_EP m then f AND NOT (BB_SQ (ep_cap_sq m))
                 else if MOVE_IS_CAPTURE m then (f AND NOT (BB_SQ to)) OR BB_SQ to
                 else f)
        in b \<lparr> truce_frozen := track_castle f m \<rparr>
      else b)"

definition make_ff :: "Board \<Rightarrow> Move \<Rightarrow> Board" where
  "make_ff b m =
     (if game_mod b = MOD_FRIENDLY_FIRE then
        let f = (ff_moved b AND NOT (BB_SQ (MOVE_FROM m))) OR BB_SQ (MOVE_TO m);
            f = (if MOVE_IS_EP m then f AND NOT (BB_SQ (ep_cap_sq m)) else f)
        in b \<lparr> ff_moved := track_castle f m \<rparr>
      else b)"

definition rights_after :: "u8 \<Rightarrow> Color \<Rightarrow> PieceType \<Rightarrow> Square \<Rightarrow> Square \<Rightarrow> u8" where
  "rights_after r us pt from to =
     (let r = (if pt = KING then
                 (if us = WHITE then r AND NOT (CASTLE_WK OR CASTLE_WQ)
                  else r AND NOT (CASTLE_BK OR CASTLE_BQ))
               else r);
          drop = (\<lambda>sq r. let
            r = (if sq = SQ 0 0 then r AND NOT CASTLE_WQ else r);
            r = (if sq = SQ 0 7 then r AND NOT CASTLE_WK else r);
            r = (if sq = SQ 7 0 then r AND NOT CASTLE_BQ else r)
            in if sq = SQ 7 7 then r AND NOT CASTLE_BK else r);
          r = (if pt = ROOK then drop from r else r)
      in drop to r)"

definition make_castling :: "Board \<Rightarrow> Move \<Rightarrow> Board" where
  "make_castling b m =
     b \<lparr> castling := rights_after (castling b) (side b) (MOVE_PIECE m) (MOVE_FROM m) (MOVE_TO m) \<rparr>"

definition make_ep :: "Board \<Rightarrow> Move \<Rightarrow> Board" where
  "make_ep b m =
     (let from = MOVE_FROM m; to = MOVE_TO m; b = b \<lparr> ep_square := SQ_NONE \<rparr> in
      if game_mod b \<noteq> MOD_MERCENARY \<and> MOVE_PIECE m = PAWN \<and> (to - from = 16 \<or> to - from = -16)
      then b \<lparr> ep_square := SQ (cdiv (SQ_ROW from + SQ_ROW to) 2) (SQ_COL from) \<rparr>
      else b)"

definition make_clocks :: "Board \<Rightarrow> Move \<Rightarrow> Board" where
  "make_clocks b m =
     (let b = (if MOVE_PIECE m = PAWN \<or> MOVE_IS_CAPTURE m then b \<lparr> halfmove := 0 \<rparr>
               else b \<lparr> halfmove := halfmove b + 1 \<rparr>)
      in if side b = BLACK then b \<lparr> fullmove := fullmove b + 1 \<rparr> else b)"

definition make_kb :: "Board \<Rightarrow> Move \<Rightarrow> Board" where
  "make_kb b m =
     (let pt = MOVE_PIECE m in
      if game_mod b = MOD_KINGS_BATTLE \<and> \<not> kb_unlocked b then
        if pt = KING \<and> MOVE_IS_CAPTURE m \<and> PIECE_TYPE (u_captured (undo_top b)) = PAWN
        then upd_undo (\<lambda>u. u \<lparr> u_kb_bonus := True \<rparr>) (b \<lparr> kb_unlocked := True, kb_idle_kings := 0 \<rparr>)
        else if pt = PAWN \<and> MOVE_IS_PROMO m
        then b \<lparr> kb_unlocked := True, kb_idle_kings := 0 \<rparr>
        else if pt = KING \<and> \<not> MOVE_IS_CAPTURE m
        then let b = (if kb_idle_kings b < 255 then b \<lparr> kb_idle_kings := kb_idle_kings b + 1 \<rparr> else b)
             in if kb_idle_kings b \<ge> 6 then b \<lparr> kb_unlocked := True \<rparr> else b
        else b \<lparr> kb_idle_kings := 0 \<rparr>
      else b)"

definition make_switch :: "ZobState \<Rightarrow> Board \<Rightarrow> Board" where
  "make_switch Z b =
     (let us = side b;
          b = b \<lparr> side := (if u_kb_bonus (undo_top b) then us else color_opposite us), ply := ply b + 1 \<rparr>
      in b \<lparr> hash := zobrist_compute Z b \<rparr>)"

definition board_make_move :: "ZobState \<Rightarrow> Board \<Rightarrow> Move \<Rightarrow> Board" where
  "board_make_move Z b m =
     (let b = save_undo b m;
          b = make_capture b m;
          b = make_piece b m;
          b = make_castle_rook b m;
          b = make_truce b m;
          b = make_ff b m;
          b = make_castling b m;
          b = make_ep b m;
          b = make_clocks b m;
          b = make_kb b m
      in make_switch Z b)"


section \<open>Unmake\<close>

definition unmake_castle_rook :: "Board \<Rightarrow> Move \<Rightarrow> Board" where
  "unmake_castle_rook b m =
     (if MOVE_IS_CASTLE m then
        case castle_rook (MOVE_TO m) of
          None \<Rightarrow> b
        | Some (rf, rt, c) \<Rightarrow> board_place (board_remove b rt) rf c ROOK
      else b)"

definition unmake_state :: "Board \<Rightarrow> Undo \<Rightarrow> Board" where
  "unmake_state b u =
     b \<lparr> castling := u_castling u, ep_square := u_ep_square u, halfmove := u_halfmove u,
         hash := u_hash u, heir_promoted := u_heir_promoted u, truce_active := u_truce_active u,
         truce_frozen := u_truce_frozen u, ff_moved := u_ff_moved u, kb_unlocked := u_kb_unlocked u,
         kb_idle_kings := u_kb_idle_kings u \<rparr>"

definition board_unmake_move :: "Board \<Rightarrow> Board" where
  "board_unmake_move b =
     (let b = b \<lparr> ply := ply b - 1 \<rparr>;
          u = undo_top b;
          m = u_move u;
          us = (if u_kb_bonus u then side b else color_opposite (side b));
          b = b \<lparr> side := us \<rparr>;
          b = board_remove b (MOVE_TO m);
          b = board_place b (MOVE_FROM m) us (MOVE_PIECE m);
          b = (if u_stq_reprisoned u \<and> u_stq_reprison_sq u \<noteq> SQ_NONE
               then board_remove b (u_stq_reprison_sq u) else b);
          b = (if u_captured u \<noteq> PIECE_EMPTY
               then board_place b (u_captured_sq u) (PIECE_COLOR (u_captured u)) (PIECE_TYPE (u_captured u))
               else b);
          b = unmake_castle_rook b m;
          b = unmake_state b u
      in if us = BLACK then b \<lparr> fullmove := fullmove b - 1 \<rparr> else b)"


section \<open>What a move does to the squares\<close>

text \<open>
  The prison square the captured queen goes back to (Save the Queen), if it does.
\<close>

definition reprison :: "Board \<Rightarrow> Move \<Rightarrow> Square option" where
  "reprison b m =
     (let to = MOVE_TO m; them = color_opposite (side b);
          prison_sq = (if them = WHITE then STQ_WHITE_PRISON else STQ_BLACK_PRISON) in
      if \<not> MOVE_IS_EP m \<and> MOVE_IS_CAPTURE m \<and> game_mod b = MOD_SAVE_QUEEN \<and>
         piece_at b to \<noteq> PIECE_EMPTY \<and> PIECE_TYPE (piece_at b to) = QUEEN \<and>
         \<not> stq_is_own_half to them \<and> piece_at b prison_sq = PIECE_EMPTY
      then Some prison_sq else None)"

text \<open>The piece that stands on the destination afterwards.\<close>

definition arriving :: "Board \<Rightarrow> Move \<Rightarrow> Piece" where
  "arriving b m = PIECE_MAKE (side b) (if MOVE_IS_PROMO m then MOVE_PROMO_TYPE m else MOVE_PIECE m)"

text \<open>Specification of the placement after the move, square by square.\<close>

definition moved_to :: "Board \<Rightarrow> Move \<Rightarrow> Square \<Rightarrow> Piece" where
  "moved_to b m s =
     (if s = MOVE_TO m then arriving b m
      else if s = MOVE_FROM m then PIECE_EMPTY
      else if MOVE_IS_EP m \<and> s = ep_cap_sq m then PIECE_EMPTY
      else if reprison b m = Some s then PIECE_MAKE (color_opposite (side b)) QUEEN
      else case (if MOVE_IS_CASTLE m then castle_rook (MOVE_TO m) else None) of
        None \<Rightarrow> piece_at b s
      | Some (rf, rt, c) \<Rightarrow>
          if s = rf then PIECE_EMPTY else if s = rt then PIECE_MAKE c ROOK else piece_at b s)"

text \<open>
  The moves the make/unmake pair is meant for: the mover stands on the source square, a
  quiet move goes to an empty square, an en-passant victim is beside the mover, and a
  castling rook is in its corner with its way free.
\<close>

definition castle_ok :: "Board \<Rightarrow> Move \<Rightarrow> bool" where
  "castle_ok b m =
     (case castle_rook (MOVE_TO m) of
        None \<Rightarrow> True
      | Some (rf, rt, c) \<Rightarrow> rf \<noteq> MOVE_FROM m \<and> rt \<noteq> MOVE_FROM m \<and>
          piece_at b rf = PIECE_MAKE c ROOK \<and> piece_at b rt = PIECE_EMPTY)"

definition move_ok :: "Board \<Rightarrow> Move \<Rightarrow> bool" where
  "move_ok b m =
     (let from = MOVE_FROM m; to = MOVE_TO m; us = side b in
      us \<in> {WHITE, BLACK} \<and> from \<noteq> to \<and> MOVE_PIECE m \<in> set piece_types \<and>
      piece_at b from = PIECE_MAKE us (MOVE_PIECE m) \<and>
      (MOVE_IS_PROMO m \<longrightarrow> MOVE_PROMO_TYPE m \<in> set piece_types) \<and>
      (if MOVE_IS_EP m then
         \<not> MOVE_IS_CASTLE m \<and> piece_at b to = PIECE_EMPTY \<and> ep_cap_sq m \<noteq> from \<and> ep_cap_sq m \<noteq> to
       else if MOVE_IS_CAPTURE m then \<not> MOVE_IS_CASTLE m
       else piece_at b to = PIECE_EMPTY \<and> (MOVE_IS_CASTLE m \<longrightarrow> castle_ok b m)))"

lemma move_okD:
  assumes "move_ok b m"
  shows "side b \<in> {WHITE, BLACK}" "MOVE_FROM m \<noteq> MOVE_TO m"
    "(if MOVE_IS_PROMO m then MOVE_PROMO_TYPE m else MOVE_PIECE m) \<in> set piece_types"
    "MOVE_PIECE m \<in> set piece_types" "piece_at b (MOVE_FROM m) = PIECE_MAKE (side b) (MOVE_PIECE m)"
    "MOVE_IS_EP m \<or> \<not> MOVE_IS_CAPTURE m \<Longrightarrow> piece_at b (MOVE_TO m) = PIECE_EMPTY"
    "MOVE_IS_EP m \<Longrightarrow> ep_cap_sq m \<noteq> MOVE_FROM m \<and> ep_cap_sq m \<noteq> MOVE_TO m"
    "MOVE_IS_CASTLE m \<Longrightarrow> \<not> MOVE_IS_EP m \<and> \<not> MOVE_IS_CAPTURE m"
    "MOVE_IS_CASTLE m \<Longrightarrow> castle_rook (MOVE_TO m) = Some (rf, rt, c) \<Longrightarrow>
       rf \<noteq> MOVE_FROM m \<and> rt \<noteq> MOVE_FROM m \<and> piece_at b rf = PIECE_MAKE c ROOK \<and> piece_at b rt = PIECE_EMPTY"
  using assms unfolding move_ok_def Let_def
  by (simp_all add: castle_ok_def del: set_piece_types insert_iff split: if_splits)

lemma upd_undo_frame [board_simps, simp]:
  "pieces (upd_undo f b) = pieces b" "occupied (upd_undo f b) = occupied b"
  "all_bb (upd_undo f b) = all_bb b" "mailbox (upd_undo f b) = mailbox b"
  "side (upd_undo f b) = side b" "castling (upd_undo f b) = castling b"
  "ep_square (upd_undo f b) = ep_square b" "halfmove (upd_undo f b) = halfmove b"
  "fullmove (upd_undo f b) = fullmove b" "game_mod (upd_undo f b) = game_mod b"
  "heir_promoted (upd_undo f b) = heir_promoted b" "truce_active (upd_undo f b) = truce_active b"
  "truce_frozen (upd_undo f b) = truce_frozen b" "ff_moved (upd_undo f b) = ff_moved b"
  "kb_unlocked (upd_undo f b) = kb_unlocked b" "kb_idle_kings (upd_undo f b) = kb_idle_kings b"
  "hash (upd_undo f b) = hash b" "ply (upd_undo f b) = ply b"
  "history (upd_undo f b) = (history b)(ply b := f (history b (ply b)))"
  by (simp_all add: upd_undo_def)

lemma wf_place_upd_undo [simp]: "wf_place (upd_undo f b) = wf_place b"
  by (simp add: wf_place_def)

lemma ep_cap_sq_valid [simp]: "SQ_VALID (ep_cap_sq m)"
  using SQ_ROW_bounds [of "MOVE_FROM m"] SQ_COL_bounds [of "MOVE_TO m"]
  by (simp add: ep_cap_sq_def on_board_SQ(2) on_board_def)

lemma prison_valid [simp]: "SQ_VALID STQ_WHITE_PRISON" "SQ_VALID STQ_BLACK_PRISON"
  by (simp_all add: STQ_WHITE_PRISON_def STQ_BLACK_PRISON_def SQ_VALID_def SQ_board)

lemma reprison_eq_Some:
  "reprison b m = Some s \<longleftrightarrow>
     \<not> MOVE_IS_EP m \<and> MOVE_IS_CAPTURE m \<and> game_mod b = MOD_SAVE_QUEEN \<and>
     piece_at b (MOVE_TO m) \<noteq> PIECE_EMPTY \<and> PIECE_TYPE (piece_at b (MOVE_TO m)) = QUEEN \<and>
     \<not> stq_is_own_half (MOVE_TO m) (color_opposite (side b)) \<and> piece_at b s = PIECE_EMPTY \<and>
     s = (if color_opposite (side b) = WHITE then STQ_WHITE_PRISON else STQ_BLACK_PRISON)"
  unfolding reprison_def Let_def by (cases "color_opposite (side b) = WHITE") auto

lemma reprison_props:
  assumes "reprison b m = Some s"
  shows "SQ_VALID s" "piece_at b s = PIECE_EMPTY" "s \<noteq> MOVE_TO m" "\<not> MOVE_IS_EP m"
    "MOVE_IS_CAPTURE m" "s \<noteq> SQ_NONE"
proof -
  note * = assms [unfolded reprison_eq_Some]
  show v: "SQ_VALID s" using * by (simp split: if_splits)
  show "piece_at b s = PIECE_EMPTY" "\<not> MOVE_IS_EP m" "MOVE_IS_CAPTURE m" using * by blast+
  show "s \<noteq> MOVE_TO m" using * by metis
  show "s \<noteq> SQ_NONE" using v by auto
qed

lemma reprison_None [simp]:
  "MOVE_IS_EP m \<Longrightarrow> reprison b m = None" "\<not> MOVE_IS_CAPTURE m \<Longrightarrow> reprison b m = None"
  by (simp_all add: reprison_def)

lemma castle_rook_cases:
  assumes "castle_rook to = Some (rf, rt, c)"
  shows "SQ_VALID rf" "SQ_VALID rt" "rf \<noteq> rt" "rf \<noteq> to" "rt \<noteq> to" "c \<in> {WHITE, BLACK}"
  using assms by (auto simp: castle_rook_def SQ_board SQ_VALID_def split: if_splits)

lemma nth_sq_update:
  assumes "length xs = 64" "SQ_VALID s" "SQ_VALID q"
  shows "xs[nat q := p] ! nat s = (if s = q then p else xs ! nat s)"
  using assms by (auto simp: nth_list_update nat_sq_eq_iff SQ_VALID_def nat_less_iff)

lemma make_capture_reprison:
  "make_capture b m =
     (if MOVE_IS_EP m then
        board_remove (upd_undo (\<lambda>u. u \<lparr> u_captured := piece_at b (ep_cap_sq m), u_captured_sq := ep_cap_sq m \<rparr>) b) (ep_cap_sq m)
      else if MOVE_IS_CAPTURE m then
        (let b' = upd_undo (\<lambda>u. u \<lparr> u_captured := piece_at b (MOVE_TO m), u_captured_sq := MOVE_TO m \<rparr>) b in
         case reprison b m of
           None \<Rightarrow> (if u_stq_reprisoned (undo_top b)
              then board_place (board_remove b' (MOVE_TO m)) (u_stq_reprison_sq (undo_top b)) (color_opposite (side b)) QUEEN
              else board_remove b' (MOVE_TO m))
         | Some s \<Rightarrow> board_place (board_remove
              (upd_undo (\<lambda>u. u \<lparr> u_stq_reprisoned := True, u_stq_reprison_sq := s \<rparr>) b') (MOVE_TO m))
              s (color_opposite (side b)) QUEEN)
      else b)"
  unfolding make_capture_def reprison_def Let_def
  by (cases "MOVE_IS_EP m"; cases "MOVE_IS_CAPTURE m"; cases "color_opposite (side b) = WHITE") simp_all

lemma make_capture_at:
  assumes wf: "wf_place b" and ok: "\<not> u_stq_reprisoned (undo_top b)" "side b \<in> {WHITE, BLACK}"
  shows "wf_place (make_capture b m)"
    and "SQ_VALID s \<Longrightarrow> piece_at (make_capture b m) s =
      (if MOVE_IS_EP m then if s = ep_cap_sq m then PIECE_EMPTY else piece_at b s
       else if MOVE_IS_CAPTURE m \<and> s = MOVE_TO m then PIECE_EMPTY
       else if reprison b m = Some s then PIECE_MAKE (color_opposite (side b)) QUEEN
       else piece_at b s)"
proof -
  show "wf_place (make_capture b m)"
    using wf ok reprison_props(1-3) [of b m]
    by (auto simp: make_capture_reprison Let_def nth_sq_update split: option.split
        intro!: wf_place_place wf_place_remove)
  show "piece_at (make_capture b m) s =
      (if MOVE_IS_EP m then if s = ep_cap_sq m then PIECE_EMPTY else piece_at b s
       else if MOVE_IS_CAPTURE m \<and> s = MOVE_TO m then PIECE_EMPTY
       else if reprison b m = Some s then PIECE_MAKE (color_opposite (side b)) QUEEN
       else piece_at b s)" if "SQ_VALID s"
    using wf ok that reprison_props(1-3) [of b m]
    by (auto simp: make_capture_reprison Let_def nth_sq_update split: option.split)
qed


lemma make_piece_at:
  assumes wf: "wf_place b" and sq: "MOVE_FROM m \<noteq> MOVE_TO m" "piece_at b (MOVE_TO m) = PIECE_EMPTY"
    and c: "side b \<in> {WHITE, BLACK}"
    and t: "(if MOVE_IS_PROMO m then MOVE_PROMO_TYPE m else MOVE_PIECE m) \<in> set piece_types"
  shows "wf_place (make_piece b m)"
    and "SQ_VALID s \<Longrightarrow> piece_at (make_piece b m) s =
      (if s = MOVE_TO m then arriving b m else if s = MOVE_FROM m then PIECE_EMPTY else piece_at b s)"
proof -
  let ?t = "if MOVE_IS_PROMO m then MOVE_PROMO_TYPE m else MOVE_PIECE m"
  let ?b = "board_place (board_remove b (MOVE_FROM m)) (MOVE_TO m) (side b) ?t"
  have wf': "wf_place ?b"
    using bs.relocate_invar [OF wf _ _ sq c t] by simp
  have eq: "mailbox (make_piece b m) = mailbox ?b" "pieces (make_piece b m) = pieces ?b"
    "occupied (make_piece b m) = occupied ?b" "all_bb (make_piece b m) = all_bb ?b"
    by (simp_all add: make_piece_def Let_def)
  show "wf_place (make_piece b m)" using wf' eq by (rule wf_place_cong)
  show "piece_at (make_piece b m) s =
      (if s = MOVE_TO m then arriving b m else if s = MOVE_FROM m then PIECE_EMPTY else piece_at b s)"
    if "SQ_VALID s"
    unfolding eq using bs.relocate_at [OF wf, of "MOVE_FROM m" "MOVE_TO m" s] that
    by (simp add: arriving_def)
qed

text \<open>Moving a castling rook, there or back.\<close>

definition rook_shift :: "Board \<Rightarrow> (Square \<times> Square \<times> Color) option \<Rightarrow> Board" where
  "rook_shift b r =
     (case r of None \<Rightarrow> b | Some (x, y, c) \<Rightarrow> board_place (board_remove b x) y c ROOK)"

lemma rook_shift_at:
  assumes wf: "wf_place b"
    and ok: "\<And>x y c. r = Some (x, y, c) \<Longrightarrow>
      SQ_VALID x \<and> SQ_VALID y \<and> x \<noteq> y \<and> c \<in> {WHITE, BLACK} \<and> piece_at b y = PIECE_EMPTY"
  shows "wf_place (rook_shift b r)"
    and "SQ_VALID s \<Longrightarrow> piece_at (rook_shift b r) s =
      (case r of None \<Rightarrow> piece_at b s
       | Some (x, y, c) \<Rightarrow> if s = x then PIECE_EMPTY else if s = y then PIECE_MAKE c ROOK else piece_at b s)"
proof -
  have "wf_place (rook_shift b r) \<and> (SQ_VALID s \<longrightarrow> piece_at (rook_shift b r) s =
      (case r of None \<Rightarrow> piece_at b s
       | Some (x, y, c) \<Rightarrow> if s = x then PIECE_EMPTY else if s = y then PIECE_MAKE c ROOK else piece_at b s))"
  proof (cases r)
    case (Some r')
    obtain x y c where "r' = (x, y, c)" by (cases r')
    with Some ok [of x y c] show ?thesis
      using wf bs.relocate_invar [of b x y c ROOK] bs.relocate_at [of b x y s c ROOK]
      by (auto simp: rook_shift_def)
  qed (simp add: rook_shift_def wf)
  then show "wf_place (rook_shift b r)"
    and "SQ_VALID s \<Longrightarrow> piece_at (rook_shift b r) s =
      (case r of None \<Rightarrow> piece_at b s
       | Some (x, y, c) \<Rightarrow> if s = x then PIECE_EMPTY else if s = y then PIECE_MAKE c ROOK else piece_at b s)"
    by blast+
qed

lemma make_castle_rook_shift:
  "make_castle_rook b m = rook_shift b (if MOVE_IS_CASTLE m then castle_rook (MOVE_TO m) else None)"
  by (simp add: make_castle_rook_def rook_shift_def split: option.split)

lemma make_castle_rook_at:
  assumes wf: "wf_place b"
    and ok: "\<And>rf rt c. MOVE_IS_CASTLE m \<Longrightarrow> castle_rook (MOVE_TO m) = Some (rf, rt, c) \<Longrightarrow> piece_at b rt = PIECE_EMPTY"
  shows "wf_place (make_castle_rook b m)"
    and "SQ_VALID s \<Longrightarrow> piece_at (make_castle_rook b m) s =
      (case (if MOVE_IS_CASTLE m then castle_rook (MOVE_TO m) else None) of
         None \<Rightarrow> piece_at b s
       | Some (rf, rt, c) \<Rightarrow>
           if s = rf then PIECE_EMPTY else if s = rt then PIECE_MAKE c ROOK else piece_at b s)"
  unfolding make_castle_rook_shift
  by (rule rook_shift_at [OF wf]; use ok castle_rook_cases in \<open>simp split: if_splits\<close>)+

text \<open>The placement phase, and the bookkeeping phase, which leaves the placement alone.\<close>

definition make_place :: "Board \<Rightarrow> Move \<Rightarrow> Board" where
  "make_place b m = make_castle_rook (make_piece (make_capture (save_undo b m) m) m) m"

definition make_book :: "Board \<Rightarrow> Move \<Rightarrow> Board" where
  "make_book b m = make_kb (make_clocks (make_ep (make_castling (make_ff (make_truce b m) m) m) m) m) m"

lemma board_make_move_phases: "board_make_move Z b m = make_switch Z (make_book (make_place b m) m)"
  by (simp add: board_make_move_def make_place_def make_book_def Let_def)

lemmas book_defs = make_kb_def make_clocks_def make_ep_def make_castling_def make_ff_def make_truce_def

lemma make_kb_place:
  "mailbox (make_kb b m) = mailbox b" "pieces (make_kb b m) = pieces b"
  "occupied (make_kb b m) = occupied b" "all_bb (make_kb b m) = all_bb b"
  "side (make_kb b m) = side b" "game_mod (make_kb b m) = game_mod b" "ply (make_kb b m) = ply b"
  "fullmove (make_kb b m) = fullmove b"
  by (simp_all add: make_kb_def Let_def)

lemma make_clocks_place:
  "mailbox (make_clocks b m) = mailbox b" "pieces (make_clocks b m) = pieces b"
  "occupied (make_clocks b m) = occupied b" "all_bb (make_clocks b m) = all_bb b"
  "side (make_clocks b m) = side b" "game_mod (make_clocks b m) = game_mod b"
  "ply (make_clocks b m) = ply b" "history (make_clocks b m) = history b"
  "fullmove (make_clocks b m) = fullmove b + (if side b = BLACK then 1 else 0)"
  "kb_unlocked (make_clocks b m) = kb_unlocked b"
  by (simp_all add: make_clocks_def Let_def)

lemma make_flags_place:
  assumes "f \<in> {make_ep, make_castling, make_ff, make_truce}"
  shows "mailbox (f b m) = mailbox b" "pieces (f b m) = pieces b"
    "occupied (f b m) = occupied b" "all_bb (f b m) = all_bb b"
    "side (f b m) = side b" "game_mod (f b m) = game_mod b" "ply (f b m) = ply b"
    "history (f b m) = history b" "fullmove (f b m) = fullmove b" "kb_unlocked (f b m) = kb_unlocked b"
  using assms by (auto simp: make_ep_def make_castling_def make_ff_def make_truce_def Let_def split: if_splits)

lemmas make_stage_place = make_kb_place make_clocks_place make_flags_place

lemma make_book_place:
  "mailbox (make_book b m) = mailbox b" "pieces (make_book b m) = pieces b"
  "occupied (make_book b m) = occupied b" "all_bb (make_book b m) = all_bb b"
  "side (make_book b m) = side b" "game_mod (make_book b m) = game_mod b" "ply (make_book b m) = ply b"
  "fullmove (make_book b m) = fullmove b + (if side b = BLACK then 1 else 0)"
  by (simp_all add: make_book_def make_stage_place)

definition kb_bonus :: "Board \<Rightarrow> Move \<Rightarrow> bool" where
  "kb_bonus b m \<longleftrightarrow>
     game_mod b = MOD_KINGS_BATTLE \<and> \<not> kb_unlocked b \<and> MOVE_PIECE m = KING \<and> MOVE_IS_CAPTURE m \<and>
     PIECE_TYPE (u_captured (undo_top b)) = PAWN"

lemma make_book_history:
  "history (make_book b m) =
     (if kb_bonus b m then (history b)(ply b := (undo_top b) \<lparr> u_kb_bonus := True \<rparr>) else history b)"
  unfolding make_book_def make_kb_def [of "make_clocks _ _"] Let_def
  by (simp add: make_stage_place kb_bonus_def)

lemma save_undo_frame [simp]:
  "mailbox (save_undo b m) = mailbox b" "pieces (save_undo b m) = pieces b"
  "occupied (save_undo b m) = occupied b" "all_bb (save_undo b m) = all_bb b"
  "side (save_undo b m) = side b" "game_mod (save_undo b m) = game_mod b"
  "ply (save_undo b m) = ply b" "fullmove (save_undo b m) = fullmove b"
  "wf_place (save_undo b m) = wf_place b" "reprison (save_undo b m) m = reprison b m"
  "kb_unlocked (save_undo b m) = kb_unlocked b"
  by (simp_all add: save_undo_def reprison_def)


section \<open>The undo record a move writes\<close>

definition captured_of :: "Board \<Rightarrow> Move \<Rightarrow> Piece" where
  "captured_of b m =
     (if MOVE_IS_EP m then piece_at b (ep_cap_sq m)
      else if MOVE_IS_CAPTURE m then piece_at b (MOVE_TO m) else PIECE_EMPTY)"

definition bonus_of :: "Board \<Rightarrow> Move \<Rightarrow> bool" where
  "bonus_of b m \<longleftrightarrow>
     game_mod b = MOD_KINGS_BATTLE \<and> \<not> kb_unlocked b \<and> MOVE_PIECE m = KING \<and> MOVE_IS_CAPTURE m \<and>
     PIECE_TYPE (captured_of b m) = PAWN"

definition undo_of :: "Board \<Rightarrow> Move \<Rightarrow> Undo" where
  "undo_of b m =
     \<lparr> u_move = m, u_captured = captured_of b m,
       u_captured_sq = (if MOVE_IS_EP m then ep_cap_sq m else if MOVE_IS_CAPTURE m then MOVE_TO m else SQ_NONE),
       u_castling = castling b, u_ep_square = ep_square b, u_halfmove = halfmove b, u_hash = hash b,
       u_heir_promoted = heir_promoted b, u_truce_active = truce_active b,
       u_truce_frozen = truce_frozen b, u_ff_moved = ff_moved b, u_kb_unlocked = kb_unlocked b,
       u_kb_idle_kings = kb_idle_kings b, u_kb_bonus = bonus_of b m,
       u_stq_reprisoned = (reprison b m \<noteq> None),
       u_stq_reprison_sq = (case reprison b m of None \<Rightarrow> SQ_NONE | Some s \<Rightarrow> s) \<rparr>"

lemma make_piece_frame:
  "side (make_piece b m) = side b" "game_mod (make_piece b m) = game_mod b"
  "ply (make_piece b m) = ply b" "fullmove (make_piece b m) = fullmove b"
  "history (make_piece b m) = history b" "kb_unlocked (make_piece b m) = kb_unlocked b"
  by (simp_all add: make_piece_def Let_def)

lemma make_castle_rook_frame:
  "side (make_castle_rook b m) = side b" "game_mod (make_castle_rook b m) = game_mod b"
  "ply (make_castle_rook b m) = ply b" "fullmove (make_castle_rook b m) = fullmove b"
  "history (make_castle_rook b m) = history b" "kb_unlocked (make_castle_rook b m) = kb_unlocked b"
  by (simp_all add: make_castle_rook_def split: option.split)

lemma make_capture_frame:
  "side (make_capture b m) = side b" "game_mod (make_capture b m) = game_mod b"
  "ply (make_capture b m) = ply b" "fullmove (make_capture b m) = fullmove b"
  "kb_unlocked (make_capture b m) = kb_unlocked b"
  by (simp_all add: make_capture_reprison Let_def split: option.split)

lemma undo_top_saved:
  "history (save_undo b m) (ply b) =
     \<lparr> u_move = m, u_captured = PIECE_EMPTY, u_captured_sq = SQ_NONE,
       u_castling = castling b, u_ep_square = ep_square b, u_halfmove = halfmove b, u_hash = hash b,
       u_heir_promoted = heir_promoted b, u_truce_active = truce_active b,
       u_truce_frozen = truce_frozen b, u_ff_moved = ff_moved b, u_kb_unlocked = kb_unlocked b,
       u_kb_idle_kings = kb_idle_kings b, u_kb_bonus = False, u_stq_reprisoned = False,
       u_stq_reprison_sq = SQ_NONE \<rparr>"
  by (rule Undo.equality) (simp_all add: save_undo_def)

lemma make_capture_history:
  "history (make_capture (save_undo b m) m) = (history b)(ply b := (undo_of b m) \<lparr> u_kb_bonus := False \<rparr>)"
proof -
  have h: "(history (save_undo b m))(ply b := u) = (history b)(ply b := u)" for u
    by (simp add: save_undo_def)
  have h0: "history (save_undo b m) = (history b)(ply b := history (save_undo b m) (ply b))"
    by (simp add: save_undo_def)
  note simps = make_capture_reprison Let_def h undo_top_saved undo_of_def captured_of_def
  consider "MOVE_IS_EP m" | "\<not> MOVE_IS_EP m" "\<not> MOVE_IS_CAPTURE m" | "\<not> MOVE_IS_EP m" "MOVE_IS_CAPTURE m"
    by blast
  then show ?thesis
  proof cases
    case 1
    then show ?thesis by (simp add: simps)
  next
    case 2
    then have "(history b)(ply b := history (save_undo b m) (ply b)) =
        (history b)(ply b := (undo_of b m) \<lparr> u_kb_bonus := False \<rparr>)"
      by (simp add: undo_top_saved undo_of_def captured_of_def)
    with 2 show ?thesis by (simp add: make_capture_reprison flip: h0)
  next
    case 3
    then show ?thesis by (cases "reprison b m") (simp_all add: simps)
  qed
qed

lemma make_place_frame:
  "side (make_place b m) = side b" "game_mod (make_place b m) = game_mod b"
  "ply (make_place b m) = ply b" "fullmove (make_place b m) = fullmove b"
  "kb_unlocked (make_place b m) = kb_unlocked b"
  "history (make_place b m) = (history b)(ply b := (undo_of b m) \<lparr> u_kb_bonus := False \<rparr>)"
  by (simp_all add: make_place_def make_castle_rook_frame make_piece_frame make_capture_frame
      make_capture_history)

lemma kb_bonus_place: "kb_bonus (make_place b m) m = bonus_of b m"
  by (simp add: kb_bonus_def bonus_of_def make_place_frame undo_of_def)

lemma undo_of_bonus:
  "bonus_of b m \<Longrightarrow> (undo_of b m) \<lparr> u_kb_bonus := True \<rparr> = undo_of b m"
  "\<not> bonus_of b m \<Longrightarrow> (undo_of b m) \<lparr> u_kb_bonus := False \<rparr> = undo_of b m"
  by (simp_all add: undo_of_def)

lemma undo_of_simps [simp]:
  "u_move (undo_of b m) = m" "u_captured (undo_of b m) = captured_of b m"
  "u_captured_sq (undo_of b m) =
     (if MOVE_IS_EP m then ep_cap_sq m else if MOVE_IS_CAPTURE m then MOVE_TO m else SQ_NONE)"
  "u_castling (undo_of b m) = castling b" "u_ep_square (undo_of b m) = ep_square b"
  "u_halfmove (undo_of b m) = halfmove b" "u_hash (undo_of b m) = hash b"
  "u_heir_promoted (undo_of b m) = heir_promoted b" "u_truce_active (undo_of b m) = truce_active b"
  "u_truce_frozen (undo_of b m) = truce_frozen b" "u_ff_moved (undo_of b m) = ff_moved b"
  "u_kb_unlocked (undo_of b m) = kb_unlocked b" "u_kb_idle_kings (undo_of b m) = kb_idle_kings b"
  "u_kb_bonus (undo_of b m) = bonus_of b m" "u_stq_reprisoned (undo_of b m) = (reprison b m \<noteq> None)"
  "u_stq_reprison_sq (undo_of b m) = (case reprison b m of None \<Rightarrow> SQ_NONE | Some s \<Rightarrow> s)"
  by (simp_all add: undo_of_def)

lemma make_book_history_place:
  "history (make_book (make_place b m) m) = (history b)(ply b := undo_of b m)"
  by (cases "bonus_of b m")
    (simp_all add: make_book_history kb_bonus_place make_place_frame undo_of_bonus)

lemma board_make_move_frame:
  "history (board_make_move Z b m) = (history b)(ply b := undo_of b m)"
  "ply (board_make_move Z b m) = Suc (ply b)"
  "game_mod (board_make_move Z b m) = game_mod b"
  "side (board_make_move Z b m) = (if bonus_of b m then side b else color_opposite (side b))"
  "fullmove (board_make_move Z b m) = fullmove b + (if side b = BLACK then 1 else 0)"
  "mailbox (board_make_move Z b m) = mailbox (make_place b m)"
  "pieces (board_make_move Z b m) = pieces (make_place b m)"
  "occupied (board_make_move Z b m) = occupied (make_place b m)"
  "all_bb (board_make_move Z b m) = all_bb (make_place b m)"
  by (simp_all add: board_make_move_phases make_switch_def Let_def make_book_history_place
      make_book_place make_place_frame)


section \<open>Placement after a move\<close>

lemma make_place_at:
  assumes wf: "wf_place b" and ok: "move_ok b m"
  shows "wf_place (make_place b m)"
    and "SQ_VALID s \<Longrightarrow> piece_at (make_place b m) s = moved_to b m s"
proof -
  let ?b1 = "make_capture (save_undo b m) m"
  let ?b2 = "make_piece ?b1 m"
  have c: "side b \<in> {WHITE, BLACK}" and ft: "MOVE_FROM m \<noteq> MOVE_TO m"
    and t: "(if MOVE_IS_PROMO m then MOVE_PROMO_TYPE m else MOVE_PIECE m) \<in> set piece_types"
    using move_okD [OF ok] by blast+
  have b1: "wf_place ?b1" "SQ_VALID s \<Longrightarrow> piece_at ?b1 s =
      (if MOVE_IS_EP m then if s = ep_cap_sq m then PIECE_EMPTY else piece_at b s
       else if MOVE_IS_CAPTURE m \<and> s = MOVE_TO m then PIECE_EMPTY
       else if reprison b m = Some s then PIECE_MAKE (color_opposite (side b)) QUEEN
       else piece_at b s)" for s
    using make_capture_at(1) [of "save_undo b m" m] make_capture_at(2) [where b = "save_undo b m" and m = m and s = s] wf c
    by (simp_all add: undo_top_saved)
  have to1: "piece_at ?b1 (MOVE_TO m) = PIECE_EMPTY"
    using move_okD(6) [OF ok] by (cases "MOVE_IS_CAPTURE m"; simp add: b1(2))
  have b2: "wf_place ?b2" "SQ_VALID s \<Longrightarrow> piece_at ?b2 s =
      (if s = MOVE_TO m then arriving b m else if s = MOVE_FROM m then PIECE_EMPTY else piece_at ?b1 s)" for s
    using make_piece_at(1) [OF b1(1) ft to1 _ t] make_piece_at(2) [OF b1(1) ft to1 _ t, of s] c
    by (simp_all add: make_capture_frame arriving_def)
  have rt: "piece_at ?b2 rt = PIECE_EMPTY"
    if "MOVE_IS_CASTLE m" "castle_rook (MOVE_TO m) = Some (rf, rt, c)" for rf rt c
    using move_okD(8,9) [OF ok] that castle_rook_cases [OF that(2)] by (simp add: b2 b1)
  show "wf_place (make_place b m)"
    unfolding make_place_def by (rule make_castle_rook_at(1) [OF b2(1)]) (rule rt)
  show "piece_at (make_place b m) s = moved_to b m s" if s: "SQ_VALID s"
  proof -
    have "piece_at (make_place b m) s =
        (case (if MOVE_IS_CASTLE m then castle_rook (MOVE_TO m) else None) of
           None \<Rightarrow> piece_at ?b2 s
         | Some (rf, rt, c) \<Rightarrow>
             if s = rf then PIECE_EMPTY else if s = rt then PIECE_MAKE c ROOK else piece_at ?b2 s)"
      unfolding make_place_def by (rule make_castle_rook_at(2) [OF b2(1) _ s]) (rule rt)
    also have "\<dots> = moved_to b m s"
    proof (cases "if MOVE_IS_CASTLE m then castle_rook (MOVE_TO m) else None")
      case None
      then show ?thesis
        using s by (simp add: moved_to_def b2 b1)
    next
      case (Some r)
      then obtain rf rt c where r: "r = (rf, rt, c)" by (cases r)
      with Some have cs: "MOVE_IS_CASTLE m" "castle_rook (MOVE_TO m) = Some (rf, rt, c)"
        by (auto split: if_splits)
      then have nc: "\<not> MOVE_IS_EP m" "\<not> MOVE_IS_CAPTURE m" "rf \<noteq> MOVE_FROM m" "rt \<noteq> MOVE_FROM m"
        using move_okD(8,9) [OF ok] by blast+
      with cs s castle_rook_cases [OF cs(2)] show ?thesis
        by (simp add: moved_to_def b2 b1)
    qed
    finally show ?thesis .
  qed
qed

lemma board_make_move_at:
  assumes "wf_place b" "move_ok b m"
  shows "wf_place (board_make_move Z b m)"
    and "SQ_VALID s \<Longrightarrow> piece_at (board_make_move Z b m) s = moved_to b m s"
proof -
  show "wf_place (board_make_move Z b m)"
    using make_place_at(1) [OF assms] by (rule wf_place_cong) (simp_all add: board_make_move_frame)
  show "piece_at (board_make_move Z b m) s = moved_to b m s" if "SQ_VALID s"
    using make_place_at(2) [OF assms that] by (simp add: board_make_move_frame)
qed


section \<open>Taking a move back\<close>

definition unmake_place :: "Board \<Rightarrow> Undo \<Rightarrow> Color \<Rightarrow> Board" where
  "unmake_place b u us =
     (let m = u_move u;
          b = board_place (board_remove b (MOVE_TO m)) (MOVE_FROM m) us (MOVE_PIECE m);
          b = (if u_stq_reprisoned u \<and> u_stq_reprison_sq u \<noteq> SQ_NONE
               then board_remove b (u_stq_reprison_sq u) else b);
          b = (if u_captured u \<noteq> PIECE_EMPTY
               then board_place b (u_captured_sq u) (PIECE_COLOR (u_captured u)) (PIECE_TYPE (u_captured u))
               else b)
      in unmake_castle_rook b m)"

lemma board_unmake_move_place:
  assumes "undo_top (b \<lparr> ply := ply b - 1 \<rparr>) = u" "us = (if u_kb_bonus u then side b else color_opposite (side b))"
  shows "board_unmake_move b =
    (let b' = unmake_state (unmake_place (b \<lparr> ply := ply b - 1, side := us \<rparr>) u us) u
     in if us = BLACK then b' \<lparr> fullmove := fullmove b' - 1 \<rparr> else b')"
  using assms by (simp add: board_unmake_move_def unmake_place_def Let_def)

lemma unmake_castle_rook_frame:
  "fullmove (unmake_castle_rook b m) = fullmove b" "game_mod (unmake_castle_rook b m) = game_mod b"
  "history (unmake_castle_rook b m) = history b" "ply (unmake_castle_rook b m) = ply b"
  "side (unmake_castle_rook b m) = side b"
  by (simp_all add: unmake_castle_rook_def split: option.split)

lemma unmake_place_frame:
  "fullmove (unmake_place b u us) = fullmove b" "game_mod (unmake_place b u us) = game_mod b"
  "history (unmake_place b u us) = history b" "ply (unmake_place b u us) = ply b"
  "side (unmake_place b u us) = side b"
  by (simp_all add: unmake_place_def Let_def unmake_castle_rook_frame)

lemma captured_of_ok:
  assumes "wf_place b" "captured_of b m \<noteq> PIECE_EMPTY"
  shows "PIECE_COLOR (captured_of b m) \<in> {WHITE, BLACK}" "PIECE_TYPE (captured_of b m) \<in> set piece_types"
    "PIECE_MAKE (PIECE_COLOR (captured_of b m)) (PIECE_TYPE (captured_of b m)) = captured_of b m"
proof -
  have "piece_ok (captured_of b m)"
    using wf_place_piece_ok [OF assms(1)] by (simp add: captured_of_def)
  then show "PIECE_COLOR (captured_of b m) \<in> {WHITE, BLACK}" "PIECE_TYPE (captured_of b m) \<in> set piece_types"
    "PIECE_MAKE (PIECE_COLOR (captured_of b m)) (PIECE_TYPE (captured_of b m)) = captured_of b m"
    using assms(2) by (auto elim: piece_ok_cases)
qed

text \<open>
  The three steps of taking back, on a board whose squares hold \<open>moved_to\<close>: the mover goes
  home, the re-imprisoned queen and the victim are restored, the castling rook goes home.
\<close>

lemma unmake_mover:
  assumes wf: "wf_place b" "move_ok b m" and wf': "wf_place b'"
    and at: "\<forall>s. SQ_VALID s \<longrightarrow> piece_at b' s = moved_to b m s"
    and c_def: "c = board_place (board_remove b' (MOVE_TO m)) (MOVE_FROM m) (side b) (MOVE_PIECE m)"
  shows "wf_place c"
    and "SQ_VALID s \<Longrightarrow> piece_at c s =
      (if s = MOVE_TO m then PIECE_EMPTY else if s = MOVE_FROM m then piece_at b s else moved_to b m s)"
proof -
  note ok = move_okD [OF wf(2)]
  have "piece_at (board_remove b' (MOVE_TO m)) (MOVE_FROM m) = PIECE_EMPTY"
    using ok(2) wf' by (simp add: nth_sq_update at moved_to_def)
  then show "wf_place c"
    unfolding c_def using wf' ok(1,4) by (intro wf_place_place wf_place_remove) simp_all
  show "piece_at c s =
      (if s = MOVE_TO m then PIECE_EMPTY else if s = MOVE_FROM m then piece_at b s else moved_to b m s)"
    if "SQ_VALID s"
    using ok(2,5) wf' that by (simp add: c_def nth_sq_update at)
qed

lemma unmake_prisoner:
  assumes wf: "wf_place c"
    and d_def: "d = (if reprison b m \<noteq> None \<and> (case reprison b m of None \<Rightarrow> SQ_NONE | Some s \<Rightarrow> s) \<noteq> SQ_NONE
      then board_remove c (case reprison b m of None \<Rightarrow> SQ_NONE | Some s \<Rightarrow> s) else c)"
  shows "wf_place d"
    and "SQ_VALID s \<Longrightarrow> piece_at d s = (if reprison b m = Some s then PIECE_EMPTY else piece_at c s)"
  using wf reprison_props(1,6) [of b m]
  by (auto simp: d_def nth_sq_update wf_place_remove split: option.splits)

lemma unmake_victim:
  assumes wf: "wf_place b" and wf': "wf_place d"
    and q: "q = (if MOVE_IS_EP m then ep_cap_sq m else if MOVE_IS_CAPTURE m then MOVE_TO m else SQ_NONE)"
    and empty: "captured_of b m \<noteq> PIECE_EMPTY \<longrightarrow> piece_at d q = PIECE_EMPTY"
    and e_def: "e = (if captured_of b m \<noteq> PIECE_EMPTY
      then board_place d q (PIECE_COLOR (captured_of b m)) (PIECE_TYPE (captured_of b m)) else d)"
  shows "wf_place e"
    and "SQ_VALID s \<Longrightarrow> piece_at e s = (if captured_of b m \<noteq> PIECE_EMPTY \<and> s = q then captured_of b m else piece_at d s)"
proof -
  have v: "SQ_VALID q" if "captured_of b m \<noteq> PIECE_EMPTY"
    using that q by (auto simp: captured_of_def split: if_splits)
  show "wf_place e"
    using wf' v empty captured_of_ok [OF wf] by (auto simp: e_def intro!: wf_place_place)
  show "piece_at e s = (if captured_of b m \<noteq> PIECE_EMPTY \<and> s = q then captured_of b m else piece_at d s)"
    if "SQ_VALID s"
    using that wf' v captured_of_ok(3) [OF wf] by (auto simp: e_def nth_sq_update)
qed

lemma unmake_castle_rook_shift:
  "unmake_castle_rook b m =
     rook_shift b (map_option (\<lambda>(rf, rt, c). (rt, rf, c)) (if MOVE_IS_CASTLE m then castle_rook (MOVE_TO m) else None))"
  by (simp add: unmake_castle_rook_def rook_shift_def split: option.split)

lemma unmake_castle_rook_at:
  assumes wf: "wf_place b"
    and ok: "\<And>rf rt c. MOVE_IS_CASTLE m \<Longrightarrow> castle_rook (MOVE_TO m) = Some (rf, rt, c) \<Longrightarrow> piece_at b rf = PIECE_EMPTY"
  shows "wf_place (unmake_castle_rook b m)"
    and "SQ_VALID s \<Longrightarrow> piece_at (unmake_castle_rook b m) s =
      (case (if MOVE_IS_CASTLE m then castle_rook (MOVE_TO m) else None) of
         None \<Rightarrow> piece_at b s
       | Some (rf, rt, c) \<Rightarrow>
           if s = rt then PIECE_EMPTY else if s = rf then PIECE_MAKE c ROOK else piece_at b s)"
proof -
  let ?r = "map_option (\<lambda>(rf, rt, c). (rt, rf, c)) (if MOVE_IS_CASTLE m then castle_rook (MOVE_TO m) else None)"
  have *: "SQ_VALID x \<and> SQ_VALID y \<and> x \<noteq> y \<and> c \<in> {WHITE, BLACK} \<and> piece_at b y = PIECE_EMPTY"
    if "?r = Some (x, y, c)" for x y c
  proof -
    from that have "MOVE_IS_CASTLE m" "castle_rook (MOVE_TO m) = Some (y, x, c)"
      by (auto split: if_splits)
    then show ?thesis using ok castle_rook_cases [of "MOVE_TO m" y x c] by blast
  qed
  show "wf_place (unmake_castle_rook b m)"
    unfolding unmake_castle_rook_shift by (rule rook_shift_at [OF wf *])
  show "piece_at (unmake_castle_rook b m) s =
      (case (if MOVE_IS_CASTLE m then castle_rook (MOVE_TO m) else None) of
         None \<Rightarrow> piece_at b s
       | Some (rf, rt, c) \<Rightarrow>
           if s = rt then PIECE_EMPTY else if s = rf then PIECE_MAKE c ROOK else piece_at b s)"
    if "SQ_VALID s"
    unfolding unmake_castle_rook_shift
    by (subst rook_shift_at(2) [OF wf * that]) (simp_all split: option.split)
qed

lemma unmake_place_at:
  assumes wf: "wf_place b" and ok: "move_ok b m" and wf': "wf_place b'"
    and at: "\<forall>s. SQ_VALID s \<longrightarrow> piece_at b' s = moved_to b m s"
  shows "wf_place (unmake_place b' (undo_of b m) (side b))"
    and "SQ_VALID s \<Longrightarrow> piece_at (unmake_place b' (undo_of b m) (side b)) s = piece_at b s"
proof -
  note okD = move_okD [OF ok]
  obtain c where c_def: "c = board_place (board_remove b' (MOVE_TO m)) (MOVE_FROM m) (side b) (MOVE_PIECE m)" by simp
  note c = unmake_mover [OF wf ok wf' at c_def]
  obtain d where d_def: "d = (if reprison b m \<noteq> None \<and> (case reprison b m of None \<Rightarrow> SQ_NONE | Some s \<Rightarrow> s) \<noteq> SQ_NONE
      then board_remove c (case reprison b m of None \<Rightarrow> SQ_NONE | Some s \<Rightarrow> s) else c)" by simp
  note d = unmake_prisoner [OF c(1) d_def]
  obtain q where q: "q = (if MOVE_IS_EP m then ep_cap_sq m else if MOVE_IS_CAPTURE m then MOVE_TO m else SQ_NONE)" by simp
  have empty: "captured_of b m \<noteq> PIECE_EMPTY \<longrightarrow> piece_at d q = PIECE_EMPTY"
    using okD(2,7) by (auto simp: q captured_of_def c(2) d(2) moved_to_def split: if_splits)
  obtain e where e_def: "e = (if captured_of b m \<noteq> PIECE_EMPTY
      then board_place d q (PIECE_COLOR (captured_of b m)) (PIECE_TYPE (captured_of b m)) else d)" by simp
  note e = unmake_victim [OF wf d(1) q empty e_def]
  have eq: "unmake_place b' (undo_of b m) (side b) = unmake_castle_rook e m"
    by (simp add: unmake_place_def Let_def e_def d_def c_def q)
  have castle: "q = SQ_NONE" "captured_of b m = PIECE_EMPTY" "reprison b m = None" if "MOVE_IS_CASTLE m"
    using okD(8) [OF that] by (simp_all add: q captured_of_def)
  have rf: "piece_at e rf = PIECE_EMPTY"
    if "MOVE_IS_CASTLE m" "castle_rook (MOVE_TO m) = Some (rf, rt, c)" for rf rt c
    using castle [OF that(1)] that okD(8) [OF that(1)] okD(9) [OF that] castle_rook_cases [OF that(2)]
    by (simp add: e(2) d(2) c(2) moved_to_def)
  show "wf_place (unmake_place b' (undo_of b m) (side b))"
    unfolding eq by (rule unmake_castle_rook_at [OF e(1)]) (rule rf)
  show "piece_at (unmake_place b' (undo_of b m) (side b)) s = piece_at b s" if s: "SQ_VALID s"
  proof (cases "if MOVE_IS_CASTLE m then castle_rook (MOVE_TO m) else None")
    case None
    then have "piece_at (unmake_place b' (undo_of b m) (side b)) s = piece_at e s"
      unfolding eq by (subst unmake_castle_rook_at(2) [OF e(1) rf s]) auto
    also have "\<dots> = piece_at b s"
      using None s okD(2,6,7) reprison_props(2,3) [of b m s]
      by (auto simp: e(2) d(2) c(2) moved_to_def q captured_of_def)
    finally show ?thesis .
  next
    case (Some r)
    then obtain rf rt cl where cs: "MOVE_IS_CASTLE m" "castle_rook (MOVE_TO m) = Some (rf, rt, cl)"
      by (cases r) (auto split: if_splits)
    then have "piece_at (unmake_place b' (undo_of b m) (side b)) s =
        (if s = rt then PIECE_EMPTY else if s = rf then PIECE_MAKE cl ROOK else piece_at e s)"
      unfolding eq by (subst unmake_castle_rook_at(2) [OF e(1) rf s]) auto
    then show ?thesis
      using castle [OF cs(1)] cs okD(6,8) okD(9) [OF cs] s
      by (auto simp: e(2) d(2) c(2) moved_to_def)
  qed
qed


lemma mailbox_eqI:
  assumes "wf_place b" "wf_place b'" "\<And>s. SQ_VALID s \<Longrightarrow> piece_at b s = piece_at b' s"
  shows "mailbox b = mailbox b'"
proof (rule nth_equalityI)
  fix n assume "n < length (mailbox b)"
  then have "SQ_VALID (int n)" using assms(1) by (simp add: SQ_VALID_def)
  from assms(3) [OF this] show "mailbox b ! n = mailbox b' ! n" by simp
qed (use assms in simp)

lemma unmake_make:
  assumes wf: "wf_place b" and ok: "move_ok b m"
  shows "board_unmake_move (board_make_move Z b m) = b \<lparr> history := (history b)(ply b := undo_of b m) \<rparr>"
proof -
  let ?b = "board_make_move Z b m"
  let ?b' = "?b \<lparr> ply := ply ?b - 1, side := side b \<rparr>"
  let ?p = "unmake_place ?b' (undo_of b m) (side b)"
  have top: "undo_top (?b \<lparr> ply := ply ?b - 1 \<rparr>) = undo_of b m"
    by (simp add: board_make_move_frame)
  have us: "side b = (if u_kb_bonus (undo_of b m) then side ?b else color_opposite (side ?b))"
    by (simp add: board_make_move_frame)
  have wf': "wf_place ?b'"
    using board_make_move_at(1) [OF wf ok] by (rule wf_place_cong) simp_all
  have at': "\<forall>s. SQ_VALID s \<longrightarrow> piece_at ?b' s = moved_to b m s"
    using board_make_move_at(2) [OF wf ok] by simp
  note p = unmake_place_at [OF wf ok wf' at']
  have mb: "mailbox ?p = mailbox b" using p wf by (intro mailbox_eqI) auto
  show ?thesis
    unfolding board_unmake_move_place [OF top us] Let_def unmake_state_def
    by (cases "side b = BLACK"; intro Board.equality;
      use wf_place_ext [OF p(1) wf mb] mb in \<open>simp add: unmake_place_frame board_make_move_frame\<close>)
qed

lemma make_hash: "hash (board_make_move Z b m) = zobrist_compute Z (board_make_move Z b m)"
  by (simp add: board_make_move_phases make_switch_def Let_def zobrist_compute_eq zob_placement_def zob_flags_def)


section \<open>The other components after a move\<close>

definition ep_after :: "Board \<Rightarrow> Move \<Rightarrow> Square" where
  "ep_after b m =
     (let from = MOVE_FROM m; to = MOVE_TO m in
      if game_mod b \<noteq> MOD_MERCENARY \<and> MOVE_PIECE m = PAWN \<and> (to - from = 16 \<or> to - from = -16)
      then SQ (cdiv (SQ_ROW from + SQ_ROW to) 2) (SQ_COL from) else SQ_NONE)"

definition heir_after :: "Board \<Rightarrow> Move \<Rightarrow> Color \<Rightarrow> bool" where
  "heir_after b m c \<longleftrightarrow>
     heir_promoted b c \<or>
     c = side b \<and> game_mod b \<in> {MOD_HEIR, MOD_SUCCESSION} \<and> MOVE_IS_PROMO m \<and> MOVE_PROMO_TYPE m = KING"

text \<open>Phase 2 of King's Battle starts with a king's kill, a promotion or the sixth idle king move.\<close>

definition kb_unlocks :: "Board \<Rightarrow> Move \<Rightarrow> bool" where
  "kb_unlocks b m \<longleftrightarrow>
     game_mod b = MOD_KINGS_BATTLE \<and> \<not> kb_unlocked b \<and>
     (bonus_of b m \<or> MOVE_PIECE m = PAWN \<and> MOVE_IS_PROMO m \<or>
      MOVE_PIECE m = KING \<and> \<not> MOVE_IS_CAPTURE m \<and> 5 \<le> kb_idle_kings b)"

definition idle_after :: "Board \<Rightarrow> Move \<Rightarrow> u8" where
  "idle_after b m =
     (if game_mod b = MOD_KINGS_BATTLE \<and> \<not> kb_unlocked b then
        if MOVE_PIECE m = KING \<and> \<not> MOVE_IS_CAPTURE m
        then if kb_idle_kings b < 255 then kb_idle_kings b + 1 else kb_idle_kings b
        else 0
      else kb_idle_kings b)"

lemma make_capture_flags:
  "castling (make_capture b m) = castling b" "halfmove (make_capture b m) = halfmove b"
  "heir_promoted (make_capture b m) = heir_promoted b" "truce_active (make_capture b m) = truce_active b"
  "truce_frozen (make_capture b m) = truce_frozen b" "ff_moved (make_capture b m) = ff_moved b"
  "kb_idle_kings (make_capture b m) = kb_idle_kings b"
  by (simp_all add: make_capture_reprison Let_def split: option.split)

lemma make_piece_flags:
  "castling (make_piece b m) = castling b" "halfmove (make_piece b m) = halfmove b"
  "truce_active (make_piece b m) = truce_active b" "truce_frozen (make_piece b m) = truce_frozen b"
  "ff_moved (make_piece b m) = ff_moved b" "kb_idle_kings (make_piece b m) = kb_idle_kings b"
  "heir_promoted (make_piece b m) = heir_after b m"
  by (auto simp: make_piece_def Let_def heir_after_def fun_eq_iff)

lemma make_castle_rook_flags:
  "castling (make_castle_rook b m) = castling b" "halfmove (make_castle_rook b m) = halfmove b"
  "heir_promoted (make_castle_rook b m) = heir_promoted b" "truce_active (make_castle_rook b m) = truce_active b"
  "truce_frozen (make_castle_rook b m) = truce_frozen b" "ff_moved (make_castle_rook b m) = ff_moved b"
  "kb_idle_kings (make_castle_rook b m) = kb_idle_kings b"
  by (simp_all add: make_castle_rook_def split: option.split)

lemma make_place_flags:
  "castling (make_place b m) = castling b" "halfmove (make_place b m) = halfmove b"
  "truce_active (make_place b m) = truce_active b" "truce_frozen (make_place b m) = truce_frozen b"
  "ff_moved (make_place b m) = ff_moved b" "kb_idle_kings (make_place b m) = kb_idle_kings b"
  "heir_promoted (make_place b m) = heir_after b m"
  by (simp_all add: make_place_def make_castle_rook_flags make_piece_flags make_capture_flags
      heir_after_def fun_eq_iff make_capture_frame save_undo_def)


text \<open>
  A set of squares that follows the pieces: what \<open>truce_frozen\<close> and \<open>ff_moved\<close> both become.
\<close>

definition track_move :: "Bitboard \<Rightarrow> Move \<Rightarrow> Bitboard" where
  "track_move bb m =
     (let f = (bb AND NOT (BB_SQ (MOVE_FROM m))) OR BB_SQ (MOVE_TO m);
          f = (if MOVE_IS_EP m then f AND NOT (BB_SQ (ep_cap_sq m)) else f)
      in track_castle f m)"

lemma make_truce_frozen:
  "truce_frozen (make_truce b m) =
     (if game_mod b = MOD_TRUCE \<and> truce_active b then track_move (truce_frozen b) m else truce_frozen b)"
proof -
  have "((w OR BB_SQ q) AND NOT (BB_SQ q)) OR BB_SQ q = w OR BB_SQ q" for w :: u64 and q
    by (rule bit_word_eqI) (auto simp: bit_or_iff bit_and_iff bit_not_iff)
  then show ?thesis by (simp add: make_truce_def track_move_def Let_def)
qed

lemma make_ff_moved:
  "ff_moved (make_ff b m) = (if game_mod b = MOD_FRIENDLY_FIRE then track_move (ff_moved b) m else ff_moved b)"
  by (simp add: make_ff_def track_move_def Let_def)

lemma idle_limit: "(if k < 255 then k + 1 else k) \<ge> 6 \<longleftrightarrow> 5 \<le> (k :: u8)"
  by (simp add: word_le_nat_alt word_less_nat_alt unat_word_ariths)

lemma make_kb_flags:
  assumes "game_mod b = game_mod b0" "kb_unlocked b = kb_unlocked b0" "kb_idle_kings b = kb_idle_kings b0"
    "u_captured (undo_top b) = captured_of b0 m"
  shows "kb_unlocked (make_kb b m) = (kb_unlocked b0 \<or> kb_unlocks b0 m)"
    "kb_idle_kings (make_kb b m) = idle_after b0 m"
proof -
  have i: "kb_idle_kings b0 < 255 \<Longrightarrow> (6 \<le> kb_idle_kings b0 + 1 \<longleftrightarrow> 5 \<le> kb_idle_kings b0)"
    "\<not> kb_idle_kings b0 < 255 \<Longrightarrow> (6 \<le> kb_idle_kings b0 \<longleftrightarrow> 5 \<le> kb_idle_kings b0)"
    using idle_limit [of "kb_idle_kings b0"] by simp_all
  show "kb_unlocked (make_kb b m) = (kb_unlocked b0 \<or> kb_unlocks b0 m)"
    using assms i by (auto simp: make_kb_def Let_def kb_unlocks_def bonus_of_def)
  show "kb_idle_kings (make_kb b m) = idle_after b0 m"
    using assms by (auto simp: make_kb_def Let_def idle_after_def)
qed

lemma make_kb_frame:
  "castling (make_kb b m) = castling b" "ep_square (make_kb b m) = ep_square b"
  "halfmove (make_kb b m) = halfmove b" "heir_promoted (make_kb b m) = heir_promoted b"
  "truce_active (make_kb b m) = truce_active b" "truce_frozen (make_kb b m) = truce_frozen b"
  "ff_moved (make_kb b m) = ff_moved b"
  by (simp_all add: make_kb_def Let_def)

lemma make_clocks_frame:
  "castling (make_clocks b m) = castling b" "ep_square (make_clocks b m) = ep_square b"
  "heir_promoted (make_clocks b m) = heir_promoted b" "truce_active (make_clocks b m) = truce_active b"
  "truce_frozen (make_clocks b m) = truce_frozen b" "ff_moved (make_clocks b m) = ff_moved b"
  "kb_idle_kings (make_clocks b m) = kb_idle_kings b"
  "halfmove (make_clocks b m) = (if MOVE_PIECE m = PAWN \<or> MOVE_IS_CAPTURE m then 0 else halfmove b + 1)"
  by (simp_all add: make_clocks_def Let_def)

lemma make_ep_frame:
  "castling (make_ep b m) = castling b" "halfmove (make_ep b m) = halfmove b"
  "heir_promoted (make_ep b m) = heir_promoted b" "truce_active (make_ep b m) = truce_active b"
  "truce_frozen (make_ep b m) = truce_frozen b" "ff_moved (make_ep b m) = ff_moved b"
  "kb_idle_kings (make_ep b m) = kb_idle_kings b" "ep_square (make_ep b m) = ep_after b m"
  by (auto simp: make_ep_def ep_after_def Let_def)

lemma make_castling_frame:
  "castling (make_castling b m) = rights_after (castling b) (side b) (MOVE_PIECE m) (MOVE_FROM m) (MOVE_TO m)"
  "halfmove (make_castling b m) = halfmove b" "heir_promoted (make_castling b m) = heir_promoted b"
  "truce_active (make_castling b m) = truce_active b" "truce_frozen (make_castling b m) = truce_frozen b"
  "ff_moved (make_castling b m) = ff_moved b" "kb_idle_kings (make_castling b m) = kb_idle_kings b"
  by (simp_all add: make_castling_def)

lemma make_ff_frame:
  "castling (make_ff b m) = castling b" "halfmove (make_ff b m) = halfmove b"
  "heir_promoted (make_ff b m) = heir_promoted b" "truce_active (make_ff b m) = truce_active b"
  "truce_frozen (make_ff b m) = truce_frozen b" "kb_idle_kings (make_ff b m) = kb_idle_kings b"
  by (simp_all add: make_ff_def Let_def)

lemma make_truce_frame:
  "castling (make_truce b m) = castling b" "halfmove (make_truce b m) = halfmove b"
  "heir_promoted (make_truce b m) = heir_promoted b" "truce_active (make_truce b m) = truce_active b"
  "ff_moved (make_truce b m) = ff_moved b" "kb_idle_kings (make_truce b m) = kb_idle_kings b"
  by (simp_all add: make_truce_def Let_def)

lemmas make_stage_flags = make_kb_frame make_clocks_frame make_ep_frame make_castling_frame
  make_ff_frame make_truce_frame make_ff_moved make_truce_frozen

text \<open>Every component of the board after a move, in terms of the board before it.\<close>

lemma board_make_move_flags:
  "castling (board_make_move Z b m) =
     rights_after (castling b) (side b) (MOVE_PIECE m) (MOVE_FROM m) (MOVE_TO m)"
  "ep_square (board_make_move Z b m) = ep_after b m"
  "halfmove (board_make_move Z b m) = (if MOVE_PIECE m = PAWN \<or> MOVE_IS_CAPTURE m then 0 else halfmove b + 1)"
  "heir_promoted (board_make_move Z b m) = heir_after b m"
  "truce_active (board_make_move Z b m) = truce_active b"
  "truce_frozen (board_make_move Z b m) =
     (if game_mod b = MOD_TRUCE \<and> truce_active b then track_move (truce_frozen b) m else truce_frozen b)"
  "ff_moved (board_make_move Z b m) =
     (if game_mod b = MOD_FRIENDLY_FIRE then track_move (ff_moved b) m else ff_moved b)"
  "kb_unlocked (board_make_move Z b m) = (kb_unlocked b \<or> kb_unlocks b m)"
  "kb_idle_kings (board_make_move Z b m) = idle_after b m"
proof -
  have kb: "kb_unlocked (make_kb (make_clocks (make_ep (make_castling (make_ff (make_truce (make_place b m) m) m) m) m) m) m)
      = (kb_unlocked b \<or> kb_unlocks b m)"
    "kb_idle_kings (make_kb (make_clocks (make_ep (make_castling (make_ff (make_truce (make_place b m) m) m) m) m) m) m)
      = idle_after b m"
    by (intro make_kb_flags; simp add: make_stage_place make_place_frame make_stage_flags
        make_place_flags)+
  note simps = board_make_move_phases make_switch_def Let_def make_book_def make_stage_flags
    make_stage_place make_place_frame make_place_flags
  show "castling (board_make_move Z b m) =
       rights_after (castling b) (side b) (MOVE_PIECE m) (MOVE_FROM m) (MOVE_TO m)"
    "halfmove (board_make_move Z b m) = (if MOVE_PIECE m = PAWN \<or> MOVE_IS_CAPTURE m then 0 else halfmove b + 1)"
    "heir_promoted (board_make_move Z b m) = heir_after b m"
    "truce_active (board_make_move Z b m) = truce_active b"
    "truce_frozen (board_make_move Z b m) =
       (if game_mod b = MOD_TRUCE \<and> truce_active b then track_move (truce_frozen b) m else truce_frozen b)"
    "ff_moved (board_make_move Z b m) =
       (if game_mod b = MOD_FRIENDLY_FIRE then track_move (ff_moved b) m else ff_moved b)"
    by (simp_all add: simps)
  show "ep_square (board_make_move Z b m) = ep_after b m"
    by (simp add: simps) (simp add: ep_after_def make_stage_place make_place_frame)
  show "kb_unlocked (board_make_move Z b m) = (kb_unlocked b \<or> kb_unlocks b m)"
    "kb_idle_kings (board_make_move Z b m) = idle_after b m"
    using kb by (simp_all add: board_make_move_phases make_switch_def Let_def make_book_def)
qed


section \<open>Dead history entries\<close>

text \<open>
  Entries of \<open>history\<close> at or above \<open>ply\<close> are dead: no function reads one before writing it.
\<close>

lemma history_free [simp]:
  "wf_place (b \<lparr> history := h \<rparr>) = wf_place b" "reprison (b \<lparr> history := h \<rparr>) m = reprison b m"
  "captured_of (b \<lparr> history := h \<rparr>) m = captured_of b m" "arriving (b \<lparr> history := h \<rparr>) m = arriving b m"
  "castle_ok (b \<lparr> history := h \<rparr>) m = castle_ok b m" "bonus_of (b \<lparr> history := h \<rparr>) m = bonus_of b m"
  "ep_after (b \<lparr> history := h \<rparr>) m = ep_after b m" "heir_after (b \<lparr> history := h \<rparr>) m = heir_after b m"
  "idle_after (b \<lparr> history := h \<rparr>) m = idle_after b m"
  by (simp_all add: wf_place_def reprison_def captured_of_def arriving_def castle_ok_def bonus_of_def
      ep_after_def heir_after_def fun_eq_iff idle_after_def split: option.split)

lemma history_free_derived [simp]:
  "move_ok (b \<lparr> history := h \<rparr>) m = move_ok b m" "undo_of (b \<lparr> history := h \<rparr>) m = undo_of b m"
  "moved_to (b \<lparr> history := h \<rparr>) m = moved_to b m" "kb_unlocks (b \<lparr> history := h \<rparr>) m = kb_unlocks b m"
  by (simp_all add: move_ok_def undo_of_def moved_to_def kb_unlocks_def fun_eq_iff split: option.split)

lemma make_history_free:
  assumes wf: "wf_place b" and ok: "move_ok b m"
  shows "board_make_move Z (b \<lparr> history := h \<rparr>) m =
    (board_make_move Z b m) \<lparr> history := h(ply b := undo_of b m) \<rparr>"
proof -
  let ?b = "b \<lparr> history := h \<rparr>"
  have wf': "wf_place (board_make_move Z ?b m)" "wf_place (board_make_move Z b m)"
    using wf ok by (auto intro!: board_make_move_at(1))
  have mb: "mailbox (board_make_move Z ?b m) = mailbox (board_make_move Z b m)"
    using wf ok by (intro mailbox_eqI wf') (simp add: board_make_move_at(2))
  note place = wf_place_ext [OF wf' mb]
  have "hash (board_make_move Z ?b m) = hash (board_make_move Z b m)"
    unfolding make_hash by (rule zobrist_compute_cong)
      (simp_all add: place board_make_move_frame(4) board_make_move_flags)
  then show ?thesis
    using mb place
    by (intro Board.equality) (simp_all add: board_make_move_frame(1-5) board_make_move_flags)
qed

lemma unmake_make_free:
  assumes "wf_place b" "move_ok b m"
  shows "board_unmake_move (board_make_move Z (b \<lparr> history := h \<rparr>) m) =
    b \<lparr> history := h(ply b := undo_of b m) \<rparr>"
  using unmake_make [of "b \<lparr> history := h \<rparr>" m Z] assms by simp

section \<open>Properties\<close>

text \<open>A small position for the instances below: kings on e1 and e8, pawns on e4 (white) and d5 (black).\<close>

definition duel :: Board where
  "duel = board_place (board_place (board_place (board_place board_clear 4 WHITE KING) 60 BLACK KING)
     28 WHITE PAWN) 35 BLACK PAWN"

lemma duel_wf: "wf_place duel"
  unfolding duel_def
  by (intro wf_place_place wf_place_clear) (simp_all add: SQ_VALID_def board_place_def board_clear_def)

lemma duel_move_ok: "move_ok duel (move_capture 28 35 PAWN PAWN)"
  by (simp add: duel_def move_ok_def Let_def SQ_VALID_def board_clear_def)

text \<open>
  (C2) Taking a move back restores the board: after \<open>board_make_move\<close> and \<open>board_unmake_move\<close> every
  component is what it was, except the history entry at \<open>ply\<close>, which is dead and now holds the
  undo record of the move.  This holds for every move that fits the board (\<open>move_ok\<close>), in every
  game mod, including en passant, castling, promotion, friendly captures, the return of a
  captured prisoner queen to its prison and the bonus turn of King's Battle.
\<close>

theorem unmake_restores_board:
  assumes "wf_place b" "move_ok b m"
  shows "board_unmake_move (board_make_move Z b m) = b \<lparr> history := (history b)(ply b := undo_of b m) \<rparr>"
  using assms by (rule unmake_make)

theorem unmake_restores_board_witness:
  "mailbox (board_unmake_move (board_make_move zob_static duel (move_capture 28 35 PAWN PAWN))) = mailbox duel"
  using unmake_restores_board [OF duel_wf duel_move_ok] by simp

text \<open>
  (C5) A move changes the squares as specified by \<open>moved_to\<close> and no others: the destination holds the
  mover or the promoted piece, the source and an en-passant victim's square become empty, a
  captured prisoner queen reappears on its prison square, a castling rook changes sides of its
  king.  Bitboards and mailbox stay consistent, and the stored hash is the hash of the new position.
\<close>

theorem make_move_placement:
  assumes "wf_place b" "move_ok b m"
  shows "wf_place (board_make_move Z b m) \<and>
    (\<forall>s. SQ_VALID s \<longrightarrow> piece_at (board_make_move Z b m) s = moved_to b m s) \<and>
    hash (board_make_move Z b m) = zobrist_compute Z (board_make_move Z b m)"
  using board_make_move_at [OF assms] make_hash by blast

theorem make_move_placement_witness:
  "piece_at (board_make_move zob_static duel (move_capture 28 35 PAWN PAWN)) 35 = PIECE_MAKE WHITE PAWN \<and>
   piece_at (board_make_move zob_static duel (move_capture 28 35 PAWN PAWN)) 28 = PIECE_EMPTY"
proof -
  have "moved_to duel (move_capture 28 35 PAWN PAWN) 35 = PIECE_MAKE WHITE PAWN"
    "moved_to duel (move_capture 28 35 PAWN PAWN) 28 = PIECE_EMPTY"
    by (simp_all add: moved_to_def arriving_def duel_def SQ_VALID_def board_clear_def)
  moreover have "piece_at (board_make_move zob_static duel (move_capture 28 35 PAWN PAWN)) s =
      moved_to duel (move_capture 28 35 PAWN PAWN) s" if "SQ_VALID s" for s
    using make_move_placement [OF duel_wf duel_move_ok, of zob_static] that by blast
  from this [of 35] this [of 28] calculation show ?thesis by (simp add: SQ_VALID_def)
qed

text \<open>
  (C15) King's Battle: a move unlocks phase 2 exactly if it is a king's capture of a pawn, a promotion,
  or the sixth king move in a row without a capture; only the king's capture of a pawn keeps the
  turn; in other mods and in phase 2 the turn always passes and the flag never changes.
\<close>

theorem kings_battle_unlock:
  "(kb_unlocked (board_make_move Z b m) \<longleftrightarrow>
     kb_unlocked b \<or>
     game_mod b = MOD_KINGS_BATTLE \<and>
     (MOVE_PIECE m = KING \<and> MOVE_IS_CAPTURE m \<and> PIECE_TYPE (captured_of b m) = PAWN \<or>
      MOVE_PIECE m = PAWN \<and> MOVE_IS_PROMO m \<or>
      MOVE_PIECE m = KING \<and> \<not> MOVE_IS_CAPTURE m \<and> 5 \<le> kb_idle_kings b)) \<and>
   side (board_make_move Z b m) =
     (if game_mod b = MOD_KINGS_BATTLE \<and> \<not> kb_unlocked b \<and> MOVE_PIECE m = KING \<and> MOVE_IS_CAPTURE m \<and>
         PIECE_TYPE (captured_of b m) = PAWN
      then side b else color_opposite (side b))"
  by (auto simp: board_make_move_flags board_make_move_frame kb_unlocks_def bonus_of_def)

end
