(* ===== verification/Movegen.thy ===== *)
theory Movegen
  imports MakeMove
begin

text \<open>
  Pseudo-legal move generation: \<open>movegen/movegen_pawns.c\<close> and \<open>movegen/movegen_pieces.c\<close>.
  The generators append to a move list of bounded capacity exactly as the code does; each is
  then shown to append a list of moves that is written down without the capacity
  (\<open>pawn_moves_at\<close>, \<open>piece_moves_at\<close>, \<open>castling_moves\<close>), on which the properties of the
  generated moves are proved.
\<close>

section \<open>Pawns\<close>

definition promo_move :: "Square \<Rightarrow> Square \<Rightarrow> PieceType \<Rightarrow> PieceType \<Rightarrow> Move" where
  "promo_move from to capt p = move_encode from to PAWN capt False False True p"

definition succ_add_promos ::
    "Board \<Rightarrow> MoveList \<Rightarrow> Square \<Rightarrow> Square \<Rightarrow> PieceType \<Rightarrow> Color \<Rightarrow> MoveList" where
  "succ_add_promos b ml from to capt us =
     (let them = color_opposite us;
          has_king = (pieces b us KING \<noteq> BB_EMPTY);
          pawn_count = bb_popcount (pieces b us PAWN);
          is_last_pawn = (pawn_count \<le> 1);
          sq_safe = (\<not> board_square_attacked b to them) in
      if is_last_pawn \<and> \<not> has_king then
        (if sq_safe then movelist_add ml (promo_move from to capt KING) else ml)
      else
        (let ml = fold (\<lambda>p ml. movelist_add ml (promo_move from to capt p)) [ROOK, BISHOP, KNIGHT] ml in
         if \<not> has_king \<and> sq_safe then movelist_add ml (promo_move from to capt KING) else ml))"

text \<open>
  The promotion branch, which the code writes out twice: for pushes with \<open>PIECE_NONE\<close> and
  for captures with the captured type.
\<close>

definition add_promos ::
    "Board \<Rightarrow> MoveList \<Rightarrow> Square \<Rightarrow> Square \<Rightarrow> PieceType \<Rightarrow> Color \<Rightarrow> MoveList" where
  "add_promos b ml from to capt us =
     (if game_mod b = MOD_HEIR then
        let has_king = (pieces b us KING \<noteq> BB_EMPTY);
            can_promo_king = (\<not> heir_promoted b us) in
        if \<not> has_king \<and> can_promo_king then movelist_add ml (promo_move from to capt KING)
        else
          let ml = fold (\<lambda>p ml. movelist_add ml (promo_move from to capt p))
                [QUEEN, ROOK, BISHOP, KNIGHT] ml in
          if can_promo_king then movelist_add ml (promo_move from to capt KING) else ml
      else if game_mod b = MOD_SUCCESSION then succ_add_promos b ml from to capt us
      else
        fold (\<lambda>p ml. movelist_add ml (promo_move from to capt p))
          (drop (if game_mod b = MOD_SAVE_QUEEN then 1 else 0) [QUEEN, ROOK, BISHOP, KNIGHT]) ml)"

definition pawn_dir :: "Color \<Rightarrow> int" where
  "pawn_dir us = (if us = WHITE then 1 else -1)"

definition pawn_rank2 :: "Color \<Rightarrow> int" where
  "pawn_rank2 us = (if us = WHITE then 1 else 6)"

definition pawn_rank7 :: "Color \<Rightarrow> int" where
  "pawn_rank7 us = (if us = WHITE then 6 else 1)"

definition truce_no_cap :: "Board \<Rightarrow> bool" where
  "truce_no_cap b \<longleftrightarrow> game_mod b = MOD_TRUCE \<and> truce_active b"

definition gen_merc_pawn :: "Board \<Rightarrow> bool \<Rightarrow> Square \<Rightarrow> MoveList \<Rightarrow> MoveList" where
  "gen_merc_pawn b captures_only sq ml =
     (let them = color_opposite (side b);
          targets = king_attacks sq;
          ml = (if \<not> captures_only then
                  fold (\<lambda>to ml. movelist_add ml (move_simple sq to PAWN))
                    (bb_squares (targets AND NOT (all_bb b))) ml
                else ml)
      in if \<not> truce_no_cap b then
           fold (\<lambda>to ml. let capt = PIECE_TYPE (piece_at b to) in
               if capt = KING then ml else movelist_add ml (move_capture sq to PAWN capt))
             (bb_squares (targets AND occupied b them)) ml
         else ml)"

definition gen_pawn_push :: "Board \<Rightarrow> bool \<Rightarrow> Square \<Rightarrow> MoveList \<Rightarrow> MoveList" where
  "gen_pawn_push b captures_only sq ml =
     (let us = side b; r = SQ_ROW sq; c = SQ_COL sq; one = SQ (r + pawn_dir us) c in
      if \<not> captures_only \<and> SQ_VALID one \<and> piece_at b one = PIECE_EMPTY then
        if r = pawn_rank7 us then add_promos b ml sq one PIECE_NONE us
        else
          let ml = movelist_add ml (move_simple sq one PAWN) in
          if r = pawn_rank2 us then
            let two = SQ (r + 2 * pawn_dir us) c in
            if piece_at b two = PIECE_EMPTY then movelist_add ml (move_simple sq two PAWN) else ml
          else ml
      else ml)"

text \<open>A prisoner queen is protected while its prison square is occupied (Save the Queen).\<close>

definition stq_protected :: "Board \<Rightarrow> Square \<Rightarrow> Color \<Rightarrow> PieceType \<Rightarrow> bool" where
  "stq_protected b to them capt \<longleftrightarrow>
     game_mod b = MOD_SAVE_QUEEN \<and> capt = QUEEN \<and> \<not> stq_is_own_half to them \<and>
     piece_at b (if them = WHITE then STQ_WHITE_PRISON else STQ_BLACK_PRISON) \<noteq> PIECE_EMPTY"

definition gen_enemy_capture :: "Board \<Rightarrow> Square \<Rightarrow> Square \<Rightarrow> MoveList \<Rightarrow> MoveList" where
  "gen_enemy_capture b sq to ml =
     (let us = side b; target = piece_at b to; capt = PIECE_TYPE target in
      if target \<noteq> PIECE_EMPTY \<and> PIECE_COLOR target = color_opposite us then
        if SQ_ROW sq = pawn_rank7 us then add_promos b ml sq to capt us
        else movelist_add ml (move_capture sq to PAWN capt)
      else ml)"

definition gen_friendly_capture :: "Board \<Rightarrow> Square \<Rightarrow> Square \<Rightarrow> MoveList \<Rightarrow> MoveList" where
  "gen_friendly_capture b sq to ml =
     (let us = side b; target = piece_at b to; capt = PIECE_TYPE target in
      if game_mod b = MOD_FRIENDLY_FIRE \<and> target \<noteq> PIECE_EMPTY \<and> PIECE_COLOR target = us \<and>
         capt \<noteq> KING \<and> BB_HAS (ff_moved b) to then
        if SQ_ROW sq = pawn_rank7 us then
          fold (\<lambda>p ml. movelist_add ml (promo_move sq to capt p)) [QUEEN, ROOK, BISHOP, KNIGHT] ml
        else movelist_add ml (move_capture sq to PAWN capt)
      else ml)"

definition gen_en_passant :: "Board \<Rightarrow> Square \<Rightarrow> int \<Rightarrow> Square \<Rightarrow> MoveList \<Rightarrow> MoveList" where
  "gen_en_passant b sq nc to ml =
     (if to = ep_square b \<and> ep_square b \<noteq> SQ_NONE then
        let cap = piece_at b (SQ (SQ_ROW sq) nc) in
        if cap \<noteq> PIECE_EMPTY \<and> PIECE_COLOR cap = color_opposite (side b)
        then movelist_add ml (move_encode sq to PAWN (PIECE_TYPE cap) False True False PIECE_NONE)
        else ml
      else ml)"

text \<open>The two \<open>continue\<close> statements for an enemy target that may not be taken.\<close>

definition pawn_blocked :: "Board \<Rightarrow> Square \<Rightarrow> bool" where
  "pawn_blocked b to =
     (let them = color_opposite (side b); target = piece_at b to; capt = PIECE_TYPE target in
      target \<noteq> PIECE_EMPTY \<and> PIECE_COLOR target = them \<and>
      (capt = KING \<and> game_mod b \<noteq> MOD_HEIR \<or> stq_protected b to them capt))"

definition gen_pawn_capture :: "Board \<Rightarrow> Square \<Rightarrow> int \<Rightarrow> MoveList \<Rightarrow> MoveList" where
  "gen_pawn_capture b sq dc ml =
     (let nc = SQ_COL sq + dc; to = SQ (SQ_ROW sq + pawn_dir (side b)) nc in
      if nc < 0 \<or> nc > 7 then ml
      else if \<not> SQ_VALID to then ml
      else if pawn_blocked b to then ml
      else gen_en_passant b sq nc to (gen_friendly_capture b sq to (gen_enemy_capture b sq to ml)))"

definition gen_pawn_sq :: "Board \<Rightarrow> bool \<Rightarrow> Square \<Rightarrow> MoveList \<Rightarrow> MoveList" where
  "gen_pawn_sq b captures_only sq ml =
     (if game_mod b = MOD_MERCENARY then gen_merc_pawn b captures_only sq ml
      else
        let ml = gen_pawn_push b captures_only sq ml in
        if \<not> truce_no_cap b then fold (gen_pawn_capture b sq) [-1, 1] ml else ml)"

definition gen_pawn_moves :: "Board \<Rightarrow> MoveList \<Rightarrow> bool \<Rightarrow> MoveList" where
  "gen_pawn_moves b ml captures_only =
     (let pawns = pieces b (side b) PAWN;
          pawns = (if truce_no_cap b then pawns AND NOT (truce_frozen b) else pawns)
      in fold (gen_pawn_sq b captures_only) (bb_squares pawns) ml)"


section \<open>Pieces\<close>

definition piece_targets :: "Board \<Rightarrow> PieceType \<Rightarrow> Square \<Rightarrow> Bitboard" where
  "piece_targets b pt sq =
     (case pt of
        KNIGHT \<Rightarrow> knight_attacks sq
      | BISHOP \<Rightarrow> bishop_attacks_calc sq (all_bb b)
      | ROOK \<Rightarrow> rook_attacks_calc sq (all_bb b)
      | QUEEN \<Rightarrow> bishop_attacks_calc sq (all_bb b) OR rook_attacks_calc sq (all_bb b)
      | KING \<Rightarrow> king_attacks sq
      | _ \<Rightarrow> BB_EMPTY)"

definition stq_half :: "Color \<Rightarrow> Bitboard" where
  "stq_half us = (if us = WHITE then 0x00000000FFFFFFFF else 0xFFFFFFFF00000000)"

definition gen_stq_prisoner :: "Board \<Rightarrow> bool \<Rightarrow> Square \<Rightarrow> MoveList \<Rightarrow> MoveList" where
  "gen_stq_prisoner b captures_only sq ml =
     (if \<not> captures_only then
        fold (\<lambda>to ml. movelist_add ml (move_simple sq to QUEEN))
          (bb_squares (king_attacks sq AND NOT (all_bb b))) ml
      else ml)"

definition stq_own_targets :: "Board \<Rightarrow> bool \<Rightarrow> Square \<Rightarrow> Bitboard" where
  "stq_own_targets b captures_only sq =
     (let us = side b; them = color_opposite us; half = stq_half us;
          sliding = bishop_attacks_calc sq (all_bb b) OR rook_attacks_calc sq (all_bb b);
          sliding = sliding AND NOT (occupied b us);
          sliding = sliding AND NOT (pieces b them QUEEN);
          own_targets = sliding AND half;
          own_targets = (if captures_only then own_targets AND occupied b them else own_targets);
          them_pq = pieces b them QUEEN AND half
      in if them_pq \<noteq> 0 then
           let psq = bb_lsb them_pq in
           if stq_on_prison psq them \<and> king_attacks sq AND BB_SQ psq \<noteq> 0
           then own_targets OR BB_SQ psq else own_targets
         else own_targets)"

definition gen_stq_escaped :: "Board \<Rightarrow> bool \<Rightarrow> Square \<Rightarrow> MoveList \<Rightarrow> MoveList" where
  "gen_stq_escaped b captures_only sq ml =
     (let ml = fold (\<lambda>to ml. let target = piece_at b to in
              if target \<noteq> PIECE_EMPTY then
                let capt = PIECE_TYPE target in
                if capt = KING then ml else movelist_add ml (move_capture sq to QUEEN capt)
              else movelist_add ml (move_simple sq to QUEEN))
            (bb_squares (stq_own_targets b captures_only sq)) ml
      in if \<not> captures_only then
           fold (\<lambda>to ml. movelist_add ml (move_simple sq to QUEEN))
             (bb_squares (king_attacks sq AND NOT (all_bb b) AND NOT (stq_half (side b)))) ml
         else ml)"

definition mod_targets :: "Board \<Rightarrow> PieceType \<Rightarrow> bool \<Rightarrow> Square \<Rightarrow> Bitboard" where
  "mod_targets b pt captures_only sq =
     (let us = side b; them = color_opposite us;
          targets = piece_targets b pt sq;
          targets = (if game_mod b = MOD_FRIENDLY_FIRE
                     then targets AND NOT ((occupied b us AND NOT (ff_moved b)) OR pieces b us KING)
                     else targets AND NOT (occupied b us));
          targets = (if pt = KING \<and> game_mod b = MOD_HEIR \<and> pieces b them KING \<noteq> 0 then
                       let opp_ksq = bb_lsb (pieces b them KING) in
                       targets AND NOT (king_attacks opp_ksq) AND NOT (BB_SQ opp_ksq)
                     else targets);
          targets = (if pt = KING \<and> game_mod b = MOD_KINGS_BATTLE \<and> \<not> kb_unlocked b
                     then targets AND NOT (pieces b them KING) else targets);
          targets = (if truce_no_cap b then targets AND NOT (occupied b them) else targets)
      in if captures_only then
           if game_mod b = MOD_FRIENDLY_FIRE
           then targets AND (occupied b them OR (occupied b us AND ff_moved b AND NOT (pieces b us KING)))
           else targets AND occupied b them
         else targets)"

definition gen_target :: "Board \<Rightarrow> PieceType \<Rightarrow> Square \<Rightarrow> Square \<Rightarrow> MoveList \<Rightarrow> MoveList" where
  "gen_target b pt sq to ml =
     (let them = color_opposite (side b); target = piece_at b to in
      if target \<noteq> PIECE_EMPTY then
        let capt = PIECE_TYPE target in
        if capt = KING \<and> (game_mod b \<noteq> MOD_HEIR \<or> pt = KING) then ml
        else if stq_protected b to them capt then ml
        else movelist_add ml (move_capture sq to pt capt)
      else movelist_add ml (move_simple sq to pt))"

definition gen_piece_sq :: "Board \<Rightarrow> PieceType \<Rightarrow> bool \<Rightarrow> Square \<Rightarrow> MoveList \<Rightarrow> MoveList" where
  "gen_piece_sq b pt captures_only sq ml =
     (if game_mod b = MOD_SAVE_QUEEN \<and> pt = QUEEN then
        if \<not> stq_is_own_half sq (side b) then gen_stq_prisoner b captures_only sq ml
        else gen_stq_escaped b captures_only sq ml
      else fold (gen_target b pt sq) (bb_squares (mod_targets b pt captures_only sq)) ml)"

definition gen_piece_moves :: "Board \<Rightarrow> MoveList \<Rightarrow> PieceType \<Rightarrow> bool \<Rightarrow> MoveList" where
  "gen_piece_moves b ml pt captures_only =
     (if game_mod b = MOD_KINGS_BATTLE \<and> \<not> kb_unlocked b \<and> pt \<noteq> KING then ml
      else
        let pcs = pieces b (side b) pt;
            pcs = (if truce_no_cap b then pcs AND NOT (truce_frozen b) else pcs)
        in fold (gen_piece_sq b pt captures_only) (bb_squares pcs) ml)"


section \<open>Castling\<close>

definition castle_move :: "Square \<Rightarrow> Square \<Rightarrow> Move" where
  "castle_move from to = move_encode from to KING PIECE_NONE True False False PIECE_NONE"

definition need_check_safe :: "Board \<Rightarrow> Color \<Rightarrow> bool" where
  "need_check_safe b us \<longleftrightarrow>
     \<not> (game_mod b = MOD_HEIR \<and> \<not> heir_check_applies b us) \<and> \<not> truce_no_cap b"

text \<open>
  One castling side: the right, the squares that must be empty, the two squares that must not
  be attacked, and the king's move.
\<close>

definition gen_castle_side ::
    "Board \<Rightarrow> u8 \<Rightarrow> Square list \<Rightarrow> Square list \<Rightarrow> Color \<Rightarrow> Square \<Rightarrow> Square \<Rightarrow> MoveList \<Rightarrow> MoveList" where
  "gen_castle_side b right empties safe them from to ml =
     (if castling b AND right \<noteq> 0 \<and> (\<forall>s \<in> set empties. piece_at b s = PIECE_EMPTY) \<and>
         (\<not> need_check_safe b (side b) \<or> (\<forall>s \<in> set safe. \<not> board_square_attacked b s them))
      then movelist_add ml (castle_move from to) else ml)"

text \<open>The three early returns of \<open>gen_castling\<close>.\<close>

definition castling_blocked :: "Board \<Rightarrow> bool" where
  "castling_blocked b =
     (let us = side b in
      game_mod b = MOD_KINGS_BATTLE \<and> \<not> kb_unlocked b \<or>
      truce_no_cap b \<and> truce_frozen b AND BB_SQ (bb_lsb (pieces b us KING)) \<noteq> 0 \<or>
      need_check_safe b us \<and> board_in_check b us)"

definition gen_castling :: "Board \<Rightarrow> MoveList \<Rightarrow> MoveList" where
  "gen_castling b ml =
     (if castling_blocked b then ml
      else if side b = WHITE then
        let ml = gen_castle_side b CASTLE_WK [SQ 0 5, SQ 0 6] [SQ 0 5, SQ 0 6] BLACK (SQ 0 4) (SQ 0 6) ml
        in gen_castle_side b CASTLE_WQ [SQ 0 1, SQ 0 2, SQ 0 3] [SQ 0 2, SQ 0 3] BLACK (SQ 0 4) (SQ 0 2) ml
      else
        let ml = gen_castle_side b CASTLE_BK [SQ 7 5, SQ 7 6] [SQ 7 5, SQ 7 6] WHITE (SQ 7 4) (SQ 7 6) ml
        in gen_castle_side b CASTLE_BQ [SQ 7 1, SQ 7 2, SQ 7 3] [SQ 7 2, SQ 7 3] WHITE (SQ 7 4) (SQ 7 2) ml)"

definition pseudo_moves :: "Board \<Rightarrow> MoveList" where
  "pseudo_moves b =
     (let ml = gen_pawn_moves b movelist_clear False;
          ml = gen_piece_moves b ml KNIGHT False;
          ml = gen_piece_moves b ml BISHOP False;
          ml = gen_piece_moves b ml ROOK False;
          ml = gen_piece_moves b ml QUEEN False;
          ml = gen_piece_moves b ml KING False
      in gen_castling b ml)"

definition pseudo_captures :: "Board \<Rightarrow> MoveList" where
  "pseudo_captures b =
     (let ml = gen_pawn_moves b movelist_clear True;
          ml = gen_piece_moves b ml KNIGHT True;
          ml = gen_piece_moves b ml BISHOP True;
          ml = gen_piece_moves b ml ROOK True;
          ml = gen_piece_moves b ml QUEEN True
      in gen_piece_moves b ml KING True)"


section \<open>Generators as lists of moves\<close>

definition add_moves :: "MoveList \<Rightarrow> Move list \<Rightarrow> MoveList" where
  "add_moves ml ms = fold (\<lambda>m ml. movelist_add ml m) ms ml"

lemma add_moves_simps [simp]:
  "add_moves ml [] = ml" "add_moves ml (m # ms) = add_moves (movelist_add ml m) ms"
  "add_moves (add_moves ml ms) ms' = add_moves ml (ms @ ms')"
  by (simp_all add: add_moves_def)

lemma add_moves_take: "length ml \<le> MAX_MOVES \<Longrightarrow> add_moves ml ms = take MAX_MOVES (ml @ ms)"
  unfolding add_moves_def by (rule fold_movelist_add)

text \<open>
  A generator appends to the list of moves it is given, and what it appends does not depend
  on that list.  Running it over several squares appends the concatenation.
\<close>

locale appender =
  fixes gen :: "'a \<Rightarrow> MoveList \<Rightarrow> MoveList" and moves :: "'a \<Rightarrow> Move list"
  assumes appends: "gen x ml = add_moves ml (moves x)"
begin

lemma fold_appends: "fold gen xs ml = add_moves ml (concat (map moves xs))"
  by (induction xs arbitrary: ml) (simp_all add: appends)

end

interpretation promo_app: appender
  "\<lambda>p ml. movelist_add ml (promo_move sq to capt p)" "\<lambda>p. [promo_move sq to capt p]" for sq to capt
  by unfold_locales simp

interpretation quiet_app: appender
  "\<lambda>to ml. movelist_add ml (move_simple sq to pt)" "\<lambda>to. [move_simple sq to pt]" for sq pt
  by unfold_locales simp

definition promo_types :: "Board \<Rightarrow> Color \<Rightarrow> Square \<Rightarrow> PieceType list" where
  "promo_types b us to =
     (let has_king = (pieces b us KING \<noteq> BB_EMPTY) in
      if game_mod b = MOD_HEIR then
        if \<not> has_king \<and> \<not> heir_promoted b us then [KING]
        else [QUEEN, ROOK, BISHOP, KNIGHT] @ (if \<not> heir_promoted b us then [KING] else [])
      else if game_mod b = MOD_SUCCESSION then
        let king = (if \<not> has_king \<and> \<not> board_square_attacked b to (color_opposite us) then [KING] else []) in
        if bb_popcount (pieces b us PAWN) \<le> 1 \<and> \<not> has_king then king
        else [ROOK, BISHOP, KNIGHT] @ king
      else if game_mod b = MOD_SAVE_QUEEN then [ROOK, BISHOP, KNIGHT]
      else [QUEEN, ROOK, BISHOP, KNIGHT])"

lemma add_promos_moves:
  "add_promos b ml from to capt us = add_moves ml (map (promo_move from to capt) (promo_types b us to))"
  by (simp add: add_promos_def succ_add_promos_def promo_types_def Let_def)

definition merc_moves_at :: "Board \<Rightarrow> bool \<Rightarrow> Square \<Rightarrow> Move list" where
  "merc_moves_at b captures_only sq =
     (if \<not> captures_only then map (\<lambda>to. move_simple sq to PAWN) (bb_squares (king_attacks sq AND NOT (all_bb b)))
      else []) @
     (if \<not> truce_no_cap b then
        map (\<lambda>to. move_capture sq to PAWN (PIECE_TYPE (piece_at b to)))
          (filter (\<lambda>to. PIECE_TYPE (piece_at b to) \<noteq> KING)
             (bb_squares (king_attacks sq AND occupied b (color_opposite (side b)))))
      else [])"

definition push_moves_at :: "Board \<Rightarrow> bool \<Rightarrow> Square \<Rightarrow> Move list" where
  "push_moves_at b captures_only sq =
     (let us = side b; r = SQ_ROW sq; c = SQ_COL sq; one = SQ (r + pawn_dir us) c;
          two = SQ (r + 2 * pawn_dir us) c in
      if \<not> captures_only \<and> SQ_VALID one \<and> piece_at b one = PIECE_EMPTY then
        if r = pawn_rank7 us then map (promo_move sq one PIECE_NONE) (promo_types b us one)
        else move_simple sq one PAWN #
          (if r = pawn_rank2 us \<and> piece_at b two = PIECE_EMPTY then [move_simple sq two PAWN] else [])
      else [])"

definition enemy_moves_at :: "Board \<Rightarrow> Square \<Rightarrow> Square \<Rightarrow> Move list" where
  "enemy_moves_at b sq to =
     (let us = side b; target = piece_at b to; capt = PIECE_TYPE target in
      if target \<noteq> PIECE_EMPTY \<and> PIECE_COLOR target = color_opposite us then
        if SQ_ROW sq = pawn_rank7 us then map (promo_move sq to capt) (promo_types b us to)
        else [move_capture sq to PAWN capt]
      else [])"

definition friendly_moves_at :: "Board \<Rightarrow> Square \<Rightarrow> Square \<Rightarrow> Move list" where
  "friendly_moves_at b sq to =
     (let us = side b; target = piece_at b to; capt = PIECE_TYPE target in
      if game_mod b = MOD_FRIENDLY_FIRE \<and> target \<noteq> PIECE_EMPTY \<and> PIECE_COLOR target = us \<and>
         capt \<noteq> KING \<and> BB_HAS (ff_moved b) to then
        if SQ_ROW sq = pawn_rank7 us then map (promo_move sq to capt) [QUEEN, ROOK, BISHOP, KNIGHT]
        else [move_capture sq to PAWN capt]
      else [])"

definition ep_moves_at :: "Board \<Rightarrow> Square \<Rightarrow> int \<Rightarrow> Square \<Rightarrow> Move list" where
  "ep_moves_at b sq nc to =
     (let cap = piece_at b (SQ (SQ_ROW sq) nc) in
      if to = ep_square b \<and> ep_square b \<noteq> SQ_NONE \<and> cap \<noteq> PIECE_EMPTY \<and>
         PIECE_COLOR cap = color_opposite (side b)
      then [move_encode sq to PAWN (PIECE_TYPE cap) False True False PIECE_NONE] else [])"

definition capture_moves_at :: "Board \<Rightarrow> Square \<Rightarrow> int \<Rightarrow> Move list" where
  "capture_moves_at b sq dc =
     (let nc = SQ_COL sq + dc; to = SQ (SQ_ROW sq + pawn_dir (side b)) nc in
      if nc < 0 \<or> nc > 7 \<or> \<not> SQ_VALID to \<or> pawn_blocked b to then []
      else enemy_moves_at b sq to @ friendly_moves_at b sq to @ ep_moves_at b sq nc to)"

definition pawn_moves_at :: "Board \<Rightarrow> bool \<Rightarrow> Square \<Rightarrow> Move list" where
  "pawn_moves_at b captures_only sq =
     (if game_mod b = MOD_MERCENARY then merc_moves_at b captures_only sq
      else push_moves_at b captures_only sq @
        (if \<not> truce_no_cap b then capture_moves_at b sq (- 1) @ capture_moves_at b sq 1 else []))"

lemma fold_if_add:
  "fold (\<lambda>x ml. if P x then ml else movelist_add ml (f x)) xs ml = add_moves ml (map f (filter (\<lambda>x. \<not> P x) xs))"
  by (induction xs arbitrary: ml) simp_all

interpretation pawn_capture_app: appender "gen_pawn_capture b sq" "capture_moves_at b sq" for b sq
proof
  fix dc ml
  have 1: "gen_enemy_capture b sq to ml = add_moves ml (enemy_moves_at b sq to)" for to ml
    by (simp add: gen_enemy_capture_def enemy_moves_at_def Let_def add_promos_moves)
  have 2: "gen_friendly_capture b sq to ml = add_moves ml (friendly_moves_at b sq to)" for to ml
    by (simp add: gen_friendly_capture_def friendly_moves_at_def Let_def)
  have 3: "gen_en_passant b sq nc to ml = add_moves ml (ep_moves_at b sq nc to)" for nc to ml
    by (simp add: gen_en_passant_def ep_moves_at_def Let_def)
  show "gen_pawn_capture b sq dc ml = add_moves ml (capture_moves_at b sq dc)"
    by (simp add: gen_pawn_capture_def capture_moves_at_def Let_def 1 2 3)
qed

interpretation pawn_app: appender "gen_pawn_sq b captures_only" "pawn_moves_at b captures_only"
  for b captures_only
proof
  fix sq ml
  have merc: "gen_merc_pawn b captures_only sq ml = add_moves ml (merc_moves_at b captures_only sq)" for ml
    unfolding gen_merc_pawn_def merc_moves_at_def Let_def quiet_app.fold_appends fold_if_add
    by (simp add: concat_map_singleton)
  have push: "gen_pawn_push b captures_only sq ml = add_moves ml (push_moves_at b captures_only sq)" for ml
    unfolding gen_pawn_push_def push_moves_at_def Let_def add_promos_moves by simp
  show "gen_pawn_sq b captures_only sq ml = add_moves ml (pawn_moves_at b captures_only sq)"
    unfolding gen_pawn_sq_def pawn_moves_at_def Let_def merc push pawn_capture_app.fold_appends
    by simp
qed


definition target_moves_at :: "Board \<Rightarrow> PieceType \<Rightarrow> Square \<Rightarrow> Square \<Rightarrow> Move list" where
  "target_moves_at b pt sq to =
     (let target = piece_at b to; capt = PIECE_TYPE target in
      if target = PIECE_EMPTY then [move_simple sq to pt]
      else if capt = KING \<and> (game_mod b \<noteq> MOD_HEIR \<or> pt = KING) \<or>
              stq_protected b to (color_opposite (side b)) capt then []
      else [move_capture sq to pt capt])"

definition escaped_moves_at :: "Board \<Rightarrow> Square \<Rightarrow> Square \<Rightarrow> Move list" where
  "escaped_moves_at b sq to =
     (let target = piece_at b to; capt = PIECE_TYPE target in
      if target = PIECE_EMPTY then [move_simple sq to QUEEN]
      else if capt = KING then [] else [move_capture sq to QUEEN capt])"

definition piece_moves_at :: "Board \<Rightarrow> PieceType \<Rightarrow> bool \<Rightarrow> Square \<Rightarrow> Move list" where
  "piece_moves_at b pt captures_only sq =
     (if game_mod b = MOD_SAVE_QUEEN \<and> pt = QUEEN then
        if \<not> stq_is_own_half sq (side b) then
          (if captures_only then []
           else map (\<lambda>to. move_simple sq to QUEEN) (bb_squares (king_attacks sq AND NOT (all_bb b))))
        else
          concat (map (escaped_moves_at b sq) (bb_squares (stq_own_targets b captures_only sq))) @
          (if captures_only then []
           else map (\<lambda>to. move_simple sq to QUEEN)
             (bb_squares (king_attacks sq AND NOT (all_bb b) AND NOT (stq_half (side b)))))
      else concat (map (target_moves_at b pt sq) (bb_squares (mod_targets b pt captures_only sq))))"

interpretation target_app: appender "gen_target b pt sq" "target_moves_at b pt sq" for b pt sq
  by unfold_locales (auto simp: gen_target_def target_moves_at_def Let_def)

interpretation escaped_app: appender
  "\<lambda>to ml. if piece_at b to \<noteq> PIECE_EMPTY then
       if PIECE_TYPE (piece_at b to) = KING then ml
       else movelist_add ml (move_capture sq to QUEEN (PIECE_TYPE (piece_at b to)))
     else movelist_add ml (move_simple sq to QUEEN)"
  "escaped_moves_at b sq" for b sq
  by unfold_locales (simp add: escaped_moves_at_def Let_def)

interpretation piece_app: appender "gen_piece_sq b pt captures_only" "piece_moves_at b pt captures_only"
  for b pt captures_only
proof
  fix sq ml
  have 1: "gen_stq_prisoner b captures_only sq ml = add_moves ml
      (if captures_only then []
       else map (\<lambda>to. move_simple sq to QUEEN) (bb_squares (king_attacks sq AND NOT (all_bb b))))" for ml
    unfolding gen_stq_prisoner_def quiet_app.fold_appends by (simp add: concat_map_singleton)
  have 2: "gen_stq_escaped b captures_only sq ml = add_moves ml
      (concat (map (escaped_moves_at b sq) (bb_squares (stq_own_targets b captures_only sq))) @
       (if captures_only then []
        else map (\<lambda>to. move_simple sq to QUEEN)
          (bb_squares (king_attacks sq AND NOT (all_bb b) AND NOT (stq_half (side b))))))" for ml
    unfolding gen_stq_escaped_def Let_def quiet_app.fold_appends escaped_app.fold_appends
    by (simp add: concat_map_singleton)
  show "gen_piece_sq b pt captures_only sq ml = add_moves ml (piece_moves_at b pt captures_only sq)"
    unfolding gen_piece_sq_def piece_moves_at_def target_app.fold_appends 1 2 by simp
qed

definition mobile :: "Board \<Rightarrow> PieceType \<Rightarrow> Square list" where
  "mobile b pt =
     (if game_mod b = MOD_KINGS_BATTLE \<and> \<not> kb_unlocked b \<and> pt \<notin> {PAWN, KING} then []
      else bb_squares (if truce_no_cap b then pieces b (side b) pt AND NOT (truce_frozen b)
                       else pieces b (side b) pt))"

lemma gen_pawn_moves_list:
  "gen_pawn_moves b ml captures_only =
     add_moves ml (concat (map (pawn_moves_at b captures_only) (mobile b PAWN)))"
  unfolding gen_pawn_moves_def Let_def pawn_app.fold_appends mobile_def by simp

lemma gen_piece_moves_list:
  assumes "pt \<noteq> PAWN"
  shows "gen_piece_moves b ml pt captures_only =
     add_moves ml (concat (map (piece_moves_at b pt captures_only) (mobile b pt)))"
  unfolding gen_piece_moves_def Let_def piece_app.fold_appends mobile_def using assms by simp

definition castle_side_ok :: "Board \<Rightarrow> u8 \<Rightarrow> Square list \<Rightarrow> Square list \<Rightarrow> Color \<Rightarrow> bool" where
  "castle_side_ok b right empties safe them \<longleftrightarrow>
     castling b AND right \<noteq> 0 \<and> (\<forall>s \<in> set empties. piece_at b s = PIECE_EMPTY) \<and>
     (\<not> need_check_safe b (side b) \<or> (\<forall>s \<in> set safe. \<not> board_square_attacked b s them))"

definition castling_moves :: "Board \<Rightarrow> Move list" where
  "castling_moves b =
     (if castling_blocked b then []
      else if side b = WHITE then
        (if castle_side_ok b CASTLE_WK [SQ 0 5, SQ 0 6] [SQ 0 5, SQ 0 6] BLACK
         then [castle_move (SQ 0 4) (SQ 0 6)] else []) @
        (if castle_side_ok b CASTLE_WQ [SQ 0 1, SQ 0 2, SQ 0 3] [SQ 0 2, SQ 0 3] BLACK
         then [castle_move (SQ 0 4) (SQ 0 2)] else [])
      else
        (if castle_side_ok b CASTLE_BK [SQ 7 5, SQ 7 6] [SQ 7 5, SQ 7 6] WHITE
         then [castle_move (SQ 7 4) (SQ 7 6)] else []) @
        (if castle_side_ok b CASTLE_BQ [SQ 7 1, SQ 7 2, SQ 7 3] [SQ 7 2, SQ 7 3] WHITE
         then [castle_move (SQ 7 4) (SQ 7 2)] else []))"

lemma gen_castling_list: "gen_castling b ml = add_moves ml (castling_moves b)"
proof -
  have side: "gen_castle_side b right empties safe them k to ml =
      add_moves ml (if castle_side_ok b right empties safe them then [castle_move k to] else [])"
    for right empties safe them k to ml
    by (simp only: gen_castle_side_def castle_side_ok_def add_moves_simps if_distrib [of "add_moves ml"])
  show ?thesis
    unfolding gen_castling_def castling_moves_def Let_def side
    by (cases "castling_blocked b"; cases "side b = WHITE"; simp only: add_moves_simps if_True if_False simp_thms)
qed

text \<open>All pseudo-legal moves of a position, in generation order and without the capacity.\<close>

definition all_pseudo :: "Board \<Rightarrow> Move list" where
  "all_pseudo b =
     concat (map (pawn_moves_at b False) (mobile b PAWN)) @
     concat (map (\<lambda>pt. concat (map (piece_moves_at b pt False) (mobile b pt)))
       [KNIGHT, BISHOP, ROOK, QUEEN, KING]) @
     castling_moves b"

definition all_captures :: "Board \<Rightarrow> Move list" where
  "all_captures b =
     concat (map (pawn_moves_at b True) (mobile b PAWN)) @
     concat (map (\<lambda>pt. concat (map (piece_moves_at b pt True) (mobile b pt)))
       [KNIGHT, BISHOP, ROOK, QUEEN, KING])"

lemma pseudo_moves_take: "pseudo_moves b = take MAX_MOVES (all_pseudo b)"
proof -
  have "pseudo_moves b = add_moves movelist_clear (all_pseudo b)"
    by (simp add: pseudo_moves_def all_pseudo_def Let_def gen_pawn_moves_list gen_piece_moves_list
        gen_castling_list)
  then show ?thesis by (simp add: add_moves_take movelist_clear_def)
qed

lemma pseudo_captures_take: "pseudo_captures b = take MAX_MOVES (all_captures b)"
proof -
  have "pseudo_captures b = add_moves movelist_clear (all_captures b)"
    by (simp add: pseudo_captures_def all_captures_def Let_def gen_pawn_moves_list gen_piece_moves_list)
  then show ?thesis by (simp add: add_moves_take movelist_clear_def)
qed


section \<open>Generated moves fit the board\<close>

text \<open>
  The en-passant square is the empty square behind an enemy pawn that has just advanced two
  squares.
\<close>

definition ep_ok :: "Board \<Rightarrow> bool" where
  "ep_ok b \<longleftrightarrow>
     ep_square b = SQ_NONE \<or>
     (SQ_VALID (ep_square b) \<and> SQ_ROW (ep_square b) = (if side b = WHITE then 5 else 2) \<and>
      piece_at b (ep_square b) = PIECE_EMPTY \<and>
      piece_at b (SQ (SQ_ROW (ep_square b) - pawn_dir (side b)) (SQ_COL (ep_square b))) =
        PIECE_MAKE (color_opposite (side b)) PAWN)"

text \<open>A castling right implies that king and rook still stand on their home squares.\<close>

definition right_ok :: "Board \<Rightarrow> u8 \<Rightarrow> Color \<Rightarrow> Square \<Rightarrow> Square \<Rightarrow> bool" where
  "right_ok b right c ksq rsq \<longleftrightarrow>
     (castling b AND right \<noteq> 0 \<longrightarrow> piece_at b ksq = PIECE_MAKE c KING \<and> piece_at b rsq = PIECE_MAKE c ROOK)"

definition rights_ok :: "Board \<Rightarrow> bool" where
  "rights_ok b \<longleftrightarrow>
     right_ok b CASTLE_WK WHITE (SQ 0 4) (SQ 0 7) \<and> right_ok b CASTLE_WQ WHITE (SQ 0 4) (SQ 0 0) \<and>
     right_ok b CASTLE_BK BLACK (SQ 7 4) (SQ 7 7) \<and> right_ok b CASTLE_BQ BLACK (SQ 7 4) (SQ 7 0)"

definition gen_inv :: "Board \<Rightarrow> bool" where
  "gen_inv b \<longleftrightarrow> wf_place b \<and> side b \<in> {WHITE, BLACK} \<and> ep_ok b \<and> rights_ok b"

text \<open>
  What every generated move satisfies: it fits the board (\<open>move_ok\<close>), its captured field
  names the piece that is taken, it takes an own piece only in Friendly Fire and a king only
  in Heir, an en-passant move takes a pawn, a two-square pawn move starts on the second rank and
  passes over an empty square, castling moves the side's own king and rook, and only a pawn
  promotes, to a king only in Heir and Succession.
\<close>

definition gen_ok :: "Board \<Rightarrow> Move \<Rightarrow> bool" where
  "gen_ok b m =
     (let us = side b; from = MOVE_FROM m; to = MOVE_TO m; cap = captured_of b m in
      move_ok b m \<and>
      MOVE_CAPTURED m = PIECE_TYPE cap \<and>
      (cap \<noteq> PIECE_EMPTY \<and> game_mod b \<noteq> MOD_FRIENDLY_FIRE \<longrightarrow> PIECE_COLOR cap = color_opposite us) \<and>
      (PIECE_TYPE cap = KING \<longrightarrow> game_mod b = MOD_HEIR) \<and>
      (MOVE_IS_EP m \<longrightarrow> MOVE_PIECE m = PAWN \<and> cap = PIECE_MAKE (color_opposite us) PAWN) \<and>
      (MOVE_PIECE m = PAWN \<and> game_mod b \<noteq> MOD_MERCENARY \<and> (to - from = 16 \<or> to - from = -16) \<longrightarrow>
         cap = PIECE_EMPTY \<and> \<not> MOVE_IS_EP m \<and> \<not> MOVE_IS_PROMO m \<and>
         SQ_ROW from = pawn_rank2 us \<and> to - from = 16 * pawn_dir us \<and>
         piece_at b (from + 8 * pawn_dir us) = PIECE_EMPTY) \<and>
      (MOVE_IS_CASTLE m \<longrightarrow> MOVE_PIECE m = KING \<and>
         (\<exists>rf rt. castle_rook to = Some (rf, rt, us))) \<and>
      (MOVE_IS_PROMO m \<longrightarrow> MOVE_PIECE m = PAWN \<and>
         (MOVE_PROMO_TYPE m = KING \<longrightarrow> game_mod b \<in> {MOD_HEIR, MOD_SUCCESSION})))"

lemma move_ok_simple:
  assumes "side b \<in> {WHITE, BLACK}" "SQ_VALID sq" "SQ_VALID to" "sq \<noteq> to" "pt \<in> set piece_types"
    "piece_at b sq = PIECE_MAKE (side b) pt" "piece_at b to = PIECE_EMPTY"
  shows "move_ok b (move_simple sq to pt)"
  using assms by (simp add: move_ok_def Let_def MOVE_IS_CAPTURE_def)

lemma move_ok_capture:
  assumes "side b \<in> {WHITE, BLACK}" "SQ_VALID sq" "SQ_VALID to" "sq \<noteq> to" "pt \<in> set piece_types"
    "piece_at b sq = PIECE_MAKE (side b) pt" "capt \<noteq> PIECE_NONE"
  shows "move_ok b (move_capture sq to pt capt)"
  using assms by (simp add: move_ok_def Let_def MOVE_IS_CAPTURE_def)

lemma move_ok_promo:
  assumes "side b \<in> {WHITE, BLACK}" "SQ_VALID sq" "SQ_VALID to" "sq \<noteq> to"
    "piece_at b sq = PIECE_MAKE (side b) PAWN" "p \<in> set piece_types"
    "capt = PIECE_NONE \<longrightarrow> piece_at b to = PIECE_EMPTY"
  shows "move_ok b (promo_move sq to capt p)"
  using assms by (simp add: promo_move_def move_ok_def Let_def MOVE_IS_CAPTURE_def)

lemma set_promo_types: "set (promo_types b us to) \<subseteq> {QUEEN, ROOK, BISHOP, KNIGHT, KING}"
  by (auto simp: promo_types_def Let_def)

lemma promo_types_king: "KING \<in> set (promo_types b us to) \<Longrightarrow> game_mod b \<in> {MOD_HEIR, MOD_SUCCESSION}"
  by (auto simp: promo_types_def Let_def split: if_splits)

lemma wf_target:
  assumes "wf_place b" "SQ_VALID to" "piece_at b to \<noteq> PIECE_EMPTY"
  shows "PIECE_TYPE (piece_at b to) \<in> set piece_types" "PIECE_TYPE (piece_at b to) \<noteq> PIECE_NONE"
    "PIECE_COLOR (piece_at b to) \<in> {WHITE, BLACK}"
    "piece_at b to = PIECE_MAKE (PIECE_COLOR (piece_at b to)) (PIECE_TYPE (piece_at b to))"
  using wf_place_piece_ok [OF assms(1,2)] assms(3) by (auto elim: piece_ok_cases)

lemma mobileD:
  assumes "wf_place b" "sq \<in> set (mobile b pt)"
  shows "SQ_VALID sq" "piece_at b sq = PIECE_MAKE (side b) pt" "piece_at b sq \<noteq> PIECE_EMPTY"
proof -
  show v: "SQ_VALID sq" using assms(2) by (auto simp: mobile_def set_bb_squares split: if_splits)
  have "bit (pieces b (side b) pt) (nat sq)"
    using assms(2) by (auto simp: mobile_def set_bb_squares bit_and_iff split: if_splits)
  then show "piece_at b sq = PIECE_MAKE (side b) pt" "piece_at b sq \<noteq> PIECE_EMPTY"
    using wf_place_bits_sq(1) [OF assms(1) v] by blast+
qed

text \<open>No piece attacks its own square.\<close>

lemma slides_irrefl:
  assumes "(0, 0) \<notin> set dirs" "SQ_VALID a"
  shows "\<not> slides dirs occ a a"
proof
  assume "slides dirs occ a a"
  then obtain dr dc k where d: "(dr, dc) \<in> set dirs" "k \<in> {1..8}"
      "clear_ray occ (SQ_ROW a) (SQ_COL a) dr dc k"
      "a = SQ (SQ_ROW a + int k * dr) (SQ_COL a + int k * dc)"
    unfolding slides_def by blast
  then have "on_board (SQ_ROW a + int k * dr) (SQ_COL a + int k * dc)" by (simp add: clear_ray_def)
  from on_board_SQ(3,4) [OF this] have "int k * dr = 0" "int k * dc = 0" using d(4) by simp_all
  with d(1,2) assms(1) show False by auto
qed

lemma piece_targets_irrefl:
  assumes "SQ_VALID sq"
  shows "\<not> bit (piece_targets b pt sq) (nat sq)" "\<not> bit (king_attacks sq) (nat sq)"
proof -
  have s: "\<not> slides bishop_dirs occ sq sq" "\<not> slides rook_dirs occ sq sq" for occ
    by (rule slides_irrefl [OF _ assms], simp add: bishop_dirs_def rook_dirs_def)+
  have k: "\<not> bit (king_attacks sq) (nat sq)" "\<not> bit (knight_attacks sq) (nat sq)"
    using assms by (simp_all add: bit_king_attacks bit_knight_attacks king_step_def knight_step_def)
  show "\<not> bit (king_attacks sq) (nat sq)" by (rule k)
  show "\<not> bit (piece_targets b pt sq) (nat sq)"
    using s k assms by (cases pt) (simp_all add: piece_targets_def bishop_attacks_calc_def
        rook_attacks_calc_def bit_slider_attacks bit_or_iff BB_EMPTY_def)
qed


definition pawn_dist_ok :: "PieceType \<Rightarrow> Square \<Rightarrow> Square \<Rightarrow> bool" where
  "pawn_dist_ok pt sq to \<longleftrightarrow> (pt = PAWN \<longrightarrow> to - sq \<noteq> 16 \<and> to - sq \<noteq> - 16)"

lemma gen_ok_simple:
  assumes "side b \<in> {WHITE, BLACK}" "SQ_VALID sq" "SQ_VALID to" "sq \<noteq> to" "pt \<in> set piece_types"
    "piece_at b sq = PIECE_MAKE (side b) pt" "piece_at b to = PIECE_EMPTY"
    "game_mod b \<noteq> MOD_MERCENARY \<Longrightarrow> pawn_dist_ok pt sq to \<or>
       SQ_ROW sq = pawn_rank2 (side b) \<and> to - sq = 16 * pawn_dir (side b) \<and>
       piece_at b (sq + 8 * pawn_dir (side b)) = PIECE_EMPTY"
  shows "gen_ok b (move_simple sq to pt)"
  using move_ok_simple [OF assms(1-7)] assms
  by (auto simp: gen_ok_def Let_def captured_of_def pawn_dist_ok_def)

lemma gen_ok_capture:
  assumes "wf_place b" "side b \<in> {WHITE, BLACK}" "SQ_VALID sq" "SQ_VALID to" "sq \<noteq> to"
    "pt \<in> set piece_types" "piece_at b sq = PIECE_MAKE (side b) pt" "piece_at b to \<noteq> PIECE_EMPTY"
    "PIECE_COLOR (piece_at b to) = color_opposite (side b) \<or> game_mod b = MOD_FRIENDLY_FIRE"
    "PIECE_TYPE (piece_at b to) = KING \<longrightarrow> game_mod b = MOD_HEIR"
    "game_mod b \<noteq> MOD_MERCENARY \<longrightarrow> pawn_dist_ok pt sq to"
  shows "gen_ok b (move_capture sq to pt (PIECE_TYPE (piece_at b to)))"
  using move_ok_capture [OF assms(2-7) wf_target(2) [OF assms(1,4,8)]] assms wf_target(2) [OF assms(1,4,8)]
  by (auto simp: gen_ok_def Let_def captured_of_def pawn_dist_ok_def)

lemma gen_ok_promo:
  assumes "wf_place b" "side b \<in> {WHITE, BLACK}" "SQ_VALID sq" "SQ_VALID to" "sq \<noteq> to"
    "piece_at b sq = PIECE_MAKE (side b) PAWN" "p \<in> set piece_types"
    "piece_at b to \<noteq> PIECE_EMPTY \<longrightarrow>
       PIECE_COLOR (piece_at b to) = color_opposite (side b) \<or> game_mod b = MOD_FRIENDLY_FIRE"
    "PIECE_TYPE (piece_at b to) = KING \<longrightarrow> game_mod b = MOD_HEIR" "pawn_dist_ok PAWN sq to"
    "capt = PIECE_TYPE (piece_at b to)" "p = KING \<longrightarrow> game_mod b \<in> {MOD_HEIR, MOD_SUCCESSION}"
  shows "gen_ok b (promo_move sq to capt p)"
proof -
  have n: "capt = PIECE_NONE \<longleftrightarrow> piece_at b to = PIECE_EMPTY"
    using assms(11) wf_target(2) [OF assms(1,4)] by auto
  then have "move_ok b (promo_move sq to capt p)"
    by (intro move_ok_promo assms) simp
  then show ?thesis
    using assms n by (auto simp: gen_ok_def Let_def captured_of_def promo_move_def pawn_dist_ok_def)
qed


lemma pawn_dest:
  assumes "SQ_VALID sq" "0 \<le> nc" "nc \<le> 7" "k \<in> {1, 2}"
  shows "SQ (SQ_ROW sq + k * pawn_dir us) nc = sq + 8 * k * pawn_dir us + (nc - SQ_COL sq)"
proof -
  have "sq = SQ_ROW sq * 8 + SQ_COL sq" by (simp add: SQ_ROW_div SQ_COL_mod)
  moreover have "SQ (SQ_ROW sq + k * pawn_dir us) nc = (SQ_ROW sq + k * pawn_dir us) * 8 + nc"
    using assms SQ_ROW_bounds [OF assms(1)] by (intro SQ_in_range) (auto simp: pawn_dir_def)
  ultimately show ?thesis by (simp add: algebra_simps)
qed

lemma pawn_one:
  assumes "SQ_VALID sq" "0 \<le> nc" "nc \<le> 7"
  shows "SQ (SQ_ROW sq + pawn_dir us) nc = sq + 8 * pawn_dir us + (nc - SQ_COL sq)"
  using pawn_dest [OF assms, of 1 us] by simp

lemma pawn_one_dist:
  assumes "SQ_VALID sq" "0 \<le> nc" "nc \<le> 7" "\<bar>nc - SQ_COL sq\<bar> \<le> 1"
    "to = SQ (SQ_ROW sq + pawn_dir us) nc"
  shows "sq \<noteq> to" "pawn_dist_ok PAWN sq to"
  using assms(4) unfolding assms(5) pawn_one [OF assms(1-3)]
  by (auto simp: pawn_dist_ok_def pawn_dir_def)

lemma pawn_one_rc:
  assumes "SQ_VALID sq" "0 \<le> nc" "nc \<le> 7" "SQ_VALID to" "to = SQ (SQ_ROW sq + pawn_dir us) nc"
  shows "SQ_ROW to = SQ_ROW sq + pawn_dir us" "SQ_COL to = nc"
proof -
  have "to = (SQ_ROW sq + pawn_dir us) * 8 + nc"
    unfolding assms(5) using assms(2,3) SQ_ROW_bounds [OF assms(1)]
    by (intro SQ_in_range) (auto simp: pawn_dir_def)
  then have "on_board (SQ_ROW sq + pawn_dir us) nc"
    using assms(2-4) by (auto simp: on_board_def SQ_VALID_def)
  then show "SQ_ROW to = SQ_ROW sq + pawn_dir us" "SQ_COL to = nc"
    unfolding assms(5) by (simp_all add: on_board_SQ(3,4))
qed

lemma pawn_facts:
  assumes "gen_inv b" "sq \<in> set (mobile b PAWN)"
  shows "wf_place b" "side b \<in> {WHITE, BLACK}" "SQ_VALID sq" "piece_at b sq = PIECE_MAKE (side b) PAWN"
  using assms mobileD(1,2) [of b sq PAWN] by (simp_all add: gen_inv_def)

lemma push_gen_ok:
  assumes "gen_inv b" "sq \<in> set (mobile b PAWN)" and m: "m \<in> set (push_moves_at b co sq)"
  shows "gen_ok b m"
proof -
  let ?d = "pawn_dir (side b)"
  let ?one = "SQ (SQ_ROW sq + ?d) (SQ_COL sq)" and ?two = "SQ (SQ_ROW sq + 2 * ?d) (SQ_COL sq)"
  note f = pawn_facts [OF assms(1,2)] and c = SQ_COL_bounds [of sq]
  have one: "?one = sq + 8 * ?d" and two: "?two = sq + 16 * ?d"
    using pawn_one [OF f(3)] pawn_dest [OF f(3), of _ 2] c by simp_all
  have d: "sq \<noteq> ?one" "pawn_dist_ok PAWN sq ?one"
    using pawn_one_dist [OF f(3) _ _ _ refl, of "SQ_COL sq"] c by simp_all
  from m have v: "SQ_VALID ?one" "piece_at b ?one = PIECE_EMPTY"
    by (auto simp: push_moves_at_def Let_def split: if_splits)
  consider p where "m = promo_move sq ?one PIECE_NONE p" "p \<in> set (promo_types b (side b) ?one)"
    | "m = move_simple sq ?one PAWN"
    | "m = move_simple sq ?two PAWN" "SQ_ROW sq = pawn_rank2 (side b)" "piece_at b ?two = PIECE_EMPTY"
    using m by (auto simp: push_moves_at_def Let_def split: if_splits)
  then show ?thesis
  proof cases
    case 1
    have "p \<in> set piece_types" using 1(2) set_promo_types [of b "side b" ?one] by auto
    then show ?thesis
      unfolding 1(1) using f v d promo_types_king 1(2) by (intro gen_ok_promo) auto
  next
    case 2
    then show ?thesis using f v d by (auto intro!: gen_ok_simple)
  next
    case 3
    have "SQ_VALID ?two" using f(3) 3(2) c SQ_ROW_bounds [OF f(3)]
      by (auto simp: pawn_rank2_def pawn_dir_def SQ_VALID_def SQ_board split: if_splits)
    moreover have "sq \<noteq> ?two" unfolding two by (simp add: pawn_dir_def)
    ultimately show ?thesis
      unfolding 3(1) using f v 3 one two by (intro gen_ok_simple) simp_all
  qed
qed


lemma pawn_take_gen_ok:
  assumes inv: "gen_inv b" "sq \<in> set (mobile b PAWN)"
    and to: "SQ_VALID to" "sq \<noteq> to" "pawn_dist_ok PAWN sq to"
    and t: "piece_at b to \<noteq> PIECE_EMPTY"
      "PIECE_COLOR (piece_at b to) = color_opposite (side b) \<or> game_mod b = MOD_FRIENDLY_FIRE"
      "PIECE_TYPE (piece_at b to) = KING \<longrightarrow> game_mod b = MOD_HEIR"
    and m: "m = move_capture sq to PAWN (PIECE_TYPE (piece_at b to)) \<or>
        (\<exists>p \<in> set piece_types. (p = KING \<longrightarrow> game_mod b \<in> {MOD_HEIR, MOD_SUCCESSION}) \<and>
          m = promo_move sq to (PIECE_TYPE (piece_at b to)) p)"
  shows "gen_ok b m"
  using m
proof (elim disjE bexE conjE)
  assume m: "m = move_capture sq to PAWN (PIECE_TYPE (piece_at b to))"
  show ?thesis unfolding m by (rule gen_ok_capture) (use pawn_facts [OF inv] to t in simp_all)
next
  fix p assume p: "p \<in> set piece_types" "p = KING \<longrightarrow> game_mod b \<in> {MOD_HEIR, MOD_SUCCESSION}"
    and m: "m = promo_move sq to (PIECE_TYPE (piece_at b to)) p"
  show ?thesis unfolding m by (rule gen_ok_promo) (use pawn_facts [OF inv] to t p in simp_all)
qed

lemma ep_gen_ok:
  assumes inv: "gen_inv b" "sq \<in> set (mobile b PAWN)"
    and nc: "0 \<le> nc" "nc \<le> 7" "nc \<noteq> SQ_COL sq" and v: "SQ_VALID to"
    and to: "to = SQ (SQ_ROW sq + pawn_dir (side b)) nc" "sq \<noteq> to" "pawn_dist_ok PAWN sq to"
    and m: "m \<in> set (ep_moves_at b sq nc to)"
  shows "gen_ok b m"
proof -
  let ?cap = "SQ (SQ_ROW sq) nc" and ?d = "pawn_dir (side b)"
  note f = pawn_facts [OF inv]
  from m have e: "to = ep_square b" "ep_square b \<noteq> SQ_NONE"
    and m: "m = move_encode sq to PAWN (PIECE_TYPE (piece_at b ?cap)) False True False PIECE_NONE"
    by (auto simp: ep_moves_at_def Let_def split: if_splits)
  note rc = pawn_one_rc [OF f(3) nc(1,2) v to(1)]
  have "piece_at b to = PIECE_EMPTY"
    "piece_at b (SQ (SQ_ROW to - ?d) (SQ_COL to)) = PIECE_MAKE (color_opposite (side b)) PAWN"
    using inv(1) e(2) unfolding gen_inv_def ep_ok_def e(1) by blast+
  then have ep: "piece_at b to = PIECE_EMPTY"
    "piece_at b ?cap = PIECE_MAKE (color_opposite (side b)) PAWN"
    unfolding rc by simp_all
  have cap: "ep_cap_sq m = ?cap" using m f(3) v rc by (simp add: ep_cap_sq_def)
  have cv: "SQ_ROW ?cap = SQ_ROW sq" "SQ_COL ?cap = nc"
    using SQ_row_col_of_board [of "SQ_ROW sq" nc] SQ_ROW_bounds [OF f(3)] nc by auto
  then have ne: "?cap \<noteq> sq" "?cap \<noteq> to" using rc nc(3) by (auto simp: pawn_dir_def split: if_splits)
  have "captured_of b m = PIECE_MAKE (color_opposite (side b)) PAWN"
    using m f(3) v cap ep by (simp add: captured_of_def)
  then show ?thesis
    using m f v to cap ne ep by (simp add: gen_ok_def move_ok_def Let_def pawn_dist_ok_def)
qed

lemma capture_gen_ok:
  assumes inv: "gen_inv b" "sq \<in> set (mobile b PAWN)"
    and m: "m \<in> set (capture_moves_at b sq dc)" and dc: "dc \<in> {- 1, 1}"
  shows "gen_ok b m"
proof -
  let ?nc = "SQ_COL sq + dc" and ?d = "pawn_dir (side b)"
  obtain to where to: "to = SQ (SQ_ROW sq + ?d) ?nc" by simp
  note f = pawn_facts [OF inv]
  from m have nc: "0 \<le> ?nc" "?nc \<le> 7" and v: "SQ_VALID to" and nb: "\<not> pawn_blocked b to"
    and m': "m \<in> set (enemy_moves_at b sq to) \<union> set (friendly_moves_at b sq to) \<union> set (ep_moves_at b sq ?nc to)"
    by (auto simp: capture_moves_at_def Let_def to split: if_splits)
  have dist: "sq \<noteq> to" "pawn_dist_ok PAWN sq to"
    using pawn_one_dist [OF f(3) nc _ to] dc by auto
  note take = pawn_take_gen_ok [OF inv v dist]
  from m' consider "m \<in> set (enemy_moves_at b sq to)" | "m \<in> set (friendly_moves_at b sq to)"
    | "m \<in> set (ep_moves_at b sq ?nc to)" by blast
  then show ?thesis
  proof cases
    case 1
    then show ?thesis using nb set_promo_types [of b "side b" to] promo_types_king [of b "side b" to]
      by (intro take) (auto simp: enemy_moves_at_def pawn_blocked_def Let_def split: if_splits)
  next
    case 2
    then show ?thesis
      by (intro take) (auto simp: friendly_moves_at_def Let_def split: if_splits)
  next
    case 3
    show ?thesis by (rule ep_gen_ok [OF inv nc _ v to dist 3]) (use dc in auto)
  qed
qed

lemma merc_gen_ok:
  assumes inv: "gen_inv b" "sq \<in> set (mobile b PAWN)" and m: "m \<in> set (merc_moves_at b co sq)"
    and mod: "game_mod b = MOD_MERCENARY"
  shows "gen_ok b m"
proof -
  note f = pawn_facts [OF inv]
  have ne: "sq \<noteq> to" if "bit (king_attacks sq) (nat to)" for to
    using that piece_targets_irrefl(2) [OF f(3)] by auto
  from m consider to where "m = move_simple sq to PAWN" "SQ_VALID to" "piece_at b to = PIECE_EMPTY" "sq \<noteq> to"
    | to where "m = move_capture sq to PAWN (PIECE_TYPE (piece_at b to))" "SQ_VALID to" "sq \<noteq> to"
       "piece_at b to \<noteq> PIECE_EMPTY" "PIECE_COLOR (piece_at b to) = color_opposite (side b)"
       "PIECE_TYPE (piece_at b to) \<noteq> KING"
    using f(1) ne by (auto simp: merc_moves_at_def set_bb_squares bit_and_iff bit_not_iff
        wf_place_bits_sq split: if_splits)
  then show ?thesis
  proof cases
    case 1
    then show ?thesis using f mod by (auto intro!: gen_ok_simple)
  next
    case 2
    show ?thesis unfolding 2(1) by (rule gen_ok_capture) (use f 2 mod in simp_all)
  qed
qed

lemma pawn_gen_ok:
  assumes inv: "gen_inv b" "sq \<in> set (mobile b PAWN)" and m: "m \<in> set (pawn_moves_at b co sq)"
  shows "gen_ok b m"
  using m push_gen_ok [OF inv] capture_gen_ok [OF inv] merc_gen_ok [OF inv]
  by (auto simp: pawn_moves_at_def split: if_splits)


lemma mod_targetsD:
  assumes wf: "wf_place b" and us: "side b \<in> {WHITE, BLACK}" and to: "to \<in> set (bb_squares (mod_targets b pt co sq))"
  shows "SQ_VALID to" "bit (piece_targets b pt sq) (nat to)"
    "piece_at b to \<noteq> PIECE_EMPTY \<Longrightarrow>
       PIECE_COLOR (piece_at b to) = color_opposite (side b) \<or> game_mod b = MOD_FRIENDLY_FIRE"
proof -
  show v: "SQ_VALID to" using to by (simp add: set_bb_squares)
  have "bit (mod_targets b pt co sq) (nat to)" using to by (simp add: set_bb_squares)
  then have *: "bit (piece_targets b pt sq) (nat to) \<and>
      (game_mod b \<noteq> MOD_FRIENDLY_FIRE \<longrightarrow> \<not> bit (occupied b (side b)) (nat to))"
    unfolding mod_targets_def Let_def
    by (simp add: bit_and_iff bit_not_iff bit_or_iff split: if_splits)
  then show "bit (piece_targets b pt sq) (nat to)" by simp
  show "PIECE_COLOR (piece_at b to) = color_opposite (side b) \<or> game_mod b = MOD_FRIENDLY_FIRE"
    if "piece_at b to \<noteq> PIECE_EMPTY"
    using * us wf_target(3) [OF wf v that] wf_place_bits_sq(2) [OF wf v, of "side b"] that by auto
qed

lemma target_gen_ok:
  assumes wf: "wf_place b" "side b \<in> {WHITE, BLACK}" and sq: "sq \<in> set (mobile b pt)"
    and pt: "pt \<in> set piece_types" "pt \<noteq> PAWN"
    and to: "to \<in> set (bb_squares (mod_targets b pt co sq))" and m: "m \<in> set (target_moves_at b pt sq to)"
  shows "gen_ok b m"
proof -
  note s = mobileD [OF wf(1) sq] and t = mod_targetsD [OF wf to]
  have ne: "sq \<noteq> to" using t(2) piece_targets_irrefl(1) [OF s(1)] by auto
  have pd: "pawn_dist_ok pt sq to" using pt by (simp add: pawn_dist_ok_def)
  show ?thesis
  proof (cases "piece_at b to = PIECE_EMPTY")
    case True
    then show ?thesis
      using m s t ne pt wf pd by (auto simp: target_moves_at_def intro!: gen_ok_simple)
  next
    case False
    then have m: "m = move_capture sq to pt (PIECE_TYPE (piece_at b to))"
      and k: "PIECE_TYPE (piece_at b to) = KING \<longrightarrow> game_mod b = MOD_HEIR"
      using m by (auto simp: target_moves_at_def Let_def split: if_splits)
    show ?thesis unfolding m by (rule gen_ok_capture) (use False k s t ne pt wf pd in auto)
  qed
qed


lemma queen_quiet_gen_ok:
  assumes wf: "wf_place b" "side b \<in> {WHITE, BLACK}" and sq: "sq \<in> set (mobile b QUEEN)"
    and to: "SQ_VALID to" "sq \<noteq> to" "piece_at b to = PIECE_EMPTY"
  shows "gen_ok b (move_simple sq to QUEEN)"
  using mobileD [OF wf(1) sq] wf to by (intro gen_ok_simple) (simp_all add: pawn_dist_ok_def)

lemma king_quiet_targets:
  assumes wf: "wf_place b" and sq: "SQ_VALID sq"
    and to: "SQ_VALID to" "bit (king_attacks sq AND NOT (all_bb b) AND w) (nat to)"
  shows "sq \<noteq> to" "piece_at b to = PIECE_EMPTY"
  using to piece_targets_irrefl(2) [OF sq] wf by (auto simp: bit_and_iff bit_not_iff wf_place_bits_sq)

lemma stq_own_targetsD:
  assumes wf: "wf_place b" and us: "side b \<in> {WHITE, BLACK}"
    and to: "SQ_VALID to" "bit (stq_own_targets b co sq) (nat to)" and nz: "piece_at b to \<noteq> PIECE_EMPTY"
  shows "PIECE_COLOR (piece_at b to) = color_opposite (side b)"
proof (cases "bit (occupied b (side b)) (nat to)")
  case False
  then show ?thesis using nz us wf_target(3) [OF wf to(1) nz] wf to(1) by (auto simp: wf_place_bits_sq)
next
  case True
  let ?pq = "pieces b (color_opposite (side b)) QUEEN AND stq_half (side b)"
  have "?pq \<noteq> 0 \<and> bit (BB_SQ (bb_lsb ?pq)) (nat to)"
    using to(2) True unfolding stq_own_targets_def Let_def
    by (simp add: bit_and_iff bit_not_iff bit_or_iff split: if_splits)
  then have "bit ?pq (nat to)"
    using bb_lsb_props [of ?pq] by (simp add: bit_BB_SQ)
  then show ?thesis using wf to(1) by (simp add: bit_and_iff wf_place_bits_sq)
qed

lemma stq_own_targets_ne:
  assumes wf: "wf_place b" and us: "side b \<in> {WHITE, BLACK}" and sq: "sq \<in> set (mobile b QUEEN)"
    and to: "SQ_VALID to" "bit (stq_own_targets b co sq) (nat to)"
  shows "sq \<noteq> to"
  using stq_own_targetsD [OF wf us to] mobileD [OF wf sq] us by auto

lemma stq_queen_gen_ok:
  assumes wf: "wf_place b" "side b \<in> {WHITE, BLACK}" and sq: "sq \<in> set (mobile b QUEEN)"
    and mod: "game_mod b = MOD_SAVE_QUEEN" and m: "m \<in> set (piece_moves_at b QUEEN co sq)"
  shows "gen_ok b m"
proof -
  note s = mobileD [OF wf(1) sq]
  have quiet: "gen_ok b (move_simple sq to QUEEN)"
    if "SQ_VALID to" "bit (king_attacks sq AND NOT (all_bb b) AND w) (nat to)" for to w
    using queen_quiet_gen_ok [OF wf sq that(1)] king_quiet_targets [OF wf(1) s(1) that] by blast
  have own: "gen_ok b m'"
    if to: "SQ_VALID to" "bit (stq_own_targets b co sq) (nat to)" and m: "m' \<in> set (escaped_moves_at b sq to)"
    for to m'
  proof (cases "piece_at b to = PIECE_EMPTY")
    case True
    then show ?thesis
      using m queen_quiet_gen_ok [OF wf sq to(1) stq_own_targets_ne [OF wf sq to]]
      by (simp add: escaped_moves_at_def)
  next
    case False
    with m have m': "m' = move_capture sq to QUEEN (PIECE_TYPE (piece_at b to))" "PIECE_TYPE (piece_at b to) \<noteq> KING"
      by (auto simp: escaped_moves_at_def Let_def split: if_splits)
    show ?thesis unfolding m'(1)
      by (rule gen_ok_capture)
        (use False m'(2) s wf to stq_own_targets_ne [OF wf sq to] stq_own_targetsD [OF wf to False] in
          \<open>simp_all add: pawn_dist_ok_def\<close>)
  qed
  have top: "w AND - 1 = w" for w :: u64 by simp
  from m mod consider to w where "m = move_simple sq to QUEEN" "SQ_VALID to"
      "bit (king_attacks sq AND NOT (all_bb b) AND w) (nat to)"
    | to where "SQ_VALID to" "bit (stq_own_targets b co sq) (nat to)" "m \<in> set (escaped_moves_at b sq to)"
    unfolding piece_moves_at_def
    by (auto simp: set_bb_squares and.assoc split: if_splits) (metis top and.assoc)
  then show ?thesis by cases (use quiet own in auto)
qed

lemma piece_gen_ok:
  assumes inv: "gen_inv b" "sq \<in> set (mobile b pt)" and pt: "pt \<in> set [KNIGHT, BISHOP, ROOK, QUEEN, KING]"
    and m: "m \<in> set (piece_moves_at b pt co sq)"
  shows "gen_ok b m"
proof (cases "game_mod b = MOD_SAVE_QUEEN \<and> pt = QUEEN")
  case True
  then show ?thesis using inv m stq_queen_gen_ok [of b sq m co] by (simp add: gen_inv_def)
next
  case False
  then obtain to where "to \<in> set (bb_squares (mod_targets b pt co sq))" "m \<in> set (target_moves_at b pt sq to)"
    using m by (auto simp: piece_moves_at_def)
  then show ?thesis
    using inv pt by (intro target_gen_ok [of b sq pt to co m]) (auto simp: gen_inv_def)
qed


lemma home_squares [simp]:
  "SQ 0 0 = 0" "SQ 0 1 = 1" "SQ 0 2 = 2" "SQ 0 3 = 3" "SQ 0 4 = 4" "SQ 0 5 = 5" "SQ 0 6 = 6" "SQ 0 7 = 7"
  "SQ 7 0 = 56" "SQ 7 1 = 57" "SQ 7 2 = 58" "SQ 7 3 = 59" "SQ 7 4 = 60" "SQ 7 5 = 61" "SQ 7 6 = 62" "SQ 7 7 = 63"
  by (simp_all add: SQ_board)

lemma castle_gen_ok:
  assumes us: "side b \<in> {WHITE, BLACK}" and k: "SQ_VALID k" "piece_at b k = PIECE_MAKE (side b) KING"
    and to: "SQ_VALID to" "k \<noteq> to" "piece_at b to = PIECE_EMPTY"
    and r: "castle_rook to = Some (rf, rt, side b)" "rf \<noteq> k" "rt \<noteq> k"
      "piece_at b rf = PIECE_MAKE (side b) ROOK" "piece_at b rt = PIECE_EMPTY"
  shows "gen_ok b (castle_move k to)"
  using assms by (simp add: gen_ok_def move_ok_def castle_ok_def Let_def castle_move_def captured_of_def)

lemma castling_gen_ok:
  assumes inv: "gen_inv b" and m: "m \<in> set (castling_moves b)"
  shows "gen_ok b m"
proof (cases "side b = WHITE")
  case True
  then consider "m = castle_move 4 6" "castle_side_ok b CASTLE_WK [5, 6] [5, 6] BLACK"
    | "m = castle_move 4 2" "castle_side_ok b CASTLE_WQ [1, 2, 3] [2, 3] BLACK"
    using m by (auto simp: castling_moves_def split: if_splits)
  then show ?thesis
  proof cases
    case 1
    show ?thesis unfolding 1(1) by (rule castle_gen_ok [where rf = 7 and rt = 5])
      (use True inv 1(2) in \<open>simp_all add: gen_inv_def rights_ok_def right_ok_def castle_side_ok_def SQ_VALID_def castle_rook_def\<close>)
  next
    case 2
    show ?thesis unfolding 2(1) by (rule castle_gen_ok [where rf = 0 and rt = 3])
      (use True inv 2(2) in \<open>simp_all add: gen_inv_def rights_ok_def right_ok_def castle_side_ok_def SQ_VALID_def castle_rook_def\<close>)
  qed
next
  case False
  then have B: "side b = BLACK" using inv by (simp add: gen_inv_def)
  with m consider "m = castle_move 60 62" "castle_side_ok b CASTLE_BK [61, 62] [61, 62] WHITE"
    | "m = castle_move 60 58" "castle_side_ok b CASTLE_BQ [57, 58, 59] [58, 59] WHITE"
    by (auto simp: castling_moves_def split: if_splits)
  then show ?thesis
  proof cases
    case 1
    show ?thesis unfolding 1(1) by (rule castle_gen_ok [where rf = 63 and rt = 61])
      (use B inv 1(2) in \<open>simp_all add: gen_inv_def rights_ok_def right_ok_def castle_side_ok_def SQ_VALID_def castle_rook_def\<close>)
  next
    case 2
    show ?thesis unfolding 2(1) by (rule castle_gen_ok [where rf = 56 and rt = 59])
      (use B inv 2(2) in \<open>simp_all add: gen_inv_def rights_ok_def right_ok_def castle_side_ok_def SQ_VALID_def castle_rook_def\<close>)
  qed
qed

lemma all_pseudo_gen_ok:
  assumes "gen_inv b" "m \<in> set (all_pseudo b)"
  shows "gen_ok b m"
proof -
  from assms(2) consider sq where "sq \<in> set (mobile b PAWN)" "m \<in> set (pawn_moves_at b False sq)"
    | pt sq where "pt \<in> set [KNIGHT, BISHOP, ROOK, QUEEN, KING]" "sq \<in> set (mobile b pt)"
        "m \<in> set (piece_moves_at b pt False sq)"
    | "m \<in> set (castling_moves b)"
    unfolding all_pseudo_def by (simp only: set_append set_concat set_map Un_iff UN_iff image_image) blast
  then show ?thesis
    by cases (blast intro: pawn_gen_ok piece_gen_ok castling_gen_ok assms(1))+
qed

lemma all_captures_gen_ok:
  assumes "gen_inv b" "m \<in> set (all_captures b)"
  shows "gen_ok b m"
proof -
  from assms(2) consider sq where "sq \<in> set (mobile b PAWN)" "m \<in> set (pawn_moves_at b True sq)"
    | pt sq where "pt \<in> set [KNIGHT, BISHOP, ROOK, QUEEN, KING]" "sq \<in> set (mobile b pt)"
        "m \<in> set (piece_moves_at b pt True sq)"
    unfolding all_captures_def by (simp only: set_append set_concat set_map Un_iff UN_iff image_image) blast
  then show ?thesis
    by cases (blast intro: pawn_gen_ok piece_gen_ok assms(1))+
qed

section \<open>Classic piece moves are exactly the moves of the rules\<close>

lemma bit_piece_targets:
  assumes "SQ_VALID s" "SQ_VALID t" "game_mod b = MOD_CLASSIC" "pt \<in> {KNIGHT, BISHOP, ROOK, QUEEN, KING}"
  shows "bit (piece_targets b pt s) (nat t) \<longleftrightarrow> rule_attacks b c pt s t"
  using assms
  by (auto simp: piece_targets_def rule_attacks_def kb_phase1_def bit_knight_attacks bit_king_attacks
      bishop_attacks_calc_def rook_attacks_calc_def bit_slider_attacks bit_or_iff)

definition piece_rule_moves :: "Board \<Rightarrow> PieceType \<Rightarrow> Move set" where
  "piece_rule_moves b pt =
     {m. \<exists>s t. SQ_VALID s \<and> SQ_VALID t \<and> piece_at b s = PIECE_MAKE (side b) pt \<and>
        rule_attacks b (side b) pt s t \<and>
        (piece_at b t = PIECE_EMPTY \<and> m = move_simple s t pt \<or>
         piece_at b t \<noteq> PIECE_EMPTY \<and> PIECE_COLOR (piece_at b t) = color_opposite (side b) \<and>
         PIECE_TYPE (piece_at b t) \<noteq> KING \<and> m = move_capture s t pt (PIECE_TYPE (piece_at b t)))}"

lemma classic_mobile:
  assumes "wf_place b" "game_mod b = MOD_CLASSIC" "side b \<in> {WHITE, BLACK}"
  shows "set (mobile b pt) = {s. SQ_VALID s \<and> piece_at b s = PIECE_MAKE (side b) pt}"
  using assms by (auto simp: mobile_def truce_no_cap_def set_bb_squares wf_place_bits_sq)

lemma classic_targets:
  assumes wf: "wf_place b" "game_mod b = MOD_CLASSIC" "side b \<in> {WHITE, BLACK}"
    and s: "SQ_VALID s" "pt \<in> {KNIGHT, BISHOP, ROOK, QUEEN, KING}"
  shows "set (bb_squares (mod_targets b pt False s)) =
    {t. SQ_VALID t \<and> rule_attacks b (side b) pt s t \<and>
        (piece_at b t \<noteq> PIECE_EMPTY \<longrightarrow> PIECE_COLOR (piece_at b t) = color_opposite (side b))}"
proof -
  have own: "bit (occupied b (side b)) (nat t) \<longleftrightarrow>
      piece_at b t \<noteq> PIECE_EMPTY \<and> PIECE_COLOR (piece_at b t) \<noteq> color_opposite (side b)" if "SQ_VALID t" for t
    using wf that wf_target(3) [OF wf(1) that] by (auto simp: wf_place_bits_sq)
  have "mod_targets b pt False s = piece_targets b pt s AND NOT (occupied b (side b))"
    using wf(2) by (simp add: mod_targets_def truce_no_cap_def Let_def)
  moreover have "SQ_VALID t \<Longrightarrow> nat t < 64" for t by (simp add: SQ_VALID_def nat_less_iff)
  ultimately show ?thesis
    using s wf(2) by (auto simp: set_bb_squares bit_and_iff bit_not_iff own bit_piece_targets [where c = "side b"])
qed

lemma classic_moves_set:
  assumes "gen_inv b" "game_mod b = MOD_CLASSIC" "pt \<in> {KNIGHT, BISHOP, ROOK, QUEEN, KING}"
  shows "set (concat (map (piece_moves_at b pt False) (mobile b pt))) = piece_rule_moves b pt"
proof -
  have wf: "wf_place b" "side b \<in> {WHITE, BLACK}" using assms(1) by (auto simp: gen_inv_def)
  have "set (piece_moves_at b pt False s) =
      (\<Union>t \<in> set (bb_squares (mod_targets b pt False s)). set (target_moves_at b pt s t))" for s
    using assms(2) by (simp add: piece_moves_at_def)
  moreover have "set (target_moves_at b pt s t) =
      (if piece_at b t = PIECE_EMPTY then {move_simple s t pt}
       else if PIECE_TYPE (piece_at b t) = KING then {}
       else {move_capture s t pt (PIECE_TYPE (piece_at b t))})" for s t
    using assms(2) by (simp add: target_moves_at_def stq_protected_def Let_def)
  ultimately show ?thesis
    using classic_targets [OF wf(1) assms(2) wf(2) _ assms(3)]
    by (auto simp: classic_mobile [OF wf(1) assms(2) wf(2)] piece_rule_moves_def split: if_splits)
qed


section \<open>Properties\<close>

text \<open>
  (C8) On every position that satisfies the invariant \<open>gen_inv\<close>, every pseudo-legal move fits the board:
  the mover is where the move says, the captured field names the piece that is taken, own pieces
  are taken only in Friendly Fire, kings only in Heir, and castling, en-passant, double-step and
  promotion moves have their preconditions (\<open>gen_ok\<close>).
\<close>

theorem generated_moves_fit:
  assumes "gen_inv b" "m \<in> set (pseudo_moves b) \<union> set (pseudo_captures b)"
  shows "gen_ok b m"
  using assms all_pseudo_gen_ok all_captures_gen_ok
  by (auto simp: pseudo_moves_take pseudo_captures_take dest!: in_set_takeD)

lemma duel_gen_inv: "gen_inv duel"
  using duel_wf by (simp add: gen_inv_def ep_ok_def rights_ok_def right_ok_def duel_def board_clear_def)

lemma duel_classic: "game_mod duel = MOD_CLASSIC"
  by (simp add: duel_def board_clear_def)

theorem generated_moves_fit_witness:
  "pseudo_moves duel \<noteq> [] \<and> gen_ok duel (hd (pseudo_moves duel))"
proof -
  have "mobile duel PAWN = [28]" "pawn_moves_at duel False 28 \<noteq> []" by code_simp+
  then have ne: "pseudo_moves duel \<noteq> []"
    by (auto simp: pseudo_moves_take all_pseudo_def MAX_MOVES_def)
  then show ?thesis using generated_moves_fit [OF duel_gen_inv, of "hd (pseudo_moves duel)"] by simp
qed

text \<open>
  (C7) In the classic game the non-pawn generators produce exactly the moves of the rules: for each own
  piece and each square it attacks by the rules, a quiet move if that square is empty and a
  capture if it holds an enemy piece other than the king, appended up to the list's capacity.
\<close>

theorem classic_piece_moves_exact:
  assumes "gen_inv b" "game_mod b = MOD_CLASSIC" "pt \<in> {KNIGHT, BISHOP, ROOK, QUEEN, KING}"
  shows "\<exists>ms. set ms = piece_rule_moves b pt \<and>
    (\<forall>ml. length ml \<le> MAX_MOVES \<longrightarrow> gen_piece_moves b ml pt False = take MAX_MOVES (ml @ ms))"
  using classic_moves_set [OF assms] gen_piece_moves_list [of pt b _ False] assms(3)
  by (intro exI [of _ "concat (map (piece_moves_at b pt False) (mobile b pt))"]) (auto simp: add_moves_take)

lemma king_step_3: "move_simple 4 3 KING \<in> piece_rule_moves duel KING"
proof -
  have "rule_attacks duel WHITE KING 4 3"
    by (simp add: rule_attacks_def king_step_def SQ_ROW_div SQ_COL_mod)
  moreover have "piece_at duel 4 = PIECE_MAKE WHITE KING" "piece_at duel 3 = PIECE_EMPTY" "side duel = WHITE"
    by (simp_all add: duel_def board_clear_def)
  ultimately show ?thesis
    unfolding piece_rule_moves_def by (intro CollectI exI [of _ 4] exI [of _ 3]) (simp add: SQ_VALID_def)
qed

theorem classic_piece_moves_exact_witness:
  "\<exists>ms. move_simple 4 3 KING \<in> set ms \<and> gen_piece_moves duel [] KING False = take MAX_MOVES ms"
  using classic_piece_moves_exact [OF duel_gen_inv duel_classic, of KING] king_step_3 by force

text \<open>
  (C34) The generators never overflow the move list: what \<open>generate_moves\<close> and \<open>generate_captures\<close> see is
  the first \<open>MAX_MOVES\<close> entries of the unbounded list of pseudo-legal moves, in generation order.
\<close>

theorem pseudo_list_capacity:
  "pseudo_moves b = take MAX_MOVES (all_pseudo b) \<and> pseudo_captures b = take MAX_MOVES (all_captures b)"
  by (simp add: pseudo_moves_take pseudo_captures_take)

end
