(* ===== verification/Legality.thy ===== *)
theory Legality
  imports Movegen
begin

text \<open>
  The legality filter of \<open>movegen/movegen_legal.c\<close> and the public generators of \<open>movegen.c\<close>.
  The code tests each pseudo-legal move by playing it on a scratch copy of the board and taking
  it back; the model threads that scratch board through the loop.
\<close>

section \<open>Definitions\<close>

definition is_legal :: "ZobState \<Rightarrow> Board \<Rightarrow> Move \<Rightarrow> bool \<times> Board" where
  "is_legal Z b m =
     (let mover = side b;
          b = board_make_move Z b m;
          legal = (\<not> board_in_check b mover);
          legal = (if legal \<and> game_mod b = MOD_TRUCE \<and> truce_active b then
                     let their_king = pieces b (color_opposite mover) KING in
                     if their_king \<noteq> BB_EMPTY then
                       if board_square_attacked b (bb_lsb their_king) mover then False else legal
                     else legal
                   else legal)
      in (legal, board_unmake_move b))"

definition filter_legal :: "ZobState \<Rightarrow> Board \<Rightarrow> MoveList \<Rightarrow> MoveList \<times> Board" where
  "filter_legal Z b pseudo =
     fold (\<lambda>m (ml, tmp). case is_legal Z tmp m of (legal, tmp') \<Rightarrow>
         (if legal then movelist_add ml m else ml, tmp'))
       pseudo (movelist_clear, b)"

definition generate_moves :: "ZobState \<Rightarrow> Board \<Rightarrow> MoveList" where
  "generate_moves Z b = fst (filter_legal Z b (pseudo_moves b))"

definition generate_captures :: "ZobState \<Rightarrow> Board \<Rightarrow> MoveList" where
  "generate_captures Z b =
     (if game_mod b = MOD_TRUCE \<and> truce_active b then movelist_clear
      else fst (filter_legal Z b (pseudo_captures b)))"

definition has_legal_moves :: "ZobState \<Rightarrow> Board \<Rightarrow> bool" where
  "has_legal_moves Z b \<longleftrightarrow> length (generate_moves Z b) > 0"


section \<open>Reversible moves\<close>

text \<open>
  The contract the filter relies on: taking back a fitting move restores the board up to a
  relation that neither the fit of a move nor the outcome of a test can tell apart.
\<close>

locale reversible_moves =
  fixes make :: "'b \<Rightarrow> 'm \<Rightarrow> 'b" and unmake :: "'b \<Rightarrow> 'b"
    and ok :: "'b \<Rightarrow> 'm \<Rightarrow> bool" and eqv :: "'b \<Rightarrow> 'b \<Rightarrow> bool"
  assumes eqv_refl: "eqv b b"
    and eqv_trans: "eqv b b' \<Longrightarrow> eqv b' b'' \<Longrightarrow> eqv b b''"
    and unmake_eqv: "ok b m \<Longrightarrow> eqv (make b m) c \<Longrightarrow> eqv b (unmake c)"
    and ok_eqv: "eqv b b' \<Longrightarrow> ok b' m = ok b m"
    and make_eqv: "eqv b b' \<Longrightarrow> ok b m \<Longrightarrow> eqv (make b m) (make b' m)"
begin

lemma unmake_make_eqv: "ok b m \<Longrightarrow> eqv b (unmake (make b m))"
  by (rule unmake_eqv [OF _ eqv_refl])

text \<open>A line of fitting moves is unwound by as many take-backs.\<close>

lemma unwind_line:
  assumes "\<forall>i < length ms. ok (fold (\<lambda>m b. make b m) (take i ms) b) (ms ! i)"
    "eqv (fold (\<lambda>m b. make b m) ms b) c"
  shows "eqv b ((unmake ^^ length ms) c)"
  using assms
proof (induction ms arbitrary: c rule: rev_induct)
  case Nil
  then show ?case by simp
next
  case (snoc m ms)
  let ?B = "fold (\<lambda>m b. make b m) ms b"
  have ok: "ok ?B m" using snoc.prems(1) [rule_format, of "length ms"] by simp
  have "\<forall>i < length ms. ok (fold (\<lambda>m b. make b m) (take i ms) b) (ms ! i)"
    using snoc.prems(1) by (auto simp: nth_append dest!: spec split: if_splits)
  moreover have "eqv ?B (unmake c)" using unmake_eqv [OF ok] snoc.prems(2) by simp
  ultimately have "eqv b ((unmake ^^ length ms) (unmake c))" by (rule snoc.IH)
  then show ?case by (simp add: funpow_swap1)
qed

text \<open>
  Testing a list of moves on one scratch board gives the same verdicts as testing each on a
  fresh copy.
\<close>

lemma scratch_tests:
  assumes "\<And>b b' c c'. eqv b b' \<Longrightarrow> eqv c c' \<Longrightarrow> test b c = test b' c'" "\<forall>m \<in> set ms. ok b m" "eqv b tmp"
  shows "\<exists>tmp'. fold (\<lambda>m (acc, t). (if test t (make t m) then add acc m else acc, unmake (make t m))) ms (acc, tmp) =
      (fold (\<lambda>m acc. if test b (make b m) then add acc m else acc) ms acc, tmp') \<and> eqv b tmp'"
  using assms(2,3)
proof (induction ms arbitrary: acc tmp)
  case Nil
  then show ?case by simp
next
  case (Cons m ms)
  have ok: "ok b m" "ok tmp m" using Cons.prems ok_eqv by auto
  have "eqv b (unmake (make tmp m))"
    using eqv_trans [OF Cons.prems(2) unmake_make_eqv [OF ok(2)]] .
  moreover have "test tmp (make tmp m) = test b (make b m)"
    using make_eqv [OF Cons.prems(2) ok(1)] Cons.prems(2) assms(1) by blast
  ultimately show ?case using Cons.IH Cons.prems(1) by simp
qed

end

definition live_eq :: "Board \<Rightarrow> Board \<Rightarrow> bool" where
  "live_eq b b' \<longleftrightarrow> b' = b \<lparr> history := history b' \<rparr> \<and> (\<forall>i < ply b. history b i = history b' i)"

lemma live_eqE:
  assumes "live_eq b b'"
  obtains h where "b' = b \<lparr> history := h \<rparr>" "\<forall>i < ply b. history b i = h i"
  using assms unfolding live_eq_def by blast

lemma live_eqI: "\<forall>i < ply b. history b i = h i \<Longrightarrow> live_eq b (b \<lparr> history := h \<rparr>)"
  by (simp add: live_eq_def)

lemma primitives_history [simp]:
  "board_remove (b \<lparr> history := h \<rparr>) sq = (board_remove b sq) \<lparr> history := h \<rparr>"
  "board_place (b \<lparr> history := h \<rparr>) sq c t = (board_place b sq c t) \<lparr> history := h \<rparr>"
  "unmake_castle_rook (b \<lparr> history := h \<rparr>) m = (unmake_castle_rook b m) \<lparr> history := h \<rparr>"
  by (simp_all add: board_remove_def board_place_def unmake_castle_rook_def Let_def split: option.split)

lemma unmake_history:
  assumes "h (ply b - 1) = history b (ply b - 1)"
  shows "board_unmake_move (b \<lparr> history := h \<rparr>) = (board_unmake_move b) \<lparr> history := h \<rparr>"
proof -
  define u where "u = history b (ply b - 1)"
  define us where "us = (if u_kb_bonus u then side b else color_opposite (side b))"
  have "unmake_place (b' \<lparr> history := h \<rparr>) u us = (unmake_place b' u us) \<lparr> history := h \<rparr>" for b'
    by (simp add: unmake_place_def Let_def)
  moreover have "b \<lparr> history := h, ply := ply b - 1, side := us \<rparr> = b \<lparr> ply := ply b - 1, side := us, history := h \<rparr>"
    by simp
  ultimately have p: "unmake_place (b \<lparr> history := h, ply := ply b - 1, side := us \<rparr>) u us =
      (unmake_place (b \<lparr> ply := ply b - 1, side := us \<rparr>) u us) \<lparr> history := h \<rparr>"
    by (simp only:)
  have e1: "board_unmake_move b =
      (let b' = unmake_state (unmake_place (b \<lparr> ply := ply b - 1, side := us \<rparr>) u us) u
       in if us = BLACK then b' \<lparr> fullmove := fullmove b' - 1 \<rparr> else b')"
    by (rule board_unmake_move_place) (simp_all add: u_def us_def)
  have e2: "board_unmake_move (b \<lparr> history := h \<rparr>) =
      (let b' = unmake_state (unmake_place (b \<lparr> history := h, ply := ply (b \<lparr> history := h \<rparr>) - 1, side := us \<rparr>) u us) u
       in if us = BLACK then b' \<lparr> fullmove := fullmove b' - 1 \<rparr> else b')"
    by (rule board_unmake_move_place) (use assms in \<open>simp_all add: u_def us_def\<close>)
  have e3: "ply (b \<lparr> history := h \<rparr>) = ply b" by simp
  show ?thesis unfolding e1 e2 e3 p by (simp add: unmake_state_def Let_def)
qed

interpretation chess: reversible_moves "board_make_move Z" board_unmake_move
  "\<lambda>b m. wf_place b \<and> move_ok b m" live_eq for Z
proof
  fix b b' b'' :: Board and m
  show "live_eq b b" by (simp add: live_eq_def)
  show "live_eq b b'' " if "live_eq b b'" "live_eq b' b''"
  proof -
    from that(1) obtain h where 1: "b' = b \<lparr> history := h \<rparr>" "\<forall>i < ply b. history b i = h i" by (rule live_eqE)
    from that(2) obtain h' where "b'' = b' \<lparr> history := h' \<rparr>" "\<forall>i < ply b'. history b' i = h' i" by (rule live_eqE)
    with 1 show ?thesis by (auto intro: live_eqI)
  qed
  show "live_eq b (board_unmake_move b')"
    if ok: "wf_place b \<and> move_ok b m" and e: "live_eq (board_make_move Z b m) b'"
  proof -
    from e obtain h where h: "b' = (board_make_move Z b m) \<lparr> history := h \<rparr>"
      "\<forall>i < Suc (ply b). ((history b)(ply b := undo_of b m)) i = h i"
      by (auto elim!: live_eqE simp: board_make_move_frame)
    then have "board_unmake_move b' = b \<lparr> history := h \<rparr>"
      using ok h(2) [rule_format, of "ply b"] by (simp add: unmake_history board_make_move_frame unmake_make)
    moreover have "history b i = h i" if "i < ply b" for i using h(2) [rule_format, of i] that by simp
    ultimately show ?thesis by (auto intro!: live_eqI)
  qed
  show "(wf_place b' \<and> move_ok b' m) = (wf_place b \<and> move_ok b m)" if "live_eq b b'"
    using that by (auto elim!: live_eqE)
  show "live_eq (board_make_move Z b m) (board_make_move Z b' m)"
    if e: "live_eq b b'" and ok: "wf_place b \<and> move_ok b m"
  proof -
    from e obtain h where "b' = b \<lparr> history := h \<rparr>" "\<forall>i < ply b. history b i = h i" by (rule live_eqE)
    with ok show ?thesis
      by (auto simp: make_history_free board_make_move_frame intro!: live_eqI)
  qed
qed


section \<open>The filter\<close>

text \<open>The verdict on a position reached by \<open>mover\<close>.\<close>

definition safe_after :: "Color \<Rightarrow> Board \<Rightarrow> bool" where
  "safe_after mover b \<longleftrightarrow>
     \<not> board_in_check b mover \<and>
     \<not> (truce_no_cap b \<and> pieces b (color_opposite mover) KING \<noteq> BB_EMPTY \<and>
        board_square_attacked b (bb_lsb (pieces b (color_opposite mover) KING)) mover)"

definition legal :: "ZobState \<Rightarrow> Board \<Rightarrow> Move \<Rightarrow> bool" where
  "legal Z b m \<longleftrightarrow> safe_after (side b) (board_make_move Z b m)"

lemma is_legal_eq: "is_legal Z b m = (legal Z b m, board_unmake_move (board_make_move Z b m))"
  by (auto simp: is_legal_def legal_def safe_after_def truce_no_cap_def Let_def)

lemma attacked_history [simp]:
  "board_square_attacked (b \<lparr> history := h \<rparr>) sq c = board_square_attacked b sq c"
  "board_in_check (b \<lparr> history := h \<rparr>) c = board_in_check b c"
  "truce_no_cap (b \<lparr> history := h \<rparr>) = truce_no_cap b"
  by (simp_all add: board_square_attacked_def board_in_check_def effective_queens_def kb_phase1_def
      heir_check_applies_def truce_no_cap_def)

lemma safe_after_live_eq: "live_eq b b' \<Longrightarrow> safe_after c b = safe_after c b'"
  by (auto simp: safe_after_def elim!: live_eqE)

lemma live_eq_side: "live_eq b b' \<Longrightarrow> side b' = side b"
  by (auto elim: live_eqE)

lemma fold_add_filter:
  "fold (\<lambda>m ml. if P m then movelist_add ml m else ml) ms ml = add_moves ml (filter P ms)"
  by (induction ms arbitrary: ml) simp_all

lemma filter_legal_eq:
  assumes "wf_place b" "\<forall>m \<in> set ms. move_ok b m" "length ms \<le> MAX_MOVES"
  shows "\<exists>tmp. filter_legal Z b ms = (filter (legal Z b) ms, tmp) \<and> live_eq b tmp"
proof -
  let ?test = "\<lambda>b c. safe_after (side b) c"
  have t: "?test b c = ?test b' c'" if "live_eq b b'" "live_eq c c'" for b b' c c'
    using live_eq_side [OF that(1)] safe_after_live_eq [OF that(2)] by simp
  have ok: "\<forall>m \<in> set ms. wf_place b \<and> move_ok b m" using assms(1,2) by blast
  have "filter_legal Z b ms =
      fold (\<lambda>m (ml, t). (if ?test t (board_make_move Z t m) then movelist_add ml m else ml,
          board_unmake_move (board_make_move Z t m))) ms (movelist_clear, b)"
    unfolding filter_legal_def is_legal_eq legal_def by (simp add: case_prod_beta')
  moreover obtain tmp where
    "fold (\<lambda>m (ml, t). (if ?test t (board_make_move Z t m) then movelist_add ml m else ml,
          board_unmake_move (board_make_move Z t m))) ms (movelist_clear, b) =
       (fold (\<lambda>m ml. if ?test b (board_make_move Z b m) then movelist_add ml m else ml) ms movelist_clear, tmp)"
    "live_eq b tmp"
    using chess.scratch_tests [where test = ?test and Z = Z and add = movelist_add and acc = movelist_clear, OF t ok chess.eqv_refl] by blast
  moreover have "length (filter (legal Z b) ms) \<le> MAX_MOVES"
    using assms(3) length_filter_le [of "legal Z b" ms] by linarith
  ultimately show ?thesis
    by (auto simp: fold_add_filter add_moves_take movelist_clear_def simp flip: legal_def)
qed

lemma pseudo_move_ok:
  assumes "gen_inv b"
  shows "\<forall>m \<in> set (pseudo_moves b). move_ok b m" "\<forall>m \<in> set (pseudo_captures b). move_ok b m"
  using all_pseudo_gen_ok [OF assms] all_captures_gen_ok [OF assms]
  by (auto simp: pseudo_moves_take pseudo_captures_take gen_ok_def Let_def dest!: in_set_takeD)

lemma pseudo_length: "length (pseudo_moves b) \<le> MAX_MOVES" "length (pseudo_captures b) \<le> MAX_MOVES"
  by (simp_all add: pseudo_moves_take pseudo_captures_take)

lemma generate_moves_filter:
  assumes "gen_inv b"
  shows "generate_moves Z b = filter (legal Z b) (pseudo_moves b)"
  using filter_legal_eq [OF _ pseudo_move_ok(1) [OF assms] pseudo_length(1)] assms
  unfolding generate_moves_def gen_inv_def by (metis fst_conv)

lemma generate_captures_filter:
  assumes "gen_inv b"
  shows "generate_captures Z b = (if truce_no_cap b then [] else filter (legal Z b) (pseudo_captures b))"
  using filter_legal_eq [OF _ pseudo_move_ok(2) [OF assms] pseudo_length(2)] assms
  unfolding generate_captures_def gen_inv_def truce_no_cap_def movelist_clear_def by (metis fst_conv)

lemma generated_gen_ok:
  assumes "gen_inv b" "m \<in> set (generate_moves Z b)"
  shows "gen_ok b m" "legal Z b m"
  using assms all_pseudo_gen_ok [OF assms(1)]
  by (auto simp: generate_moves_filter pseudo_moves_take dest!: in_set_takeD)

section \<open>Properties\<close>

text \<open>
  (C3) \<open>generate_moves\<close> returns exactly the pseudo-legal moves that leave the mover safe, in generation
  order.  The scratch board on which the code plays and takes back every candidate never
  influences a later verdict, although its history entries are overwritten.
\<close>

theorem generate_moves_is_filter:
  assumes "gen_inv b"
  shows "generate_moves Z b = filter (\<lambda>m. safe_after (side b) (board_make_move Z b m)) (pseudo_moves b)"
  using generate_moves_filter [OF assms, of Z] by (simp add: legal_def [abs_def])

theorem generate_moves_is_filter_witness:
  "set (generate_moves zob_static duel) \<subseteq> set (pseudo_moves duel) \<and>
   length (generate_moves zob_static duel) \<le> MAX_MOVES"
proof -
  note eq = generate_moves_is_filter [OF duel_gen_inv, of zob_static]
  then show ?thesis
    by (auto simp: eq intro: order_trans [OF length_filter_le pseudo_length(1)])
qed

text \<open>
  (C16) The same for \<open>generate_captures\<close>, which returns nothing during an active truce.
\<close>

theorem generate_captures_is_filter:
  assumes "gen_inv b"
  shows "generate_captures Z b =
    (if game_mod b = MOD_TRUCE \<and> truce_active b then []
     else filter (\<lambda>m. safe_after (side b) (board_make_move Z b m)) (pseudo_captures b))"
  using generate_captures_filter [OF assms, of Z] by (simp add: truce_no_cap_def legal_def [abs_def])

theorem generate_captures_is_filter_witness:
  "set (generate_captures zob_static duel) \<subseteq> set (pseudo_captures duel)"
  using generate_captures_is_filter [OF duel_gen_inv, of zob_static] by auto

text \<open>Some piece of colour \<open>c\<close> attacks the square by the rules of the variant.\<close>

definition attacked_by :: "Board \<Rightarrow> Color \<Rightarrow> Square \<Rightarrow> bool" where
  "attacked_by b c k \<longleftrightarrow> (\<exists>s t. SQ_VALID s \<and> piece_at b s = PIECE_MAKE c t \<and> rule_attacks b c t s k)"

lemma attacked_by_query:
  assumes "wf_place b" "SQ_VALID k" "c \<in> {WHITE, BLACK}"
  shows "attacked_by b c k \<longleftrightarrow> board_square_attacked b k c"
  using board_square_attacked_rules [OF assms(1,2), of c] assms(3) unfolding attacked_by_def by blast

text \<open>
  (C11) A legal move never leaves the mover's king attacked, wherever check counts.  Take any move that
  \<open>generate_moves\<close> returns on a consistent position, and the position after it.  If the mover has a king, then
  no enemy piece attacks the (lowest) king by the rules of the variant; in Heir this holds when check
  applies to the mover (\<open>heir_check_applies\<close>), in Truce when the truce is over.  While the truce
  lasts, no piece of the mover attacks the enemy's (lowest) king either.
\<close>

theorem legal_moves_keep_king_safe:
  assumes "gen_inv b" "m \<in> set (generate_moves Z b)" "b' = board_make_move Z b m"
  shows "(pieces b' (side b) KING \<noteq> 0 \<and> (game_mod b = MOD_HEIR \<longrightarrow> heir_check_applies b' (side b)) \<and>
      \<not> (game_mod b = MOD_TRUCE \<and> truce_active b') \<longrightarrow>
      \<not> attacked_by b' (color_opposite (side b)) (bb_lsb (pieces b' (side b) KING))) \<and>
    (pieces b' (color_opposite (side b)) KING \<noteq> 0 \<and> game_mod b = MOD_TRUCE \<and> truce_active b' \<longrightarrow>
      \<not> attacked_by b' (side b) (bb_lsb (pieces b' (color_opposite (side b)) KING)))"
proof -
  note g = generated_gen_ok [OF assms(1,2)]
  have us: "side b \<in> {WHITE, BLACK}" "color_opposite (side b) \<in> {WHITE, BLACK}" "wf_place b"
    using assms(1) by (auto simp: gen_inv_def)
  have wf: "wf_place b'"
    using g(1) us(3) unfolding assms(3) by (intro board_make_move_at) (simp_all add: gen_ok_def Let_def)
  have gm: "game_mod b' = game_mod b" by (simp add: assms(3) board_make_move_frame)
  have safe: "safe_after (side b) b'" using g(2) unfolding legal_def assms(3) .
  have "attacked_by b' c (bb_lsb k) \<longleftrightarrow> board_square_attacked b' (bb_lsb k) c" if "k \<noteq> 0" "c \<in> {WHITE, BLACK}" for k c
    by (rule attacked_by_query [OF wf bb_lsb_props(1) [OF that(1)] that(2)])
  then show ?thesis
    using safe us(1,2) by (auto simp: safe_after_def board_in_check_def truce_no_cap_def Let_def BB_EMPTY_def gm)
qed

lemma duel_push_generated: "move_simple 28 36 PAWN \<in> set (generate_moves zob_static duel)"
proof -
  let ?m = "move_simple 28 36 PAWN"
  have "mobile duel PAWN = [28]" "pawn_moves_at duel False 28 = [?m, move_capture 28 35 PAWN PAWN]" by code_simp+
  then have p: "?m \<in> set (pseudo_moves duel)"
    by (auto simp: pseudo_moves_take all_pseudo_def MAX_MOVES_def)
  have hash: "board_in_check (b \<lparr> hash := h \<rparr>) c = board_in_check b c" for b h c
    by (simp add: board_square_attacked_def board_in_check_def effective_queens_def kb_phase1_def heir_check_applies_def)
  have "\<not> board_in_check ((make_book (make_place duel ?m) ?m) \<lparr> side := BLACK, ply := 1 \<rparr>) WHITE"
    by code_simp
  moreover have "(make_book (make_place duel ?m) ?m) \<lparr> side := BLACK, ply := 1 \<rparr> =
      (make_book (make_place duel ?m) ?m) \<lparr> side := (if u_kb_bonus (undo_top (make_book (make_place duel ?m) ?m))
        then side (make_book (make_place duel ?m) ?m) else color_opposite (side (make_book (make_place duel ?m) ?m))),
        ply := ply (make_book (make_place duel ?m) ?m) + 1 \<rparr>"
    by (simp add: make_book_place make_book_history_place make_place_frame bonus_of_def duel_def board_clear_def)
  ultimately have "\<not> board_in_check (board_make_move zob_static duel ?m) WHITE"
    by (simp only: board_make_move_phases make_switch_def Let_def hash simp_thms)
  moreover have "side duel = WHITE" "game_mod (board_make_move zob_static duel ?m) = MOD_CLASSIC"
    by (simp_all add: board_make_move_frame duel_def board_clear_def)
  ultimately have "legal zob_static duel ?m"
    by (simp add: legal_def safe_after_def truce_no_cap_def)
  with p show ?thesis by (simp add: generate_moves_filter [OF duel_gen_inv])
qed

theorem legal_moves_keep_king_safe_witness:
  "let b' = board_make_move zob_static duel (move_simple 28 36 PAWN) in
   pieces b' WHITE KING \<noteq> 0 \<and> \<not> attacked_by b' BLACK (bb_lsb (pieces b' WHITE KING))"
proof -
  let ?m = "move_simple 28 36 PAWN" and ?b' = "board_make_move zob_static duel (move_simple 28 36 PAWN)"
  have ok: "move_ok duel ?m" by (simp add: duel_def move_ok_def Let_def SQ_VALID_def board_clear_def)
  have "piece_at ?b' 4 = PIECE_MAKE WHITE KING"
    using board_make_move_at(2) [OF duel_wf ok, of 4]
    by (simp add: SQ_VALID_def moved_to_def reprison_def duel_def board_clear_def)
  then have "bit (pieces ?b' WHITE KING) (nat 4)"
    by (subst wf_place_bits_sq [OF board_make_move_at(1) [OF duel_wf ok]]) (simp_all add: SQ_VALID_def)
  then have "pieces ?b' WHITE KING \<noteq> 0" by auto
  moreover have "side duel = WHITE" "game_mod duel = MOD_CLASSIC" by (simp_all add: duel_def board_clear_def)
  ultimately show ?thesis
    using legal_moves_keep_king_safe [OF duel_gen_inv duel_push_generated refl] by (simp add: Let_def)
qed

end
