(* ===== verification/Play.thy ===== *)
theory Play
  imports Legality
begin

text \<open>
  Positions reached by playing generated moves.  The invariant \<open>gen_inv\<close>, under which the
  generators and the make/unmake pair are proved correct, is preserved by every generated move
  that does not take a king, and so holds throughout a game of every mod but Heir, where kings
  can be taken.
\<close>

section \<open>The en-passant square\<close>

lemma gen_okD:
  assumes "gen_ok b m"
  shows "move_ok b m" "MOVE_CAPTURED m = PIECE_TYPE (captured_of b m)"
    "PIECE_TYPE (captured_of b m) = KING \<Longrightarrow> game_mod b = MOD_HEIR"
    "MOVE_IS_EP m \<Longrightarrow> MOVE_PIECE m = PAWN \<and> captured_of b m = PIECE_MAKE (color_opposite (side b)) PAWN"
    "MOVE_IS_CASTLE m \<Longrightarrow> MOVE_PIECE m = KING \<and> (\<exists>rf rt. castle_rook (MOVE_TO m) = Some (rf, rt, side b))"
    "MOVE_IS_PROMO m \<Longrightarrow> MOVE_PIECE m = PAWN \<and>
       (MOVE_PROMO_TYPE m = KING \<longrightarrow> game_mod b \<in> {MOD_HEIR, MOD_SUCCESSION})"
    "side b \<in> {WHITE, BLACK}"
  using assms move_okD(1) [of b m] unfolding gen_ok_def Let_def by blast+

lemma gen_ok_double:
  assumes "gen_ok b m" "ep_after b m \<noteq> SQ_NONE"
  shows "MOVE_PIECE m = PAWN" "captured_of b m = PIECE_EMPTY" "\<not> MOVE_IS_EP m" "\<not> MOVE_IS_PROMO m"
    "SQ_ROW (MOVE_FROM m) = pawn_rank2 (side b)" "MOVE_TO m = MOVE_FROM m + 16 * pawn_dir (side b)"
    "piece_at b (MOVE_FROM m + 8 * pawn_dir (side b)) = PIECE_EMPTY"
proof -
  have d: "MOVE_PIECE m = PAWN \<and> game_mod b \<noteq> MOD_MERCENARY \<and>
      (MOVE_TO m - MOVE_FROM m = 16 \<or> MOVE_TO m - MOVE_FROM m = -16)"
    using assms(2) by (simp add: ep_after_def Let_def split: if_splits)
  then have "captured_of b m = PIECE_EMPTY \<and> \<not> MOVE_IS_EP m \<and> \<not> MOVE_IS_PROMO m \<and>
      SQ_ROW (MOVE_FROM m) = pawn_rank2 (side b) \<and> MOVE_TO m - MOVE_FROM m = 16 * pawn_dir (side b) \<and>
      piece_at b (MOVE_FROM m + 8 * pawn_dir (side b)) = PIECE_EMPTY"
    using assms(1) unfolding gen_ok_def Let_def by blast
  with d show "MOVE_PIECE m = PAWN" "captured_of b m = PIECE_EMPTY" "\<not> MOVE_IS_EP m" "\<not> MOVE_IS_PROMO m"
    "SQ_ROW (MOVE_FROM m) = pawn_rank2 (side b)" "MOVE_TO m = MOVE_FROM m + 16 * pawn_dir (side b)"
    "piece_at b (MOVE_FROM m + 8 * pawn_dir (side b)) = PIECE_EMPTY"
    by (auto simp: algebra_simps)
qed

text \<open>The square passed over, and the square the pawn arrives at.\<close>

lemma double_squares:
  assumes "SQ_VALID f" "SQ_ROW f = pawn_rank2 us" "t = f + 16 * pawn_dir us"
  shows "SQ (cdiv (SQ_ROW f + SQ_ROW t) 2) (SQ_COL f) = f + 8 * pawn_dir us"
    "SQ_VALID (f + 8 * pawn_dir us)" "SQ_ROW (f + 8 * pawn_dir us) = (if us = WHITE then 2 else 5)"
    "SQ (SQ_ROW (f + 8 * pawn_dir us) + pawn_dir us) (SQ_COL (f + 8 * pawn_dir us)) = t"
proof -
  have "(f + 16) div 8 = f div 8 + 2" "(f - 16) div 8 = f div 8 - 2" by presburger+
  then show "SQ (cdiv (SQ_ROW f + SQ_ROW t) 2) (SQ_COL f) = f + 8 * pawn_dir us"
    "SQ_VALID (f + 8 * pawn_dir us)" "SQ_ROW (f + 8 * pawn_dir us) = (if us = WHITE then 2 else 5)"
    "SQ (SQ_ROW (f + 8 * pawn_dir us) + pawn_dir us) (SQ_COL (f + 8 * pawn_dir us)) = t"
    using assms
    by (auto simp: pawn_rank2_def pawn_dir_def SQ_VALID_def SQ_ROW_div SQ_COL_mod SQ_board
        split: if_splits) presburger+
qed

lemma ep_ok_make:
  assumes wf: "wf_place b" and m: "gen_ok b m"
  shows "ep_ok (board_make_move Z b m)"
proof (cases "ep_after b m = SQ_NONE")
  case True
  then show ?thesis by (simp add: ep_ok_def board_make_move_flags)
next
  case False
  let ?f = "MOVE_FROM m" and ?t = "MOVE_TO m" and ?us = "side b" and ?d = "pawn_dir (side b)"
  note d = gen_ok_double [OF m False] and us = gen_okD(7) [OF m]
  note sq = double_squares [of ?f ?us ?t, OF _ d(5,6)]
  have ep: "ep_after b m = ?f + 8 * ?d" using False sq(1) by (auto simp: ep_after_def Let_def split: if_splits)
  have nb: "\<not> bonus_of b m" using d(1) by (simp add: bonus_of_def)
  have q: "\<not> MOVE_IS_CAPTURE m" using gen_okD(2) [OF m] d(2) by (simp add: MOVE_IS_CAPTURE_def)
  have nc: "\<not> MOVE_IS_CASTLE m" using gen_okD(5) [OF m] d(1) by auto
  have "?f + 8 * ?d \<noteq> ?f" "?f + 8 * ?d \<noteq> ?t" using d(6) by (auto simp: pawn_dir_def split: if_splits)
  then have mid: "moved_to b m (?f + 8 * ?d) = PIECE_EMPTY" and to: "moved_to b m ?t = PIECE_MAKE ?us PAWN"
    using d q nc by (simp_all add: moved_to_def arriving_def)
  have opp: "pawn_dir (color_opposite ?us) = - ?d" "color_opposite ?us = WHITE \<longleftrightarrow> ?us = BLACK"
    using us by (auto simp: pawn_dir_def)
  show ?thesis
    unfolding ep_ok_def board_make_move_flags(2) board_make_move_frame(4) ep
    using board_make_move_at(2) [OF wf gen_okD(1) [OF m]] nb mid to opp sq us by auto
qed


section \<open>Castling rights\<close>

lemma castle_bit:
  "(w :: u8) AND CASTLE_WK \<noteq> 0 \<longleftrightarrow> bit w 0" "w AND CASTLE_WQ \<noteq> 0 \<longleftrightarrow> bit w 1"
  "w AND CASTLE_BK \<noteq> 0 \<longleftrightarrow> bit w 2" "w AND CASTLE_BQ \<noteq> 0 \<longleftrightarrow> bit w 3"
proof -
  have *: "(w AND 2 ^ n \<noteq> 0) = bit w n" if "n < 8" for n :: nat
    using that by (auto simp: and_ne_0_iff bit_exp_iff)
  show "w AND CASTLE_WK \<noteq> 0 \<longleftrightarrow> bit w 0" "w AND CASTLE_WQ \<noteq> 0 \<longleftrightarrow> bit w 1"
    "w AND CASTLE_BK \<noteq> 0 \<longleftrightarrow> bit w 2" "w AND CASTLE_BQ \<noteq> 0 \<longleftrightarrow> bit w 3"
    using * [of 0] * [of 1] * [of 2] * [of 3] by (simp_all add: castle_masks)
qed

lemma bit_castle:
  "bit CASTLE_WK n \<longleftrightarrow> n = 0" "bit CASTLE_WQ n \<longleftrightarrow> n = 1" "bit CASTLE_BK n \<longleftrightarrow> n = 2" "bit CASTLE_BQ n \<longleftrightarrow> n = 3"
proof -
  have *: "bit (2 ^ k :: u8) n \<longleftrightarrow> n = k" if "k < 8" for k :: nat using that by (auto simp: bit_exp_iff)
  show "bit CASTLE_WK n \<longleftrightarrow> n = 0" "bit CASTLE_WQ n \<longleftrightarrow> n = 1" "bit CASTLE_BK n \<longleftrightarrow> n = 2" "bit CASTLE_BQ n \<longleftrightarrow> n = 3"
    using * [of 0] * [of 1] * [of 2] * [of 3] by (simp_all add: castle_masks)
qed

text \<open>What survives a move: a right the board had, unless its king or rook moved or its corner was entered.\<close>

lemma rights_after_bits:
  "bit (rights_after r us pt from to) 0 \<longleftrightarrow>
     bit r 0 \<and> \<not> (pt = KING \<and> us = WHITE) \<and> \<not> (pt = ROOK \<and> from = 7) \<and> to \<noteq> 7"
  "bit (rights_after r us pt from to) 1 \<longleftrightarrow>
     bit r 1 \<and> \<not> (pt = KING \<and> us = WHITE) \<and> \<not> (pt = ROOK \<and> from = 0) \<and> to \<noteq> 0"
  "bit (rights_after r us pt from to) 2 \<longleftrightarrow>
     bit r 2 \<and> \<not> (pt = KING \<and> us \<noteq> WHITE) \<and> \<not> (pt = ROOK \<and> from = 63) \<and> to \<noteq> 63"
  "bit (rights_after r us pt from to) 3 \<longleftrightarrow>
     bit r 3 \<and> \<not> (pt = KING \<and> us \<noteq> WHITE) \<and> \<not> (pt = ROOK \<and> from = 56) \<and> to \<noteq> 56"
  unfolding rights_after_def Let_def
  by (auto simp: bit_and_iff bit_or_iff bit_not_iff bit_castle)

lemma moved_to_keep:
  assumes m: "gen_ok b m" and s: "piece_at b s = PIECE_MAKE c t" "t \<in> {KING, ROOK}" "c \<in> {WHITE, BLACK}"
    and ne: "s \<noteq> MOVE_FROM m" "s \<noteq> MOVE_TO m" and castle: "MOVE_PIECE m = KING \<Longrightarrow> side b \<noteq> c"
  shows "moved_to b m s = piece_at b s"
proof -
  note ok = move_okD [OF gen_okD(1) [OF m]]
  have ep: "\<not> (MOVE_IS_EP m \<and> s = ep_cap_sq m)"
    using gen_okD(4) [OF m] s by (auto simp: captured_of_def)
  have pr: "reprison b m \<noteq> Some s" using reprison_props(2) [of b m s] s by auto
  have cr: "s \<noteq> rf \<and> s \<noteq> rt" if "MOVE_IS_CASTLE m" "castle_rook (MOVE_TO m) = Some (rf, rt, c')" for rf rt c'
  proof -
    have "MOVE_PIECE m = KING" "c' = side b" using gen_okD(5) [OF m that(1)] that(2) by auto
    then show ?thesis using ok(9) [OF that] s castle by auto
  qed
  show ?thesis
    using ep pr cr ne by (auto simp: moved_to_def split: option.split)
qed

lemma dest_not_king:
  assumes "move_ok b m" "PIECE_TYPE (captured_of b m) \<noteq> KING" "c \<in> {WHITE, BLACK}"
  shows "piece_at b (MOVE_TO m) \<noteq> PIECE_MAKE c KING"
proof (cases "MOVE_IS_EP m \<or> \<not> MOVE_IS_CAPTURE m")
  case True
  then show ?thesis using move_okD(6) [OF assms(1)] assms(3) by auto
next
  case False
  then show ?thesis using assms(2) by (auto simp: captured_of_def)
qed

text \<open>One right: it still implies its king and rook after a move that takes no king.\<close>

lemma right_ok_make:
  assumes wf: "wf_place b" and m: "gen_ok b m" and king: "PIECE_TYPE (captured_of b m) \<noteq> KING"
    and r: "right_ok b right c ksq rsq" and c: "c \<in> {WHITE, BLACK}" and sq: "SQ_VALID ksq" "SQ_VALID rsq"
    and after: "castling (board_make_move Z b m) AND right \<noteq> 0 \<Longrightarrow>
      castling b AND right \<noteq> 0 \<and> \<not> (MOVE_PIECE m = KING \<and> side b = c) \<and>
      \<not> (MOVE_PIECE m = ROOK \<and> MOVE_FROM m = rsq) \<and> MOVE_TO m \<noteq> rsq"
  shows "right_ok (board_make_move Z b m) right c ksq rsq"
  unfolding right_ok_def
proof (intro impI)
  assume "castling (board_make_move Z b m) AND right \<noteq> 0"
  note a = after [OF this]
  then have k: "piece_at b ksq = PIECE_MAKE c KING" and rk: "piece_at b rsq = PIECE_MAKE c ROOK"
    using r by (simp_all add: right_ok_def)
  note ok = move_okD [OF gen_okD(1) [OF m]]
  have from_to: "ksq \<noteq> MOVE_FROM m" "rsq \<noteq> MOVE_FROM m" "rsq \<noteq> MOVE_TO m"
    using a ok(5) k rk by auto
  have "ksq \<noteq> MOVE_TO m" using dest_not_king [OF gen_okD(1) [OF m] king c] k by auto
  then show "piece_at (board_make_move Z b m) ksq = PIECE_MAKE c KING \<and>
      piece_at (board_make_move Z b m) rsq = PIECE_MAKE c ROOK"
    using board_make_move_at(2) [OF wf gen_okD(1) [OF m]] sq a
      moved_to_keep [OF m k _ c from_to(1)] moved_to_keep [OF m rk _ c from_to(2,3)] k rk by auto
qed

lemma rights_ok_make:
  assumes "wf_place b" "gen_ok b m" "PIECE_TYPE (captured_of b m) \<noteq> KING" "rights_ok b"
  shows "rights_ok (board_make_move Z b m)"
  unfolding rights_ok_def
  using assms(4) gen_okD(7) [OF assms(2)]
  by (intro conjI; intro right_ok_make assms(1-3);
      auto simp: rights_ok_def SQ_VALID_def board_make_move_flags castle_bit rights_after_bits
        rights_after_bits(2) [unfolded One_nat_def])

lemma gen_inv_make:
  assumes "gen_inv b" "gen_ok b m" "PIECE_TYPE (captured_of b m) \<noteq> KING"
  shows "gen_inv (board_make_move Z b m)"
  using assms gen_okD(1,7) [OF assms(2)] ep_ok_make rights_ok_make board_make_move_at(1)
  by (auto simp: gen_inv_def board_make_move_frame(4))


section \<open>Kings\<close>

definition king_squares :: "Board \<Rightarrow> Color \<Rightarrow> Square set" where
  "king_squares b c = {s. SQ_VALID s \<and> piece_at b s = PIECE_MAKE c KING}"

lemma finite_squares: "finite {s. SQ_VALID s \<and> P s}"
  by (rule finite_subset [of _ "{0..63}"]) (auto simp: SQ_VALID_def)

lemma popcount_kings:
  assumes "wf_place b" "c \<in> {WHITE, BLACK}"
  shows "bb_popcount (pieces b c KING) = int (card (king_squares b c))"
proof -
  have "king_squares b c = set (bb_squares (pieces b c KING))"
    using assms by (auto simp: king_squares_def set_bb_squares wf_place_bits_sq)
  moreover have "distinct (bb_squares bb)" for bb
    by (simp add: bb_squares_filter distinct_map inj_on_def)
  ultimately show ?thesis by (simp add: bb_popcount_length distinct_card)
qed

lemma moved_to_king:
  assumes m: "gen_ok b m" and nk: "PIECE_TYPE (captured_of b m) \<noteq> KING"
    and np: "MOVE_IS_PROMO m \<Longrightarrow> MOVE_PROMO_TYPE m \<noteq> KING" and c: "c \<in> {WHITE, BLACK}"
  shows "moved_to b m s = PIECE_MAKE c KING \<longleftrightarrow>
    (if MOVE_PIECE m = KING \<and> side b = c then s = MOVE_TO m \<or> piece_at b s = PIECE_MAKE c KING \<and> s \<noteq> MOVE_FROM m
     else piece_at b s = PIECE_MAKE c KING)"
proof -
  note ok = move_okD [OF gen_okD(1) [OF m]]
  note to = dest_not_king [OF gen_okD(1) [OF m] nk c]
  have fr: "piece_at b (MOVE_FROM m) = PIECE_MAKE c KING \<longleftrightarrow> MOVE_PIECE m = KING \<and> side b = c"
    using ok(5) by auto
  have arr: "arriving b m = PIECE_MAKE c KING \<longleftrightarrow> MOVE_PIECE m = KING \<and> side b = c"
    using np gen_okD(6) [OF m] by (auto simp: arriving_def)
  have ep: "piece_at b (ep_cap_sq m) \<noteq> PIECE_MAKE c KING" if "MOVE_IS_EP m"
    using gen_okD(4) [OF m that] that by (auto simp: captured_of_def)
  have pr: "piece_at b s \<noteq> PIECE_MAKE c KING" if "reprison b m = Some s"
    using reprison_props(2) [OF that] c by auto
  have cr: "piece_at b rf \<noteq> PIECE_MAKE c KING" "piece_at b rt \<noteq> PIECE_MAKE c KING"
    if "MOVE_IS_CASTLE m" "castle_rook (MOVE_TO m) = Some (rf, rt, c')" for rf rt c'
    using ok(9) [OF that] c by auto
  show ?thesis
    using to fr arr ep pr cr ok(2) c unfolding moved_to_def
    by (auto simp: PIECE_MAKE_eq_EMPTY eq_commute [of PIECE_EMPTY] split: option.split)
qed

lemma king_squares_make:
  assumes "wf_place b" and m: "gen_ok b m" and nk: "PIECE_TYPE (captured_of b m) \<noteq> KING"
    and np: "MOVE_IS_PROMO m \<Longrightarrow> MOVE_PROMO_TYPE m \<noteq> KING" and c: "c \<in> {WHITE, BLACK}"
  shows "king_squares (board_make_move Z b m) c =
    (if MOVE_PIECE m = KING \<and> side b = c then insert (MOVE_TO m) (king_squares b c - {MOVE_FROM m})
     else king_squares b c)"
  using board_make_move_at(2) [OF assms(1) gen_okD(1) [OF m]] moved_to_king [OF m nk np c]
  by (auto simp: king_squares_def)

lemma king_count_make:
  assumes "wf_place b" and m: "gen_ok b m" and nk: "PIECE_TYPE (captured_of b m) \<noteq> KING"
    and np: "MOVE_IS_PROMO m \<Longrightarrow> MOVE_PROMO_TYPE m \<noteq> KING" and c: "c \<in> {WHITE, BLACK}"
  shows "card (king_squares (board_make_move Z b m) c) = card (king_squares b c)"
proof (cases "MOVE_PIECE m = KING \<and> side b = c")
  case True
  note ok = move_okD [OF gen_okD(1) [OF m]]
  have "MOVE_FROM m \<in> king_squares b c" using ok(5) True by (simp add: king_squares_def)
  moreover have "MOVE_TO m \<notin> king_squares b c"
    using dest_not_king [OF gen_okD(1) [OF m] nk c] by (simp add: king_squares_def)
  moreover have fin: "finite (king_squares b c)" unfolding king_squares_def by (rule finite_squares)
  ultimately have "card (insert (MOVE_TO m) (king_squares b c - {MOVE_FROM m})) = card (king_squares b c)"
    using card_Suc_Diff1 [of "king_squares b c" "MOVE_FROM m"] by simp
  then show ?thesis using True king_squares_make [OF assms] by simp
next
  case False
  then show ?thesis by (simp only: king_squares_make [OF assms] if_False)
qed


section \<open>Games\<close>

inductive game_step :: "ZobState \<Rightarrow> Board \<Rightarrow> Board \<Rightarrow> bool" for Z where
  play: "m \<in> set (generate_moves Z b) \<Longrightarrow> game_step Z b (board_make_move Z b m)"

inductive_cases game_stepE: "game_step Z b b'"

inductive reachable :: "ZobState \<Rightarrow> Board \<Rightarrow> Board \<Rightarrow> bool" for Z b0 where
  start: "reachable Z b0 b0"
| step: "reachable Z b0 b \<Longrightarrow> game_step Z b b' \<Longrightarrow> reachable Z b0 b'"

lemma game_step_inv:
  assumes "gen_inv b" "game_mod b \<noteq> MOD_HEIR" "game_step Z b b'"
  shows "gen_inv b'" "game_mod b' = game_mod b" "hash b' = zobrist_compute Z b'" "ply b' = Suc (ply b)"
proof -
  from assms(3) obtain m where m: "m \<in> set (generate_moves Z b)" and b': "b' = board_make_move Z b m"
    by (rule game_stepE)
  note g = generated_gen_ok(1) [OF assms(1) m]
  have "PIECE_TYPE (captured_of b m) \<noteq> KING" using gen_okD(3) [OF g] assms(2) by blast
  then show "gen_inv b'" unfolding b' by (rule gen_inv_make [OF assms(1) g])
  show "game_mod b' = game_mod b" "hash b' = zobrist_compute Z b'" "ply b' = Suc (ply b)"
    unfolding b' by (simp_all add: board_make_move_frame(2,3) make_hash)
qed

text \<open>A line: each move is one that \<open>generate_moves\<close> returns in the position it is played in.\<close>

fun generated_line :: "ZobState \<Rightarrow> Board \<Rightarrow> Move list \<Rightarrow> bool" where
  "generated_line Z b [] \<longleftrightarrow> True"
| "generated_line Z b (m # ms) \<longleftrightarrow> m \<in> set (generate_moves Z b) \<and> generated_line Z (board_make_move Z b m) ms"

lemma generated_line_fits:
  assumes "gen_inv b" "game_mod b \<noteq> MOD_HEIR" "generated_line Z b ms" "i < length ms"
  shows "wf_place (fold (\<lambda>m b. board_make_move Z b m) (take i ms) b) \<and>
    move_ok (fold (\<lambda>m b. board_make_move Z b m) (take i ms) b) (ms ! i)"
  using assms
proof (induction ms arbitrary: b i)
  case (Cons m ms)
  have step: "game_step Z b (board_make_move Z b m)" using Cons.prems(3) unfolding generated_line.simps by (blast intro: game_step.play)
  show ?case
  proof (cases i)
    case 0
    have "m \<in> set (generate_moves Z b)" using Cons.prems(3) unfolding generated_line.simps by blast
    from gen_okD(1) [OF generated_gen_ok(1) [OF Cons.prems(1) this]] Cons.prems(1) 0 show ?thesis by (simp add: gen_inv_def)
  next
    case (Suc j)
    note inv = game_step_inv(1,2) [OF Cons.prems(1,2) step]
    have "generated_line Z (board_make_move Z b m) ms" "j < length ms" using Cons.prems(3,4) Suc by simp_all
    from Cons.IH [OF inv(1) _ this] Suc inv(2) Cons.prems(2) show ?thesis by simp
  qed
qed simp

lemma reachable_inv:
  assumes "reachable Z b0 b" "gen_inv b0" "game_mod b0 \<noteq> MOD_HEIR"
  shows "gen_inv b \<and> game_mod b = game_mod b0 \<and> (b = b0 \<or> hash b = zobrist_compute Z b)"
  using assms(1)
proof induction
  case start
  then show ?case using assms by simp
next
  case (step b b')
  then show ?case using game_step_inv [of b Z b'] assms(3) by simp
qed

lemma reachable_kings:
  assumes "reachable Z b0 b" "gen_inv b0" "game_mod b0 \<notin> {MOD_HEIR, MOD_SUCCESSION}" "c \<in> {WHITE, BLACK}"
  shows "card (king_squares b c) = card (king_squares b0 c)"
  using assms(1)
proof induction
  case (step b b')
  then obtain m where m: "m \<in> set (generate_moves Z b)" and b': "b' = board_make_move Z b m"
    by (auto elim: game_stepE)
  have inv: "gen_inv b" "game_mod b = game_mod b0"
    using reachable_inv [OF step.hyps(1) assms(2)] assms(3) by auto
  note g = generated_gen_ok(1) [OF inv(1) m]
  have "card (king_squares (board_make_move Z b m) c) = card (king_squares b c)"
    using gen_okD(3,6) [OF g] inv assms(3,4)
    by (intro king_count_make g) (auto simp: gen_inv_def)
  with step b' show ?case by simp
qed simp

section \<open>Taking the king in Heir\<close>

text \<open>
  White: king e1, rook h1, pawn a2 and the right to castle kingside.  Black, to move: knight d3, king
  h8, pawn a7.  In Heir the knight may take the king.
\<close>

definition heir_demo :: Board where
  "heir_demo =
     (board_place (board_place (board_place (board_place (board_place (board_place board_clear
        4 WHITE KING) 7 WHITE ROOK) 8 WHITE PAWN) 19 BLACK KNIGHT) 63 BLACK KING) 48 BLACK PAWN)
     \<lparr> side := BLACK, castling := CASTLE_WK, game_mod := MOD_HEIR \<rparr>"

definition heir_kill :: Move where
  "heir_kill = move_capture 19 4 KNIGHT KING"

lemma heir_demo_simps:
  "side heir_demo = BLACK" "castling heir_demo = CASTLE_WK" "game_mod heir_demo = MOD_HEIR"
  "ep_square heir_demo = SQ_NONE" "heir_promoted heir_demo c = False"
  "mailbox heir_demo = (replicate 64 PIECE_EMPTY)[4 := PIECE_MAKE WHITE KING, 7 := PIECE_MAKE WHITE ROOK,
     8 := PIECE_MAKE WHITE PAWN, 19 := PIECE_MAKE BLACK KNIGHT, 63 := PIECE_MAKE BLACK KING, 48 := PIECE_MAKE BLACK PAWN]"
  by (simp_all add: heir_demo_def board_clear_def)

lemma heir_demo_inv: "gen_inv heir_demo"
proof -
  have "wf_place (board_place (board_place (board_place (board_place (board_place (board_place board_clear
        4 WHITE KING) 7 WHITE ROOK) 8 WHITE PAWN) 19 BLACK KNIGHT) 63 BLACK KING) 48 BLACK PAWN)"
    by (intro wf_place_place wf_place_clear) (simp_all add: SQ_VALID_def board_place_def board_clear_def)
  then have "wf_place heir_demo" unfolding heir_demo_def by (rule wf_place_cong) simp_all
  then show ?thesis
    by (simp add: gen_inv_def heir_demo_simps ep_ok_def rights_ok_def right_ok_def castle_masks)
qed

lemma heir_kill_ok: "wf_place heir_demo" "move_ok heir_demo heir_kill"
  using heir_demo_inv
  by (simp_all add: gen_inv_def move_ok_def heir_kill_def Let_def SQ_VALID_def heir_demo_simps)

lemma heir_kill_squares:
  "SQ_VALID s \<Longrightarrow> piece_at (board_make_move Z heir_demo heir_kill) s =
     (if s = 4 then PIECE_MAKE BLACK KNIGHT else if s = 19 then PIECE_EMPTY else piece_at heir_demo s)"
  unfolding board_make_move_at(2) [OF heir_kill_ok]
  by (simp add: moved_to_def arriving_def reprison_def heir_kill_def SQ_VALID_def heir_demo_simps)

lemma heir_kill_at:
  "mailbox (board_make_move Z heir_demo heir_kill) ! 4 = PIECE_MAKE BLACK KNIGHT"
  "mailbox (board_make_move Z heir_demo heir_kill) ! 5 = PIECE_EMPTY"
  "mailbox (board_make_move Z heir_demo heir_kill) ! 6 = PIECE_EMPTY"
  "mailbox (board_make_move Z heir_demo heir_kill) ! 7 = PIECE_MAKE WHITE ROOK"
  "mailbox (board_make_move Z heir_demo heir_kill) ! 8 = PIECE_MAKE WHITE PAWN"
  "mailbox (board_make_move Z heir_demo heir_kill) ! 48 = PIECE_MAKE BLACK PAWN"
  using heir_kill_squares [of 4 Z] heir_kill_squares [of 5 Z] heir_kill_squares [of 6 Z]
    heir_kill_squares [of 7 Z] heir_kill_squares [of 8 Z] heir_kill_squares [of 48 Z]
  by (simp_all add: SQ_VALID_def heir_demo_simps)

lemma heir_kill_flags:
  "castling (board_make_move Z heir_demo heir_kill) = CASTLE_WK"
  "side (board_make_move Z heir_demo heir_kill) = WHITE"
  "game_mod (board_make_move Z heir_demo heir_kill) = MOD_HEIR"
  "heir_promoted (board_make_move Z heir_demo heir_kill) c = False"
  by (simp_all add: board_make_move_flags board_make_move_frame heir_demo_simps bonus_of_def heir_kill_def
      SQ_VALID_def rights_after_def heir_after_def castle_masks)

lemma heir_kill_bits:
  assumes "c \<in> {WHITE, BLACK}" "SQ_VALID s"
  shows "bit (pieces (board_make_move Z heir_demo heir_kill) c t) (nat s) \<longleftrightarrow>
    piece_at (board_make_move Z heir_demo heir_kill) s = PIECE_MAKE c t"
  using wf_place_bits_sq(1) [OF board_make_move_at(1) [OF heir_kill_ok, of Z] assms(2)] assms(1) by auto

lemma heir_kill_pawns: "c \<in> {WHITE, BLACK} \<Longrightarrow> pieces (board_make_move Z heir_demo heir_kill) c PAWN \<noteq> 0"
  using heir_kill_bits [of WHITE 8 Z PAWN] heir_kill_bits [of BLACK 48 Z PAWN]
  by (auto simp: SQ_VALID_def heir_kill_at)

lemma set_take_append_take:
  "set (take n (xs @ take k ys)) \<subseteq> set (take n (xs @ ys @ zs))" if "length xs + k \<le> n"
proof -
  have "set (take k ys) \<subseteq> set (take (n - length xs) ys)"
    using that by (intro set_take_subset_set_take) simp
  with that show ?thesis by auto
qed

lemma heir_kill_target: "heir_kill \<in> set (take 64 (piece_moves_at heir_demo KNIGHT False 19))"
proof -
  note wf = heir_kill_ok(1)
  have "bit (mod_targets heir_demo KNIGHT False 19) (nat 4)"
    using bit_knight_attacks [of 19 4] wf_place_bits_sq(2) [OF wf, of 4 BLACK]
    by (simp add: mod_targets_def piece_targets_def truce_no_cap_def heir_demo_simps SQ_VALID_def bit_simps
        knight_step_def SQ_ROW_div SQ_COL_mod)
  then have "4 \<in> set (bb_squares (mod_targets heir_demo KNIGHT False 19))"
    by (simp add: set_bb_squares SQ_VALID_def)
  moreover have "heir_kill \<in> set (target_moves_at heir_demo KNIGHT 19 4)"
    by (simp add: target_moves_at_def heir_kill_def heir_demo_simps stq_protected_def)
  ultimately have "heir_kill \<in> set (piece_moves_at heir_demo KNIGHT False 19)"
    unfolding piece_moves_at_def by (auto simp: heir_demo_simps)
  moreover have "length (concat (map (target_moves_at heir_demo KNIGHT 19) xs)) \<le> length xs" for xs
    by (induction xs) (auto simp: target_moves_at_def Let_def)
  then have "length (piece_moves_at heir_demo KNIGHT False 19) \<le> length (bb_squares (mod_targets heir_demo KNIGHT False 19))"
    unfolding piece_moves_at_def by simp
  then have "length (piece_moves_at heir_demo KNIGHT False 19) \<le> 64"
    using length_filter_le [of "bit (mod_targets heir_demo KNIGHT False 19)" "[0..<64]"] by (simp add: bb_squares_filter)
  ultimately show ?thesis by simp
qed

lemma heir_kill_generated: "heir_kill \<in> set (generate_moves Z heir_demo)"
proof -
  have ev: "mobile heir_demo PAWN = [48]" "length (pawn_moves_at heir_demo False 48) = 2"
    "mobile heir_demo KNIGHT = [19]"
    by code_simp+
  have "heir_kill \<in> set (take MAX_MOVES (pawn_moves_at heir_demo False 48 @ take 64 (piece_moves_at heir_demo KNIGHT False 19)))"
    using ev(2) heir_kill_target by (simp add: MAX_MOVES_def)
  then have p: "heir_kill \<in> set (pseudo_moves heir_demo)"
    unfolding pseudo_moves_take all_pseudo_def
    using set_take_append_take [of "pawn_moves_at heir_demo False 48" 64 MAX_MOVES "piece_moves_at heir_demo KNIGHT False 19"] ev(2)
    by (simp only: ev(1,3) list.map concat.simps append_Nil2 append_assoc) (auto simp: MAX_MOVES_def)
  have "\<not> board_in_check (board_make_move Z heir_demo heir_kill) BLACK"
    using heir_kill_pawns [of BLACK Z]
    by (simp add: board_in_check_def heir_check_applies_def heir_kill_flags BB_EMPTY_def)
  then have "legal Z heir_demo heir_kill"
    by (simp add: legal_def safe_after_def heir_demo_simps truce_no_cap_def heir_kill_flags)
  with p show ?thesis by (simp add: generate_moves_filter [OF heir_demo_inv])
qed

lemma heir_castle_generated: "castle_move 4 6 \<in> set (gen_castling (board_make_move Z heir_demo heir_kill) movelist_clear)"
proof -
  let ?b = "board_make_move Z heir_demo heir_kill"
  have "\<not> need_check_safe ?b WHITE"
    using heir_kill_pawns [of WHITE Z] by (simp add: need_check_safe_def heir_check_applies_def heir_kill_flags BB_EMPTY_def)
  then have "castle_move 4 6 \<in> set (castling_moves ?b)"
    by (simp add: castling_moves_def castling_blocked_def castle_side_ok_def heir_kill_flags truce_no_cap_def
        heir_kill_at castle_masks)
  moreover have "length (castling_moves ?b) \<le> 2" by (simp add: castling_moves_def)
  ultimately show ?thesis
    unfolding gen_castling_list by (simp add: add_moves_take movelist_clear_def MAX_MOVES_def)
qed

lemma castle_unmake_home:
  assumes "length (mailbox b) = 64" "side b = WHITE" "game_mod b = MOD_HEIR"
  shows "piece_at (board_unmake_move (board_make_move Z b (castle_move 4 6))) 4 = PIECE_MAKE WHITE KING"
proof -
  let ?m = "castle_move 4 6"
  let ?c = "board_make_move Z b ?m"
  have "length (mailbox (make_place b ?m)) = length (mailbox b)"
    by (simp add: make_place_def make_castle_rook_def castle_rook_def make_piece_def make_capture_def
        castle_move_def SQ_VALID_def)
  then have len: "length (mailbox ?c) = 64"
    using assms(1) by (simp add: board_make_move_frame)
  have top: "undo_top (?c \<lparr> ply := ply ?c - 1 \<rparr>) = undo_of b ?m"
    by (simp add: board_make_move_frame)
  have us: "WHITE = (if u_kb_bonus (undo_of b ?m) then side ?c else color_opposite (side ?c))"
    by (simp add: board_make_move_frame(4) bonus_of_def assms)
  show ?thesis
    unfolding board_unmake_move_place [OF top us] unmake_place_def Let_def
    using len by (simp add: unmake_state_def castle_move_def SQ_VALID_def captured_of_def unmake_castle_rook_def castle_rook_def)
qed


section \<open>Properties\<close>

text \<open>
  (C36) A defect of the code in Heir: a king can be taken on its home square without the loss of its
  castling rights, and \<open>gen_castling\<close> does not look for the king.  In the position \<open>heir_demo\<close> the
  generated move \<open>heir_kill\<close> takes the white king on e1; then castling is generated although White
  has no king, and playing and taking back that move leaves a white king on e1 in place of the
  black knight that stood there.
\<close>

theorem heir_castling_without_king:
  "heir_kill \<in> set (generate_moves Z heir_demo) \<and>
   (let b = board_make_move Z heir_demo heir_kill in
    king_squares b WHITE = {} \<and>
    castle_move 4 6 \<in> set (gen_castling b movelist_clear) \<and>
    piece_at b 4 = PIECE_MAKE BLACK KNIGHT \<and>
    piece_at (board_unmake_move (board_make_move Z b (castle_move 4 6))) 4 = PIECE_MAKE WHITE KING)"
proof -
  have "king_squares (board_make_move Z heir_demo heir_kill) WHITE = {}"
    by (auto simp: king_squares_def heir_kill_squares heir_demo_simps SQ_VALID_def nth_list_update split: if_splits)
  moreover have "length (mailbox (board_make_move Z heir_demo heir_kill)) = 64"
    using board_make_move_at(1) [OF heir_kill_ok] by simp
  note castle_unmake_home [OF this, of Z, unfolded heir_kill_flags, OF refl refl]
  ultimately show ?thesis
    unfolding Let_def using heir_kill_generated heir_castle_generated
    by (simp add: heir_kill_at)
qed

text \<open>
  (C13) Going down a line and back leaves the board as it was.  From a consistent position of any variant but
  Heir, play moves that \<open>generate_moves\<close> returns, each in the position reached so far; as many take-backs as
  moves restore the starting board up to dead entries of the undo history.
\<close>

theorem line_unwinds:
  assumes "gen_inv b" "game_mod b \<noteq> MOD_HEIR" "generated_line Z b ms"
  shows "live_eq b ((board_unmake_move ^^ length ms) (fold (\<lambda>m b. board_make_move Z b m) ms b))"
proof -
  have "\<forall>i < length ms. wf_place (fold (\<lambda>m b. board_make_move Z b m) (take i ms) b) \<and>
      move_ok (fold (\<lambda>m b. board_make_move Z b m) (take i ms) b) (ms ! i)"
    using generated_line_fits [OF assms] by blast
  from chess.unwind_line [where Z = Z, OF this chess.eqv_refl] show ?thesis .
qed

theorem line_unwinds_witness:
  "generated_line zob_static duel [move_simple 28 36 PAWN] \<and>
   live_eq duel (board_unmake_move (board_make_move zob_static duel (move_simple 28 36 PAWN)))"
proof -
  have line: "generated_line zob_static duel [move_simple 28 36 PAWN]"
    unfolding generated_line.simps using duel_push_generated by blast
  have "game_mod duel \<noteq> MOD_HEIR" by (simp add: duel_def board_clear_def)
  from line_unwinds [OF duel_gen_inv this line] line show ?thesis
    by (simp only: list.size fold_simps funpow.simps funpow_0 o_apply id_apply One_nat_def add_0 plus_1_eq_Suc simp_thms)
qed

end
