(* ===== verification/Fen.thy ===== *)
theory Fen
  imports Play
begin

text \<open>
  \<open>board_set_fen\<close>, \<open>board_get_fen\<close> and \<open>board_init\<close> of \<open>board/board_fen.c\<close>.  A C string is the list
  of its characters before the terminating NUL; the parser's index is the remaining suffix.
  The one place where the parser can step over the terminator, and the one place where it can
  make \<open>zobrist_compute\<close> index outside \<open>zob_ep\<close>, are error results of the model.

  The clock fields are unbounded integers here (the code lets an \<open>int\<close> overflow).
\<close>

section \<open>Characters\<close>

abbreviation char_val :: "char \<Rightarrow> int" where
  "char_val c \<equiv> of_char c"

definition isupper :: "char \<Rightarrow> bool" where
  "isupper c \<longleftrightarrow> 65 \<le> char_val c \<and> char_val c \<le> 90"

definition tolower :: "char \<Rightarrow> char" where
  "tolower c = (if isupper c then char_of (char_val c + 32) else c)"

definition toupper :: "char \<Rightarrow> char" where
  "toupper c = (if 97 \<le> char_val c \<and> char_val c \<le> 122 then char_of (char_val c - 32) else c)"


section \<open>Parsing\<close>

datatype fen_error =
    Overread  \<comment> \<open>the index passes the terminating NUL\<close>
  | Bad_ep_index  \<comment> \<open>\<open>zob_ep\<close> is indexed outside 0..63\<close>

definition fen_piece :: "char \<Rightarrow> PieceType" where
  "fen_piece ch =
     (let l = tolower ch in
      if l = CHR ''p'' then PAWN else if l = CHR ''n'' then KNIGHT else if l = CHR ''b'' then BISHOP
      else if l = CHR ''r'' then ROOK else if l = CHR ''q'' then QUEEN else if l = CHR ''k'' then KING
      else PIECE_NONE)"

fun fen_place :: "Board \<Rightarrow> int \<Rightarrow> int \<Rightarrow> string \<Rightarrow> Board \<times> string" where
  "fen_place b row col [] = (b, [])"
| "fen_place b row col (ch # s) =
     (if ch = CHR '' '' then (b, ch # s)
      else if ch = CHR ''/'' then fen_place b (row - 1) 0 s
      else if char_val (CHR ''1'') \<le> char_val ch \<and> char_val ch \<le> char_val (CHR ''8'')
      then fen_place b row (col + (char_val ch - char_val (CHR ''0''))) s
      else
        let c = (if isupper ch then WHITE else BLACK); t = fen_piece ch;
            b = (if t \<noteq> PIECE_NONE \<and> row \<ge> 0 \<and> col < 8 then board_place b (SQ row col) c t else b)
        in fen_place b row (col + 1) s)"

definition skip_space :: "string \<Rightarrow> string" where
  "skip_space s = (case s of [] \<Rightarrow> [] | c # s' \<Rightarrow> if c = CHR '' '' then s' else s)"

abbreviation field :: "string \<Rightarrow> string" where
  "field \<equiv> takeWhile (\<lambda>c. c \<noteq> CHR '' '')"

definition next_field :: "string \<Rightarrow> string" where
  "next_field s = skip_space (dropWhile (\<lambda>c. c \<noteq> CHR '' '') s)"

definition fen_right :: "char \<Rightarrow> u8" where
  "fen_right ch =
     (if ch = CHR ''K'' then CASTLE_WK else if ch = CHR ''Q'' then CASTLE_WQ
      else if ch = CHR ''k'' then CASTLE_BK else if ch = CHR ''q'' then CASTLE_BQ else 0)"

definition fen_castling :: "string \<Rightarrow> u8" where
  "fen_castling s = fold (\<lambda>ch r. r OR fen_right ch) (field s) 0"

definition fen_ep :: "string \<Rightarrow> fen_error + Square \<times> string" where
  "fen_ep s =
     (case s of
        [] \<Rightarrow> Inr (SQ_NONE, [])
      | ch # s' \<Rightarrow>
          if ch = CHR ''-'' then Inr (SQ_NONE, s')
          else if char_val (CHR ''a'') \<le> char_val ch \<and> char_val ch \<le> char_val (CHR ''h'') then
            (case s' of
               [] \<Rightarrow> Inl Overread
             | ch' # s'' \<Rightarrow>
                 Inr (SQ (char_val ch' - char_val (CHR ''1'')) (char_val ch - char_val (CHR ''a'')), s''))
          else Inr (SQ_NONE, s))"

definition fen_number :: "string \<Rightarrow> int" where
  "fen_number s = foldl (\<lambda>n ch. n * 10 + (char_val ch - char_val (CHR ''0''))) 0 s"

definition fen_parse :: "string \<Rightarrow> fen_error + Board" where
  "fen_parse fen =
     (case fen_place board_clear 7 0 fen of (b, s) \<Rightarrow>
      let s = skip_space s;
          b = b \<lparr> side := (if s \<noteq> [] \<and> hd s = CHR ''b'' then BLACK else WHITE) \<rparr>;
          s = next_field s;
          b = b \<lparr> castling := fen_castling s \<rparr>;
          s = next_field s
      in case fen_ep s of
           Inl e \<Rightarrow> Inl e
         | Inr (ep, s) \<Rightarrow>
             let b = b \<lparr> ep_square := ep \<rparr>;
                 s = skip_space s;
                 b = b \<lparr> halfmove := fen_number (field s) \<rparr>;
                 s = next_field s;
                 n = fen_number (takeWhile (\<lambda>c. char_val (CHR ''0'') \<le> char_val c \<and> char_val c \<le> char_val (CHR ''9'')) s)
             in Inr (b \<lparr> fullmove := (if n < 1 then 1 else n) \<rparr>))"

definition board_set_fen :: "ZobState \<Rightarrow> string \<Rightarrow> fen_error + Board" where
  "board_set_fen Z fen =
     (case fen_parse fen of
        Inl e \<Rightarrow> Inl e
      | Inr b \<Rightarrow>
          if ep_square b \<noteq> SQ_NONE \<and> \<not> SQ_VALID (ep_square b) then Inl Bad_ep_index
          else Inr (board_refresh Z b))"


section \<open>Printing\<close>

definition digit :: "int \<Rightarrow> char" where
  "digit n = char_of (char_val (CHR ''0'') + n)"

definition fen_symbol :: "Piece \<Rightarrow> char" where
  "fen_symbol p =
     (let ch = ''pnbrqk'' ! type_val (PIECE_TYPE p) in
      if PIECE_COLOR p = WHITE then toupper ch else ch)"

text \<open>One row, from the column reached with \<open>e\<close> pending empty squares.\<close>

fun fen_row :: "Piece list \<Rightarrow> int \<Rightarrow> string" where
  "fen_row [] e = (if e > 0 then [digit e] else [])"
| "fen_row (p # ps) e =
     (if p = PIECE_EMPTY then fen_row ps (e + 1)
      else (if e > 0 then [digit e] else []) @ fen_symbol p # fen_row ps 0)"

definition row_pieces :: "Board \<Rightarrow> int \<Rightarrow> Piece list" where
  "row_pieces b row = map (\<lambda>col. piece_at b (SQ row col)) [0, 1, 2, 3, 4, 5, 6, 7]"

definition fen_board :: "Board \<Rightarrow> string" where
  "fen_board b =
     concat (map (\<lambda>row. fen_row (row_pieces b row) 0 @ (if row > 0 then ''/'' else [])) [7, 6, 5, 4, 3, 2, 1, 0])"

fun show_nat :: "nat \<Rightarrow> string" where
  "show_nat n = (if n < 10 then [digit (int n)] else show_nat (n div 10) @ [digit (int (n mod 10))])"

definition show_int :: "int \<Rightarrow> string" where
  "show_int i = (if i < 0 then ''-'' @ show_nat (nat (- i)) else show_nat (nat i))"

definition fen_rights :: "u8 \<Rightarrow> string" where
  "fen_rights r =
     (if r = 0 then ''-''
      else (if r AND CASTLE_WK \<noteq> 0 then ''K'' else []) @ (if r AND CASTLE_WQ \<noteq> 0 then ''Q'' else []) @
           (if r AND CASTLE_BK \<noteq> 0 then ''k'' else []) @ (if r AND CASTLE_BQ \<noteq> 0 then ''q'' else []))"

definition fen_ep_text :: "Square \<Rightarrow> string" where
  "fen_ep_text ep =
     (if ep = SQ_NONE then ''-''
      else [char_of (char_val (CHR ''a'') + SQ_COL ep), char_of (char_val (CHR ''1'') + SQ_ROW ep)])"

definition board_get_fen :: "Board \<Rightarrow> string" where
  "board_get_fen b =
     fen_board b @ '' '' @ (if side b = WHITE then ''w'' else ''b'') @ '' '' @
     fen_rights (castling b) @ '' '' @ fen_ep_text (ep_square b) @
     '' '' @ show_int (halfmove b) @ '' '' @ show_int (fullmove b)"

definition startpos :: string where
  "startpos = ''rnbqkbnr/pppppppp/8/8/8/8/PPPPPPPP/RNBQKBNR w KQkq - 0 1''"

definition board_init :: "ZobState \<Rightarrow> GameMod \<Rightarrow> fen_error + Board" where
  "board_init Z gm =
     (case board_set_fen Z startpos of
        Inl e \<Rightarrow> Inl e
      | Inr b \<Rightarrow> Inr (b \<lparr> game_mod := gm \<rparr>))"

declare show_nat.simps [simp del]


section \<open>Any string gives a consistent board\<close>

text \<open>
  The squares at and after the cursor are empty: the cursor only moves right and down, so no
  square is written twice.
\<close>

definition ahead_empty :: "Board \<Rightarrow> int \<Rightarrow> int \<Rightarrow> bool" where
  "ahead_empty b row col \<longleftrightarrow>
     (\<forall>r c. on_board r c \<and> (r < row \<or> r = row \<and> col \<le> c) \<longrightarrow> piece_at b (SQ r c) = PIECE_EMPTY)"

lemma ahead_empty_mono:
  "ahead_empty b row col \<Longrightarrow> col \<le> col' \<Longrightarrow> ahead_empty b row col'"
  "ahead_empty b row col \<Longrightarrow> row' < row \<Longrightarrow> ahead_empty b row' col'"
  by (auto simp: ahead_empty_def)

lemma fen_piece_type: "fen_piece ch \<noteq> PIECE_NONE \<Longrightarrow> fen_piece ch \<in> set piece_types"
  by (auto simp: fen_piece_def Let_def split: if_splits)

lemma SQ_inj: "on_board r c \<Longrightarrow> on_board r' c' \<Longrightarrow> SQ r c = SQ r' c' \<longleftrightarrow> r = r' \<and> c = c'"
  by (metis on_board_SQ(3,4))

lemma fen_place_step:
  assumes "wf_place b" "ahead_empty b row col" "on_board row col" "c \<in> {WHITE, BLACK}" "t \<in> set piece_types"
  shows "wf_place (board_place b (SQ row col) c t)" "ahead_empty (board_place b (SQ row col) c t) row (col + 1)"
proof -
  have "piece_at b (SQ row col) = PIECE_EMPTY" using assms(2,3) by (auto simp: ahead_empty_def)
  then show "wf_place (board_place b (SQ row col) c t)"
    using assms by (intro wf_place_place) (auto simp: on_board_SQ(2))
  show "ahead_empty (board_place b (SQ row col) c t) row (col + 1)"
    using assms(1-3) by (auto simp: ahead_empty_def nth_sq_update on_board_SQ(2) SQ_inj)
qed

lemma fen_place_wf:
  assumes "wf_place b" "ahead_empty b row col" "row \<le> 7" "0 \<le> col"
  shows "wf_place (fst (fen_place b row col s))"
  using assms
proof (induction b row col s rule: fen_place.induct)
  case (1 b row col)
  then show ?case by simp
next
  case (2 b row col ch s)
  consider "ch = CHR '' ''" | "ch = CHR ''/''"
    | "ch \<noteq> CHR '' ''" "ch \<noteq> CHR ''/''" "char_val (CHR ''1'') \<le> char_val ch \<and> char_val ch \<le> char_val (CHR ''8'')"
    | "ch \<noteq> CHR '' ''" "ch \<noteq> CHR ''/''" "\<not> (char_val (CHR ''1'') \<le> char_val ch \<and> char_val ch \<le> char_val (CHR ''8''))"
    by blast
  then show ?case
  proof cases
    case 1
    then show ?thesis using 2 by simp
  next
    case c2: 2
    have "wf_place (fst (fen_place b (row - 1) 0 s))"
      using c2 2(4-7) ahead_empty_mono(2) [OF 2(5), of "row - 1" 0] by (intro 2(1)) auto
    then show ?thesis using c2 by simp
  next
    case 3
    have "wf_place (fst (fen_place b row (col + (char_val ch - char_val (CHR ''0''))) s))"
      using 3 2(4-7) ahead_empty_mono(1) [OF 2(5), of "col + (char_val ch - char_val (CHR ''0''))"]
      by (intro 2(2)) auto
    then show ?thesis using 3 by simp
  next
    case 4
    let ?c = "if isupper ch then WHITE else BLACK"
    let ?p = "fen_piece ch \<noteq> PIECE_NONE \<and> 0 \<le> row \<and> col < 8"
    let ?b = "if ?p then board_place b (SQ row col) ?c (fen_piece ch) else b"
    have "wf_place ?b \<and> ahead_empty ?b row (col + 1)"
    proof (cases ?p)
      case True
      then have "on_board row col" using 2(6,7) by (simp add: on_board_def)
      then show ?thesis using fen_place_step [OF 2(4,5), of ?c "fen_piece ch"] fen_piece_type [of ch] True by simp
    next
      case False
      show ?thesis unfolding if_not_P [OF False] using 2(4) ahead_empty_mono(1) [OF 2(5), of "col + 1"] by simp
    qed
    then have "wf_place (fst (fen_place ?b row (col + 1) s))"
      using 4 2(6,7) by (intro 2(3) [OF _ _ _ refl refl refl]) auto
    then show ?thesis using 4 by (simp add: Let_def) blast
  qed
qed

lemma fen_parse_wf:
  assumes "fen_parse fen = Inr b"
  shows "wf_place b" "side b \<in> {WHITE, BLACK}" "1 \<le> fullmove b"
proof -
  have "ahead_empty board_clear 7 0"
    by (auto simp: ahead_empty_def board_clear_def on_board_SQ(1) on_board_def)
  then have "wf_place (fst (fen_place board_clear 7 0 fen))"
    by (intro fen_place_wf wf_place_clear) simp_all
  then obtain b0 s where b0: "fen_place board_clear 7 0 fen = (b0, s)" "wf_place b0"
    by (cases "fen_place board_clear 7 0 fen") simp
  show "wf_place b"
    using assms b0 by (auto simp: fen_parse_def Let_def wf_place_def split: sum.splits prod.splits)
  show "side b \<in> {WHITE, BLACK}" "1 \<le> fullmove b"
    using assms b0(1) by (auto simp: fen_parse_def Let_def split: sum.splits prod.splits)
qed


section \<open>Printing and parsing back\<close>

lemma char_val_digit: "0 \<le> n \<Longrightarrow> n \<le> 9 \<Longrightarrow> char_val (digit n) = 48 + n"
  by (simp add: digit_def)

lemma digit_neq:
  assumes "0 \<le> n" "n \<le> 9"
  shows "digit n \<noteq> CHR '' ''" "digit n \<noteq> CHR ''/''"
  using char_val_digit [OF assms] assms by (auto dest!: arg_cong [where f = char_val])

lemma fen_symbol_table:
  "fen_symbol (PIECE_MAKE WHITE PAWN) = CHR ''P''"
  "fen_symbol (PIECE_MAKE WHITE KNIGHT) = CHR ''N''"
  "fen_symbol (PIECE_MAKE WHITE BISHOP) = CHR ''B''"
  "fen_symbol (PIECE_MAKE WHITE ROOK) = CHR ''R''"
  "fen_symbol (PIECE_MAKE WHITE QUEEN) = CHR ''Q''"
  "fen_symbol (PIECE_MAKE WHITE KING) = CHR ''K''"
  "fen_symbol (PIECE_MAKE BLACK PAWN) = CHR ''p''"
  "fen_symbol (PIECE_MAKE BLACK KNIGHT) = CHR ''n''"
  "fen_symbol (PIECE_MAKE BLACK BISHOP) = CHR ''b''"
  "fen_symbol (PIECE_MAKE BLACK ROOK) = CHR ''r''"
  "fen_symbol (PIECE_MAKE BLACK QUEEN) = CHR ''q''"
  "fen_symbol (PIECE_MAKE BLACK KING) = CHR ''k''"
  by code_simp+

lemma fen_piece_table:
  "fen_piece (CHR ''P'') = PAWN"
  "fen_piece (CHR ''N'') = KNIGHT"
  "fen_piece (CHR ''B'') = BISHOP"
  "fen_piece (CHR ''R'') = ROOK"
  "fen_piece (CHR ''Q'') = QUEEN"
  "fen_piece (CHR ''K'') = KING"
  "fen_piece (CHR ''p'') = PAWN"
  "fen_piece (CHR ''n'') = KNIGHT"
  "fen_piece (CHR ''b'') = BISHOP"
  "fen_piece (CHR ''r'') = ROOK"
  "fen_piece (CHR ''q'') = QUEEN"
  "fen_piece (CHR ''k'') = KING"
  by code_simp+

lemma isupper_table:
  "isupper (CHR ''P'') = True"
  "isupper (CHR ''N'') = True"
  "isupper (CHR ''B'') = True"
  "isupper (CHR ''R'') = True"
  "isupper (CHR ''Q'') = True"
  "isupper (CHR ''K'') = True"
  "isupper (CHR ''p'') = False"
  "isupper (CHR ''n'') = False"
  "isupper (CHR ''b'') = False"
  "isupper (CHR ''r'') = False"
  "isupper (CHR ''q'') = False"
  "isupper (CHR ''k'') = False"
  by code_simp+

lemma symbol_piece:
  assumes "c \<in> {WHITE, BLACK}" "t \<in> set piece_types" "p = PIECE_MAKE c t"
  shows "fen_piece (fen_symbol p) = t" "isupper (fen_symbol p) = (c = WHITE)"
    "fen_symbol p \<noteq> CHR '' ''" "fen_symbol p \<noteq> CHR ''/''" "57 < char_val (fen_symbol p)"
  using assms by (auto simp: fen_symbol_table fen_piece_table isupper_table)


text \<open>Setting a row of pieces, from a column on.\<close>

fun place_row :: "Board \<Rightarrow> int \<Rightarrow> int \<Rightarrow> Piece list \<Rightarrow> Board" where
  "place_row b row col [] = b"
| "place_row b row col (p # ps) =
     place_row (if p = PIECE_EMPTY then b else board_place b (SQ row col) (PIECE_COLOR p) (PIECE_TYPE p))
       row (col + 1) ps"

declare fen_place.simps(2) [simp del]

lemma fen_place_digit:
  assumes "1 \<le> e" "e \<le> 8"
  shows "fen_place b row col (digit e # s) = fen_place b row (col + e) s"
  using assms digit_neq [of e] by (simp add: fen_place.simps(2) char_val_digit)

lemma fen_place_symbol:
  assumes "piece_ok p" "p \<noteq> PIECE_EMPTY" "0 \<le> row" "col < 8"
  shows "fen_place b row col (fen_symbol p # s) =
    fen_place (board_place b (SQ row col) (PIECE_COLOR p) (PIECE_TYPE p)) row (col + 1) s"
proof -
  from assms(1,2) obtain c t where p: "p = PIECE_MAKE c t" "c \<in> {WHITE, BLACK}" "t \<in> set piece_types"
    by (auto elim: piece_ok_cases)
  then have "(if isupper (fen_symbol p) then WHITE else BLACK) = c" "t \<noteq> PIECE_NONE"
    using symbol_piece(2) [OF p(2,3,1)] by auto
  then show ?thesis
    using symbol_piece [OF p(2,3,1)] assms(3,4) p(1) by (simp add: fen_place.simps(2) Let_def)
qed

lemma fen_place_row:
  assumes "\<forall>p \<in> set ps. piece_ok p" "0 \<le> e" "e + int (length ps) \<le> 8" "0 \<le> row" "col + int (length ps) \<le> 8"
  shows "fen_place b row (col - e) (fen_row ps e @ s) = fen_place (place_row b row col ps) row (col + int (length ps)) s"
  using assms
proof (induction ps arbitrary: b col e)
  case Nil
  then show ?case by (cases "e = 0") (simp_all add: fen_place_digit)
next
  case (Cons p ps)
  show ?case
  proof (cases "p = PIECE_EMPTY")
    case True
    then show ?thesis using Cons.IH [of "e + 1" "col + 1" b] Cons.prems by (simp add: add.assoc)
  next
    case False
    have "fen_place b row (col - e) ((if e > 0 then [digit e] else []) @ fen_symbol p # fen_row ps 0 @ s) =
        fen_place b row col (fen_symbol p # fen_row ps 0 @ s)"
      using Cons.prems by (cases "e = 0") (simp_all add: fen_place_digit)
    also have "\<dots> = fen_place (board_place b (SQ row col) (PIECE_COLOR p) (PIECE_TYPE p)) row (col + 1) (fen_row ps 0 @ s)"
      using False Cons.prems by (intro fen_place_symbol) auto
    finally show ?thesis
      using False Cons.IH [of 0 "col + 1" "board_place b (SQ row col) (PIECE_COLOR p) (PIECE_TYPE p)"] Cons.prems
      by (simp add: add.assoc)
  qed
qed

lemma place_row_frame:
  "side (place_row b row col ps) = side b" "castling (place_row b row col ps) = castling b"
  "ep_square (place_row b row col ps) = ep_square b" "length (mailbox (place_row b row col ps)) = length (mailbox b)"
  by (induction ps arbitrary: b col) simp_all

lemma place_row_at:
  assumes "length (mailbox b) = 64" "\<forall>p \<in> set ps. piece_ok p" "0 \<le> row" "row < 8" "0 \<le> col" "col + int (length ps) \<le> 8"
    "on_board r c"
  shows "piece_at (place_row b row col ps) (SQ r c) =
    (if r = row \<and> col \<le> c \<and> c < col + int (length ps) \<and> ps ! nat (c - col) \<noteq> PIECE_EMPTY
     then ps ! nat (c - col) else piece_at b (SQ r c))"
  using assms
proof (induction ps arbitrary: b col)
  case Nil
  then show ?case by auto
next
  case (Cons p ps)
  let ?b = "if p = PIECE_EMPTY then b else board_place b (SQ row col) (PIECE_COLOR p) (PIECE_TYPE p)"
  have ob: "on_board row col" using Cons.prems by (simp add: on_board_def)
  have p: "PIECE_MAKE (PIECE_COLOR p) (PIECE_TYPE p) = p" if "p \<noteq> PIECE_EMPTY"
    using Cons.prems(2) that by (auto elim: piece_ok_cases)
  have at: "piece_at ?b (SQ r c) = (if r = row \<and> c = col \<and> p \<noteq> PIECE_EMPTY then p else piece_at b (SQ r c))"
    using Cons.prems(1,7) ob p by (auto simp: nth_sq_update on_board_SQ(2) SQ_inj)
  have "piece_at (place_row b row col (p # ps)) (SQ r c) =
      (if r = row \<and> col + 1 \<le> c \<and> c < col + 1 + int (length ps) \<and> ps ! nat (c - (col + 1)) \<noteq> PIECE_EMPTY
       then ps ! nat (c - (col + 1)) else piece_at ?b (SQ r c))"
    using Cons.IH [of ?b "col + 1"] Cons.prems by simp
  moreover have "(p # ps) ! nat (c - col) = ps ! nat (c - (col + 1))" if "col + 1 \<le> c"
  proof -
    have "nat (c - col) = Suc (nat (c - (col + 1)))" using that by simp
    then show ?thesis by simp
  qed
  ultimately show ?case using at by (cases "c = col"; cases "col + 1 \<le> c") auto
qed


definition place_rows :: "Board \<Rightarrow> int list \<Rightarrow> Board \<Rightarrow> Board" where
  "place_rows B rows b = fold (\<lambda>row b. place_row b row 0 (row_pieces B row)) rows b"

lemma row_pieces_ok:
  assumes "wf_place B" "0 \<le> row" "row < 8"
  shows "\<forall>p \<in> set (row_pieces B row). piece_ok p" "length (row_pieces B row) = 8"
  using wf_place_piece_ok [OF assms(1)] assms(2,3)
  by (auto simp: row_pieces_def on_board_SQ(2) on_board_def)

lemma row_pieces_nth: "on_board row c \<Longrightarrow> row_pieces B row ! nat c = piece_at B (SQ row c)"
proof -
  assume "on_board row c"
  then have "c \<in> {0, 1, 2, 3, 4, 5, 6, 7}" by (auto simp: on_board_def)
  then show ?thesis by (auto simp: row_pieces_def)
qed

lemma fen_place_line:
  assumes "wf_place B" "0 \<le> row" "row < 8"
  shows "fen_place b row 0 (fen_row (row_pieces B row) 0 @ s) = fen_place (place_row b row 0 (row_pieces B row)) row 8 s"
  using fen_place_row [of "row_pieces B row" 0 row 0 b s] row_pieces_ok [OF assms] assms by simp

lemma fen_place_lines:
  assumes "wf_place B" "0 < row" "row < 8"
  shows "fen_place b row 0 (fen_row (row_pieces B row) 0 @ CHR ''/'' # s) =
    fen_place (place_row b row 0 (row_pieces B row)) (row - 1) 0 s"
  using fen_place_line [OF assms(1), of row b "CHR ''/'' # s"] assms by (simp add: fen_place.simps(2))

lemma fen_place_board:
  assumes "wf_place B"
  shows "fen_place board_clear 7 0 (fen_board B @ CHR '' '' # s) =
    (place_rows B [7, 6, 5, 4, 3, 2, 1, 0] board_clear, CHR '' '' # s)"
  unfolding fen_board_def place_rows_def
  by (simp add: fen_place_lines [OF assms] fen_place_line [OF assms] fen_place.simps(2))

lemma place_rows_at:
  assumes "wf_place B" "length (mailbox b) = 64" "\<forall>r \<in> set rows. 0 \<le> r \<and> r < 8" "on_board r c"
  shows "length (mailbox (place_rows B rows b)) = 64"
    and "piece_at (place_rows B rows b) (SQ r c) =
      (if r \<in> set rows \<and> piece_at B (SQ r c) \<noteq> PIECE_EMPTY then piece_at B (SQ r c) else piece_at b (SQ r c))"
proof -
  have "length (mailbox (place_rows B rows b)) = 64 \<and> piece_at (place_rows B rows b) (SQ r c) =
      (if r \<in> set rows \<and> piece_at B (SQ r c) \<noteq> PIECE_EMPTY then piece_at B (SQ r c) else piece_at b (SQ r c))"
    using assms(2,3)
  proof (induction rows arbitrary: b)
    case Nil
    then show ?case by (simp add: place_rows_def)
  next
    case (Cons row rows)
    let ?b = "place_row b row 0 (row_pieces B row)"
    have row: "0 \<le> row" "row < 8" using Cons.prems by auto
    have "length (mailbox ?b) = 64" using Cons.prems by (simp add: place_row_frame)
    moreover have "piece_at ?b (SQ r c) =
        (if r = row \<and> piece_at B (SQ r c) \<noteq> PIECE_EMPTY then piece_at B (SQ r c) else piece_at b (SQ r c))"
      using place_row_at [of b "row_pieces B row" row 0 r c] Cons.prems row row_pieces_ok [OF assms(1) row] assms(4)
        row_pieces_nth [of r c B] by (auto simp: on_board_def)
    ultimately show ?case using Cons.IH [of ?b] Cons.prems by (auto simp: place_rows_def)
  qed
  then show "length (mailbox (place_rows B rows b)) = 64"
    and "piece_at (place_rows B rows b) (SQ r c) =
      (if r \<in> set rows \<and> piece_at B (SQ r c) \<noteq> PIECE_EMPTY then piece_at B (SQ r c) else piece_at b (SQ r c))"
    by blast+
qed

lemma place_rows_mailbox:
  assumes "wf_place B"
  shows "mailbox (place_rows B [7, 6, 5, 4, 3, 2, 1, 0] board_clear) = mailbox B"
proof (rule nth_equalityI)
  let ?b = "place_rows B [7, 6, 5, 4, 3, 2, 1, 0] board_clear"
  have len: "length (mailbox ?b) = 64"
    by (rule place_rows_at(1) [OF assms, of _ _ 0 0]) (auto simp: board_clear_def on_board_def)
  then show "length (mailbox ?b) = length (mailbox B)" using assms by simp
  fix n assume n: "n < length (mailbox ?b)"
  then have v: "SQ_VALID (int n)" using len by (simp add: SQ_VALID_def)
  then have ob: "on_board (SQ_ROW (int n)) (SQ_COL (int n))" by (rule on_board_of_SQ)
  then have "SQ_ROW (int n) \<in> set [7, 6, 5, 4, 3, 2, 1, 0]" by (auto simp: on_board_def)
  then have "piece_at ?b (SQ (SQ_ROW (int n)) (SQ_COL (int n))) = piece_at B (SQ (SQ_ROW (int n)) (SQ_COL (int n)))"
    using ob v len n by (subst place_rows_at(2) [OF assms]) (auto simp: board_clear_def)
  then show "mailbox ?b ! n = mailbox B ! n" using v by simp
qed

lemma show_nat_value: "fen_number (show_nat n) = int n" "\<forall>c \<in> set (show_nat n). 48 \<le> char_val c \<and> char_val c \<le> 57"
proof (induction n rule: show_nat.induct)
  case (1 n)
  show "fen_number (show_nat n) = int n"
  proof (cases "n < 10")
    case True
    then show ?thesis by (simp add: show_nat.simps fen_number_def char_val_digit)
  next
    case False
    then show ?thesis using 1(1) [OF False]
      by (subst show_nat.simps) (simp add: fen_number_def char_val_digit zdiv_int zmod_int)
  qed
  show "\<forall>c \<in> set (show_nat n). 48 \<le> char_val c \<and> char_val c \<le> 57"
    using 1(2) by (subst show_nat.simps) (auto simp: char_val_digit)
qed


lemma field_append:
  assumes "\<forall>c \<in> set w. c \<noteq> CHR '' ''"
  shows "field (w @ CHR '' '' # s) = w" "next_field (w @ CHR '' '' # s) = s"
  using assms by (auto simp: next_field_def skip_space_def takeWhile_append2 dropWhile_append2)

lemma show_nat_no_space: "\<forall>c \<in> set (show_nat n). c \<noteq> CHR '' ''"
  using show_nat_value(2) [of n] by auto

lemma fen_rights_back:
  assumes "castling b < 16"
  shows "fold (\<lambda>ch r. r OR fen_right ch) (fen_rights (castling b)) 0 = castling b"
    "\<forall>c \<in> set (fen_rights (castling b)). c \<noteq> CHR '' ''"
proof -
  have all: "\<forall>r \<in> set (map word_of_nat [0..<16]). fold (\<lambda>ch r. r OR fen_right ch) (fen_rights r) 0 = r"
    by code_simp
  have "unat (castling b) < 16" using assms by (simp add: word_less_nat_alt)
  then have "castling b \<in> set (map word_of_nat [0..<16])"
    by (auto intro!: image_eqI [of _ _ "unat (castling b)"] simp del: upt_rec_numeral)
  then show "fold (\<lambda>ch r. r OR fen_right ch) (fen_rights (castling b)) 0 = castling b" using all by blast
  show "\<forall>c \<in> set (fen_rights (castling b)). c \<noteq> CHR '' ''" by (auto simp: fen_rights_def)
qed

lemma fen_ep_back:
  assumes "ep = SQ_NONE \<or> SQ_VALID ep"
  shows "fen_ep (fen_ep_text ep @ s) = Inr (ep, s)"
proof (cases "ep = SQ_NONE")
  case True
  then show ?thesis by (simp add: fen_ep_text_def fen_ep_def)
next
  case False
  then have v: "SQ_VALID ep" using assms by simp
  have c: "0 \<le> SQ_COL ep" "SQ_COL ep < 8" and r: "0 \<le> SQ_ROW ep" "SQ_ROW ep < 8"
    using SQ_COL_bounds [of ep] SQ_ROW_bounds [OF v] by auto
  let ?f = "char_of (97 + SQ_COL ep) :: char" and ?r = "char_of (49 + SQ_ROW ep) :: char"
  have cf: "char_val ?f = 97 + SQ_COL ep" and cr: "char_val ?r = 49 + SQ_ROW ep" using c r by simp_all
  have "?f \<noteq> CHR ''-''" using cf c by (auto dest: arg_cong [where f = char_val])
  then show ?thesis
    using False v cf cr c by (simp add: fen_ep_text_def fen_ep_def)
qed

lemma fen_parse_back:
  assumes wf: "wf_place b" and "side b \<in> {WHITE, BLACK}" and r: "castling b < 16"
    and ep: "ep_square b = SQ_NONE \<or> SQ_VALID (ep_square b)" and "0 \<le> halfmove b" "1 \<le> fullmove b"
  shows "\<exists>b'. fen_parse (board_get_fen b) = Inr b' \<and> mailbox b' = mailbox b \<and> side b' = side b \<and>
    castling b' = castling b \<and> ep_square b' = ep_square b \<and> halfmove b' = halfmove b \<and> fullmove b' = fullmove b"
proof -
  let ?b0 = "place_rows b [7, 6, 5, 4, 3, 2, 1, 0] board_clear"
  let ?sc = "if side b = WHITE then CHR ''w'' else CHR ''b''"
  obtain n where n: "fullmove b = int n" "1 \<le> n" using assms(6) by (metis nat_le_iff nonneg_int_cases of_nat_1 of_nat_le_iff order_trans zero_le_one)
  obtain h where h: "halfmove b = int h" using assms(5) by (metis nonneg_int_cases)
  have fen: "board_get_fen b = fen_board b @ CHR '' '' # [?sc] @ CHR '' '' # fen_rights (castling b) @
      CHR '' '' # fen_ep_text (ep_square b) @ CHR '' '' # show_nat h @ CHR '' '' # show_nat n"
    by (simp add: board_get_fen_def show_int_def n h)
  have tw: "takeWhile (\<lambda>c. char_val (CHR ''0'') \<le> char_val c \<and> char_val c \<le> char_val (CHR ''9'')) (show_nat n) = show_nat n"
    using show_nat_value(2) [of n] by (simp add: takeWhile_eq_all_conv)
  have sp: "skip_space (CHR '' '' # s) = s" for s by (simp add: skip_space_def)
  have sd: "next_field ([?sc] @ CHR '' '' # s) = s" for s by (rule field_append(2)) simp
  note parts = field_append [OF fen_rights_back(2) [OF r]] field_append [OF show_nat_no_space]
    fen_ep_back [OF ep] fen_rights_back(1) [OF r]
  have "fen_parse (board_get_fen b) = Inr (?b0 \<lparr> side := (if ?sc = CHR ''b'' then BLACK else WHITE),
      castling := castling b, ep_square := ep_square b, halfmove := int h, fullmove := (if int n < 1 then 1 else int n) \<rparr>)"
    unfolding fen fen_parse_def fen_place_board [OF wf] prod.case Let_def sp sd fen_castling_def parts
      sum.case tw show_nat_value(1) by simp
  then show ?thesis
    using n h assms(2) place_rows_mailbox [OF wf] by auto
qed


section \<open>Bounds of the printed text\<close>

lemma length_fen_row: "length (fen_row ps e) \<le> length ps + (if e > 0 then 1 else 0)"
proof (induction ps arbitrary: e)
  case (Cons p ps)
  show ?case using Cons.IH [of "e + 1"] Cons.IH [of 0] by (auto split: if_splits)
qed simp

lemma length_fen_board: "length (fen_board b) \<le> 71"
proof -
  have row: "length (fen_row (row_pieces b r) 0) \<le> 8" for r
    using length_fen_row [of "row_pieces b r" 0] by (simp add: row_pieces_def)
  show ?thesis
    using row [of 0] row [of 1] row [of 2] row [of 3] row [of 4] row [of 5] row [of 6] row [of 7]
    by (simp add: fen_board_def)
qed

lemma length_show_nat: "n < 10 ^ k \<Longrightarrow> length (show_nat n) \<le> max 1 k"
proof (induction k arbitrary: n)
  case 0
  then show ?case by (simp add: show_nat.simps)
next
  case (Suc k)
  show ?case
  proof (cases "n < 10")
    case True
    then show ?thesis by (simp add: show_nat.simps)
  next
    case False
    then have "n div 10 < 10 ^ k" "k \<noteq> 0" using Suc.prems by (auto intro: div_less_iff_less_mult [THEN iffD2] gr0I)
    then show ?thesis using Suc.IH [of "n div 10"] False by (subst show_nat.simps) simp
  qed
qed

lemma length_show_int: "- (2 ^ 31) \<le> i \<Longrightarrow> i < 2 ^ 31 \<Longrightarrow> length (show_int i) \<le> 11"
  using length_show_nat [of "nat i" 10] length_show_nat [of "nat (- i)" 10]
  by (auto simp: show_int_def nat_less_iff)

lemma length_board_get_fen:
  assumes "- (2 ^ 31) \<le> halfmove b" "halfmove b < 2 ^ 31" "- (2 ^ 31) \<le> fullmove b" "fullmove b < 2 ^ 31"
  shows "length (board_get_fen b) \<le> 105"
proof -
  have "length (fen_rights (castling b)) \<le> 4" by (simp add: fen_rights_def)
  moreover have "length (fen_ep_text (ep_square b)) \<le> 2" by (simp add: fen_ep_text_def)
  ultimately show ?thesis
    using length_fen_board [of b] length_show_int [OF assms(1,2)] length_show_int [OF assms(3,4)]
    by (simp add: board_get_fen_def)
qed


section \<open>The starting position\<close>

lemma startpos_parse:
  "\<exists>b. fen_parse startpos = Inr b \<and> ep_square b = SQ_NONE \<and> castling b = 15 \<and> side b = WHITE \<and>
     halfmove b = 0 \<and> fullmove b = 1 \<and>
     mailbox b = map (PIECE_MAKE WHITE) [ROOK, KNIGHT, BISHOP, QUEEN, KING, BISHOP, KNIGHT, ROOK] @
       replicate 8 (PIECE_MAKE WHITE PAWN) @ replicate 32 PIECE_EMPTY @ replicate 8 (PIECE_MAKE BLACK PAWN) @
       map (PIECE_MAKE BLACK) [ROOK, KNIGHT, BISHOP, QUEEN, KING, BISHOP, KNIGHT, ROOK]"
proof -
  have "case fen_parse startpos of Inl _ \<Rightarrow> False
    | Inr b \<Rightarrow> ep_square b = SQ_NONE \<and> castling b = 15 \<and> side b = WHITE \<and> halfmove b = 0 \<and> fullmove b = 1 \<and>
       mailbox b = map (PIECE_MAKE WHITE) [ROOK, KNIGHT, BISHOP, QUEEN, KING, BISHOP, KNIGHT, ROOK] @
       replicate 8 (PIECE_MAKE WHITE PAWN) @ replicate 32 PIECE_EMPTY @ replicate 8 (PIECE_MAKE BLACK PAWN) @
       map (PIECE_MAKE BLACK) [ROOK, KNIGHT, BISHOP, QUEEN, KING, BISHOP, KNIGHT, ROOK]"
    by code_simp
  then show ?thesis by (cases "fen_parse startpos") auto
qed


lemma board_set_fen_ok:
  assumes "board_set_fen Z fen = Inr b"
  shows "wf_place b" "side b \<in> {WHITE, BLACK}" "1 \<le> fullmove b" "hash b = zobrist_compute Z b"
    "ep_square b = SQ_NONE \<or> SQ_VALID (ep_square b)"
proof -
  from assms obtain b0 where b0: "fen_parse fen = Inr b0" "ep_square b0 = SQ_NONE \<or> SQ_VALID (ep_square b0)"
    and b: "b = board_refresh Z b0"
    by (auto simp: board_set_fen_def split: sum.splits if_splits)
  note wf = fen_parse_wf [OF b0(1)]
  have "b = b0 \<lparr> hash := zobrist_compute Z b0 \<rparr>" using b board_refresh_wf [OF wf(1)] by simp
  with wf b0(2) show "wf_place b" "side b \<in> {WHITE, BLACK}" "1 \<le> fullmove b"
    "ep_square b = SQ_NONE \<or> SQ_VALID (ep_square b)" "hash b = zobrist_compute Z b"
    by (auto simp: wf_place_def intro: zobrist_compute_cong)
qed

lemma board_set_fen_back:
  assumes "wf_place b" "side b \<in> {WHITE, BLACK}" "castling b < 16"
    "ep_square b = SQ_NONE \<or> SQ_VALID (ep_square b)" "0 \<le> halfmove b" "1 \<le> fullmove b"
  obtains b' where "board_set_fen Z (board_get_fen b) = Inr b'" "mailbox b' = mailbox b" "side b' = side b"
    "castling b' = castling b" "ep_square b' = ep_square b" "halfmove b' = halfmove b" "fullmove b' = fullmove b"
proof -
  obtain b0 where b0: "fen_parse (board_get_fen b) = Inr b0" "mailbox b0 = mailbox b" "side b0 = side b"
    "castling b0 = castling b" "ep_square b0 = ep_square b" "halfmove b0 = halfmove b" "fullmove b0 = fullmove b"
    using fen_parse_back [OF assms] by blast
  have "board_refresh Z b0 = b0 \<lparr> hash := zobrist_compute Z b0 \<rparr>"
    by (rule board_refresh_wf [OF fen_parse_wf(1) [OF b0(1)]])
  then have "board_set_fen Z (board_get_fen b) = Inr (b0 \<lparr> hash := zobrist_compute Z b0 \<rparr>)"
    using b0(1,5) assms(4) by (auto simp: board_set_fen_def)
  then show ?thesis by (rule that) (use b0 in simp_all)
qed

lemma board_init_ok:
  obtains b where "board_init Z gm = Inr b" "gen_inv b" "game_mod b = gm" "hash b = zobrist_compute Z b"
    "king_squares b WHITE = {4}" "king_squares b BLACK = {60}"
proof -
  obtain b0 where b0: "fen_parse startpos = Inr b0" "ep_square b0 = SQ_NONE" "castling b0 = 15" "side b0 = WHITE"
    and mb: "mailbox b0 = map (PIECE_MAKE WHITE) [ROOK, KNIGHT, BISHOP, QUEEN, KING, BISHOP, KNIGHT, ROOK] @
       replicate 8 (PIECE_MAKE WHITE PAWN) @ replicate 32 PIECE_EMPTY @ replicate 8 (PIECE_MAKE BLACK PAWN) @
       map (PIECE_MAKE BLACK) [ROOK, KNIGHT, BISHOP, QUEEN, KING, BISHOP, KNIGHT, ROOK]"
    using startpos_parse by blast
  note wf = fen_parse_wf(1) [OF b0(1)]
  let ?b = "b0 \<lparr> hash := zobrist_compute Z b0, game_mod := gm \<rparr>"
  have 1: "board_init Z gm = Inr ?b"
    using b0(1,2) by (simp add: board_init_def board_set_fen_def board_refresh_wf [OF wf])
  have 2: "gen_inv ?b"
    using wf b0 mb by (simp add: gen_inv_def wf_place_def ep_ok_def rights_ok_def right_ok_def nth_append)
  have k: "king_squares ?b c = int ` {n. n < 64 \<and> mailbox b0 ! n = PIECE_MAKE c KING}" for c
    by (force simp: king_squares_def SQ_VALID_def image_iff nat_less_iff)
  have bn: "{n. n < 64 \<and> P n} = set (filter P [0..<64])" for P :: "nat \<Rightarrow> bool" by auto
  have "filter (\<lambda>n. mailbox b0 ! n = PIECE_MAKE WHITE KING) [0..<64] = [4]"
    "filter (\<lambda>n. mailbox b0 ! n = PIECE_MAKE BLACK KING) [0..<64] = [60]"
    unfolding mb by code_simp+
  then have "king_squares ?b WHITE = {4}" "king_squares ?b BLACK = {60}"
    unfolding k bn by simp_all
  moreover have "hash ?b = zobrist_compute Z ?b" by (auto intro: zobrist_compute_cong)
  ultimately show ?thesis using 1 2 that by simp
qed

section \<open>The error results\<close>

lemma fen_place_rest: "\<forall>c \<in> set p. c \<noteq> CHR '' '' \<Longrightarrow> snd (fen_place b row col (p @ CHR '' '' # s)) = CHR '' '' # s"
  by (induction p arbitrary: b row col) (simp_all add: fen_place.simps(2) Let_def)

lemma fen_parse_ep:
  assumes "\<forall>ch \<in> set (p @ w @ c). ch \<noteq> CHR '' ''"
  shows "fen_ep s = Inl e \<Longrightarrow> fen_parse (p @ '' '' @ w @ '' '' @ c @ '' '' @ s) = Inl e"
    "fen_ep s = Inr (ep, s') \<Longrightarrow>
       \<exists>b. fen_parse (p @ '' '' @ w @ '' '' @ c @ '' '' @ s) = Inr b \<and> ep_square b = ep"
proof -
  have "\<forall>ch \<in> set p. ch \<noteq> CHR '' ''" "\<forall>ch \<in> set w. ch \<noteq> CHR '' ''" "\<forall>ch \<in> set c. ch \<noteq> CHR '' ''"
    using assms by simp_all
  note parts = fen_place_rest [OF this(1)] field_append [OF this(2)] field_append [OF this(3)]
  obtain b where b: "fen_place board_clear 7 0 (p @ CHR '' '' # w @ CHR '' '' # c @ CHR '' '' # s) =
      (b, CHR '' '' # w @ CHR '' '' # c @ CHR '' '' # s)"
    using parts(1) by (metis prod.collapse)
  have sp: "skip_space (CHR '' '' # x) = x" for x by (simp add: skip_space_def)
  note fen_parse_def [of "p @ CHR '' '' # w @ CHR '' '' # c @ CHR '' '' # s", unfolded b prod.case Let_def sp parts]
  then show "fen_ep s = Inl e \<Longrightarrow> fen_parse (p @ '' '' @ w @ '' '' @ c @ '' '' @ s) = Inl e"
    "fen_ep s = Inr (ep, s') \<Longrightarrow>
       \<exists>b. fen_parse (p @ '' '' @ w @ '' '' @ c @ '' '' @ s) = Inr b \<and> ep_square b = ep"
    by simp_all
qed

lemma fen_file_cases:
  assumes "f \<in> set ''abcdefgh''"
  shows "fen_ep [f] = Inl Overread"
    "\<exists>ep. fen_ep (f # CHR ''9'' # s) = Inr (ep, s) \<and> \<not> SQ_VALID ep \<and> ep \<noteq> SQ_NONE"
    "f \<noteq> CHR ''h'' \<Longrightarrow> \<exists>ep. fen_ep (f # CHR ''0'' # s) = Inr (ep, s) \<and> \<not> SQ_VALID ep \<and> ep \<noteq> SQ_NONE"
  using assms by (auto simp: fen_ep_def SQ_def int8_of_def SQ_VALID_def SQ_NONE_def)


section \<open>Properties\<close>

text \<open>
  (C14) Whatever string \<open>board_set_fen\<close> reads without stepping outside its data, it builds a consistent
  board: the bitboards agree with the mailbox, the side to move is a colour, the move number is
  positive, the en-passant square is absent or on the board, and the stored hash is the hash of the
  position.
\<close>

theorem board_set_fen_consistent:
  assumes "board_set_fen Z fen = Inr b"
  shows "wf_place b \<and> side b \<in> {WHITE, BLACK} \<and> 1 \<le> fullmove b \<and>
    (ep_square b = SQ_NONE \<or> SQ_VALID (ep_square b)) \<and> hash b = zobrist_compute Z b"
  using board_set_fen_ok [OF assms] by blast

theorem board_set_fen_consistent_witness:
  "\<exists>b. board_set_fen zob_static startpos = Inr b \<and> wf_place b \<and> hash b = zobrist_compute zob_static b"
proof -
  obtain b where "board_set_fen zob_static startpos = Inr b"
    using startpos_parse by (auto simp: board_set_fen_def)
  then show ?thesis using board_set_fen_consistent by blast
qed

text \<open>
  (C6) Printing a position and reading the text back gives the same position: every field that FEN
  can express is recovered, for every consistent board with non-negative clocks.
\<close>

theorem fen_round_trip:
  assumes "wf_place b" "side b \<in> {WHITE, BLACK}" "castling b < 16"
    "ep_square b = SQ_NONE \<or> SQ_VALID (ep_square b)" "0 \<le> halfmove b" "1 \<le> fullmove b"
  shows "\<exists>b'. board_set_fen Z (board_get_fen b) = Inr b' \<and> mailbox b' = mailbox b \<and> pieces b' = pieces b \<and>
    side b' = side b \<and> castling b' = castling b \<and> ep_square b' = ep_square b \<and>
    halfmove b' = halfmove b \<and> fullmove b' = fullmove b"
proof -
  obtain b' where b': "board_set_fen Z (board_get_fen b) = Inr b'" "mailbox b' = mailbox b" "side b' = side b"
    "castling b' = castling b" "ep_square b' = ep_square b" "halfmove b' = halfmove b" "fullmove b' = fullmove b"
    by (rule board_set_fen_back [OF assms])
  moreover have "pieces b' = pieces b"
    by (rule wf_place_ext(1) [OF board_set_fen_ok(1) [OF b'(1)] assms(1) b'(2)])
  ultimately show ?thesis by blast
qed

theorem fen_round_trip_witness:
  "\<exists>b'. board_set_fen zob_static (board_get_fen (duel \<lparr> fullmove := 12 \<rparr>)) = Inr b' \<and>
     mailbox b' = mailbox duel \<and> fullmove b' = 12"
proof -
  let ?b = "duel \<lparr> fullmove := 12 \<rparr>"
  have "wf_place ?b" using duel_wf by (rule wf_place_cong) simp_all
  moreover have "side ?b \<in> {WHITE, BLACK}" "castling ?b < 16" "ep_square ?b = SQ_NONE \<or> SQ_VALID (ep_square ?b)"
    "0 \<le> halfmove ?b" "1 \<le> fullmove ?b"
    by (simp_all add: duel_def board_clear_def)
  ultimately show ?thesis using fen_round_trip [of ?b zob_static] by auto
qed

text \<open>
  (C35) The text that \<open>board_get_fen\<close> writes has at most 105 characters, for every board whose clocks
  fit in an \<open>int\<close>: a buffer of 106 characters is enough, although only the last two fields are
  written under the size the caller gives.
\<close>

theorem fen_text_bound:
  assumes "- (2 ^ 31) \<le> halfmove b" "halfmove b < 2 ^ 31" "- (2 ^ 31) \<le> fullmove b" "fullmove b < 2 ^ 31"
  shows "length (board_get_fen b) \<le> 105"
  by (rule length_board_get_fen [OF assms])

theorem fen_text_bound_witness: "length (board_get_fen duel) \<le> 105"
  by (rule fen_text_bound) (simp_all add: duel_def board_clear_def)

text \<open>
  (C33) The two ways a malformed string takes the parser outside its data.  When the string ends
  after the file letter of the en-passant field the index passes the terminating NUL; when the
  rank of that field is 9, or 0 on another file than h, the hash indexes outside the en-passant keys.
\<close>

theorem fen_ep_errors:
  assumes "\<forall>ch \<in> set (p @ w @ c). ch \<noteq> CHR '' ''" "f \<in> set ''abcdefgh''"
  shows "board_set_fen Z (p @ '' '' @ w @ '' '' @ c @ '' '' @ [f]) = Inl Overread \<and>
    board_set_fen Z (p @ '' '' @ w @ '' '' @ c @ '' '' @ f # CHR ''9'' # s) = Inl Bad_ep_index \<and>
    (f \<noteq> CHR ''h'' \<longrightarrow> board_set_fen Z (p @ '' '' @ w @ '' '' @ c @ '' '' @ f # CHR ''0'' # s) = Inl Bad_ep_index)"
proof (intro conjI impI)
  note parse = fen_parse_ep [OF assms(1)] and ep = fen_file_cases [OF assms(2)]
  show "board_set_fen Z (p @ '' '' @ w @ '' '' @ c @ '' '' @ [f]) = Inl Overread"
    unfolding board_set_fen_def parse(1) [OF ep(1)] by simp
  show "board_set_fen Z (p @ '' '' @ w @ '' '' @ c @ '' '' @ f # CHR ''9'' # s) = Inl Bad_ep_index"
    using ep(2) [of s] parse(2) [of "f # CHR ''9'' # s"] by (fastforce simp: board_set_fen_def)
  show "board_set_fen Z (p @ '' '' @ w @ '' '' @ c @ '' '' @ f # CHR ''0'' # s) = Inl Bad_ep_index"
    if "f \<noteq> CHR ''h''"
    using ep(3) [OF that, of s] parse(2) [of "f # CHR ''0'' # s"] by (fastforce simp: board_set_fen_def)
qed

theorem fen_ep_errors_witness:
  "board_set_fen zob_static ''8/8/8/8/8/8/8/8 w - e'' = Inl Overread"
  using fen_ep_errors [of "''8/8/8/8/8/8/8/8''" "''w''" "''-''" "CHR ''e''" zob_static] by simp

end
