(* ===== verification/EvalTypes.thy ===== *)
theory EvalTypes
  imports Attacks
begin

text \<open>
  The shared part of the evaluation, \<open>eval/eval_types.h\<close>: the context that the stages pass on, the
  distance helpers, and the tables of material and piece-square values of all evaluation files.
  An array indexed by colour is a function of \<open>Color\<close>.

  The evaluation loops \<open>while (bb) { s = bb_pop_lsb(&bb); acc += f(s); }\<close> are \<open>bb_sum f bb\<close>, loops
  that collect attack sets are \<open>bb_union\<close>, and the loop over both sides with
  \<open>score += (c == WHITE) ? x : -x\<close> is \<open>both_sides\<close>.
\<close>

section \<open>Context and helpers\<close>

record EvalContext =
  ctx_score :: int
  ctx_material :: "Color \<Rightarrow> int"
  ctx_non_pawn_material :: "Color \<Rightarrow> int"
  ctx_pawn_count :: "Color \<Rightarrow> int"
  ctx_bishop_count :: "Color \<Rightarrow> int"
  ctx_king_sq :: "Color \<Rightarrow> int"
  ctx_queen_sq :: "Color \<Rightarrow> int"
  ctx_pawn_atk :: "Color \<Rightarrow> Bitboard"
  ctx_phase :: int
  ctx_mg_weight :: int
  ctx_eg_weight :: int

definition mirror :: "int \<Rightarrow> int" where
  "mirror sq = sq XOR 56"

definition chebyshev_distance_sq :: "int \<Rightarrow> int \<Rightarrow> int" where
  "chebyshev_distance_sq a b =
     (let dr = \<bar>SQ_ROW a - SQ_ROW b\<bar>; dc = \<bar>SQ_COL a - SQ_COL b\<bar> in if dr > dc then dr else dc)"

definition distance_from_center_sq :: "int \<Rightarrow> int" where
  "distance_from_center_sq sq =
     (let row = SQ_ROW sq; col = SQ_COL sq;
          row_dist = (if row < 4 then 3 - row else row - 4);
          col_dist = (if col < 4 then 3 - col else col - 4)
      in row_dist + col_dist)"

definition bb_sum :: "(Square \<Rightarrow> int) \<Rightarrow> Bitboard \<Rightarrow> int" where
  "bb_sum f bb = sum_list (map f (bb_squares bb))"

definition bb_count :: "(Square \<Rightarrow> bool) \<Rightarrow> Bitboard \<Rightarrow> int" where
  "bb_count P bb = bb_sum (\<lambda>s. if P s then 1 else 0) bb"

definition bb_union :: "(Square \<Rightarrow> Bitboard) \<Rightarrow> Bitboard \<Rightarrow> Bitboard" where
  "bb_union f bb = fold (\<lambda>s acc. acc OR f s) (bb_squares bb) BB_EMPTY"

text \<open>The largest value of a loop \<open>if (f(s) > best) best = f(s)\<close>.\<close>

definition bb_best :: "int \<Rightarrow> (Square \<Rightarrow> int) \<Rightarrow> Bitboard \<Rightarrow> int" where
  "bb_best start f bb = fold (\<lambda>s best. if f s > best then f s else best) (bb_squares bb) start"

definition pov :: "Color \<Rightarrow> int \<Rightarrow> int" where
  "pov c x = (if c = WHITE then x else - x)"

definition both_sides :: "(Color \<Rightarrow> int) \<Rightarrow> int" where
  "both_sides f = sum_list (map (\<lambda>c. pov c (f c)) colors)"

text \<open>The range of \<open>for (t = KNIGHT; t <= QUEEN; t++)\<close>.\<close>

definition officers :: "PieceType list" where
  "officers = [KNIGHT, BISHOP, ROOK, QUEEN]"

definition FILE_A :: Bitboard where
  "FILE_A = 0x0101010101010101"

definition file_bb :: "int \<Rightarrow> Bitboard" where
  "file_bb col = push_bit (nat col) FILE_A"

definition adjacent_files :: "int \<Rightarrow> Bitboard" where
  "adjacent_files col =
     (let adj = BB_EMPTY;
          adj = (if col > 0 then adj OR file_bb (col - 1) else adj)
      in if col < 7 then adj OR file_bb (col + 1) else adj)"

definition rel_row :: "Color \<Rightarrow> Square \<Rightarrow> int" where
  "rel_row c sq = (if c = WHITE then SQ_ROW sq else 7 - SQ_ROW sq)"


section \<open>Material and piece-square tables of all games\<close>

definition MATERIAL :: "int list" where
  "MATERIAL =
     [100, 320, 330, 500, 900, 0]"

definition PST_PAWN :: "int list" where
  "PST_PAWN =
     [0, 0, 0, 0, 0, 0, 0, 0,
      5, 10, 10, -20, -20, 10, 10, 5,
      5, -5, -10, 0, 0, -10, -5, 5,
      0, 0, 0, 20, 20, 0, 0, 0,
      5, 5, 10, 25, 25, 10, 5, 5,
      10, 10, 20, 30, 30, 20, 10, 10,
      50, 50, 50, 50, 50, 50, 50, 50,
      0, 0, 0, 0, 0, 0, 0, 0]"

definition PST_KNIGHT :: "int list" where
  "PST_KNIGHT =
     [-50, -40, -30, -30, -30, -30, -40, -50,
      -40, -20, 0, 5, 5, 0, -20, -40,
      -30, 5, 10, 15, 15, 10, 5, -30,
      -30, 0, 15, 20, 20, 15, 0, -30,
      -30, 5, 15, 20, 20, 15, 5, -30,
      -30, 0, 10, 15, 15, 10, 0, -30,
      -40, -20, 0, 0, 0, 0, -20, -40,
      -50, -40, -30, -30, -30, -30, -40, -50]"

definition PST_BISHOP :: "int list" where
  "PST_BISHOP =
     [-20, -10, -10, -10, -10, -10, -10, -20,
      -10, 5, 0, 0, 0, 0, 5, -10,
      -10, 10, 10, 10, 10, 10, 10, -10,
      -10, 0, 10, 10, 10, 10, 0, -10,
      -10, 5, 5, 10, 10, 5, 5, -10,
      -10, 0, 5, 10, 10, 5, 0, -10,
      -10, 0, 0, 0, 0, 0, 0, -10,
      -20, -10, -10, -10, -10, -10, -10, -20]"

definition PST_ROOK :: "int list" where
  "PST_ROOK =
     [0, 0, 0, 5, 5, 0, 0, 0,
      -5, 0, 0, 0, 0, 0, 0, -5,
      -5, 0, 0, 0, 0, 0, 0, -5,
      -5, 0, 0, 0, 0, 0, 0, -5,
      -5, 0, 0, 0, 0, 0, 0, -5,
      -5, 0, 0, 0, 0, 0, 0, -5,
      5, 10, 10, 10, 10, 10, 10, 5,
      0, 0, 0, 0, 0, 0, 0, 0]"

definition PST_QUEEN :: "int list" where
  "PST_QUEEN =
     [-20, -10, -10, -5, -5, -10, -10, -20,
      -10, 0, 5, 0, 0, 0, 0, -10,
      -10, 5, 5, 5, 5, 5, 0, -10,
      0, 0, 5, 5, 5, 5, 0, -5,
      -5, 0, 5, 5, 5, 5, 0, -5,
      -10, 0, 5, 5, 5, 5, 0, -10,
      -10, 0, 0, 0, 0, 0, 0, -10,
      -20, -10, -10, -5, -5, -10, -10, -20]"

definition PST_KING_MG :: "int list" where
  "PST_KING_MG =
     [20, 30, 10, 0, 0, 10, 30, 20,
      20, 20, 0, 0, 0, 0, 20, 20,
      -10, -20, -20, -20, -20, -20, -20, -10,
      -20, -30, -30, -40, -40, -30, -30, -20,
      -30, -40, -40, -50, -50, -40, -40, -30,
      -30, -40, -40, -50, -50, -40, -40, -30,
      -30, -40, -40, -50, -50, -40, -40, -30,
      -30, -40, -40, -50, -50, -40, -40, -30]"

definition PST_KING_EG :: "int list" where
  "PST_KING_EG =
     [-50, -30, -30, -30, -30, -30, -30, -50,
      -30, -30, 0, 0, 0, 0, -30, -30,
      -30, -10, 20, 30, 30, 20, -10, -30,
      -30, -10, 30, 40, 40, 30, -10, -30,
      -30, -10, 30, 40, 40, 30, -10, -30,
      -30, -10, 20, 30, 30, 20, -10, -30,
      -30, -20, -10, 0, 0, -10, -20, -30,
      -50, -40, -30, -20, -20, -30, -40, -50]"

definition PST_TABLE :: "PieceType \<Rightarrow> int list" where
  "PST_TABLE t =
     [PST_PAWN, PST_KNIGHT, PST_BISHOP, PST_ROOK, PST_QUEEN, PST_KING_MG] ! type_val t"


section \<open>Piece-square tables of the variants\<close>

definition PST_MERC_PAWN :: "int list" where
  "PST_MERC_PAWN =
     [0, 0, 0, 0, 0, 0, 0, 0,
      5, 10, 12, 15, 15, 12, 10, 5,
      12, 22, 35, 45, 45, 35, 22, 12,
      18, 32, 50, 65, 65, 50, 32, 18,
      18, 32, 50, 65, 65, 50, 32, 18,
      12, 22, 35, 45, 45, 35, 22, 12,
      5, 10, 12, 15, 15, 12, 10, 5,
      0, 0, 0, 0, 0, 0, 0, 0]"

definition PST_HEIR_PAWN :: "int list" where
  "PST_HEIR_PAWN =
     [0, 0, 0, 0, 0, 0, 0, 0,
      5, 10, 10, 5, 5, 10, 10, 5,
      10, 15, 20, 25, 25, 20, 15, 10,
      15, 20, 30, 35, 35, 30, 20, 15,
      25, 30, 40, 50, 50, 40, 30, 25,
      40, 45, 55, 65, 65, 55, 45, 40,
      70, 75, 80, 90, 90, 80, 75, 70,
      0, 0, 0, 0, 0, 0, 0, 0]"

definition PST_TRUCE_PAWN :: "int list" where
  "PST_TRUCE_PAWN =
     [0, 0, 0, 0, 0, 0, 0, 0,
      2, 5, 8, 12, 12, 8, 5, 2,
      5, 10, 18, 28, 28, 18, 10, 5,
      8, 15, 28, 38, 38, 28, 15, 8,
      12, 20, 32, 42, 42, 32, 20, 12,
      18, 25, 35, 45, 45, 35, 25, 18,
      25, 30, 40, 50, 50, 40, 30, 25,
      0, 0, 0, 0, 0, 0, 0, 0]"

definition PST_TRUCE_KNIGHT :: "int list" where
  "PST_TRUCE_KNIGHT =
     [-50, -35, -25, -25, -25, -25, -35, -50,
      -35, -15, 5, 8, 8, 5, -15, -35,
      -20, 8, 18, 25, 25, 18, 8, -20,
      -15, 10, 25, 35, 35, 25, 10, -15,
      -15, 12, 28, 38, 38, 28, 12, -15,
      -20, 10, 22, 30, 30, 22, 10, -20,
      -35, -15, 5, 10, 10, 5, -15, -35,
      -50, -35, -25, -25, -25, -25, -35, -50]"

definition PST_TRUCE_BISHOP :: "int list" where
  "PST_TRUCE_BISHOP =
     [-20, -10, -15, -10, -10, -15, -10, -20,
      -10, 10, 5, 8, 8, 5, 10, -10,
      -10, 12, 15, 18, 18, 15, 12, -10,
      -5, 10, 18, 22, 22, 18, 10, -5,
      -5, 12, 18, 22, 22, 18, 12, -5,
      -10, 12, 15, 18, 18, 15, 12, -10,
      -10, 15, 10, 8, 8, 10, 15, -10,
      -20, -10, -15, -10, -10, -15, -10, -20]"

definition PST_KB_KING_P1 :: "int list" where
  "PST_KB_KING_P1 =
     [-40, -25, -15, 0, 0, -15, -25, -40,
      -20, 0, 12, 22, 22, 12, 0, -20,
      -5, 15, 35, 48, 48, 35, 15, -5,
      5, 25, 50, 65, 65, 50, 25, 5,
      15, 35, 58, 75, 75, 58, 35, 15,
      20, 38, 55, 68, 68, 55, 38, 20,
      10, 20, 35, 45, 45, 35, 20, 10,
      -5, 5, 15, 25, 25, 15, 5, -5]"

definition PST_KB_PAWN_P1 :: "int list" where
  "PST_KB_PAWN_P1 =
     [0, 0, 0, 0, 0, 0, 0, 0,
      5, 8, 10, 15, 15, 10, 8, 5,
      10, 15, 22, 30, 30, 22, 15, 10,
      15, 22, 35, 45, 45, 35, 22, 15,
      25, 32, 45, 55, 55, 45, 32, 25,
      40, 48, 58, 70, 70, 58, 48, 40,
      65, 72, 80, 90, 90, 80, 72, 65,
      0, 0, 0, 0, 0, 0, 0, 0]"

lemma chebyshev_inline:
  "(if \<bar>SQ_COL a - SQ_COL b\<bar> < \<bar>SQ_ROW a - SQ_ROW b\<bar> then \<bar>SQ_ROW a - SQ_ROW b\<bar>
    else \<bar>SQ_COL a - SQ_COL b\<bar>) = chebyshev_distance_sq a b"
  by (simp add: chebyshev_distance_sq_def)

lemma officers_set [simp]: "set officers = {KNIGHT, BISHOP, ROOK, QUEEN}"
  by (simp add: officers_def)

lemma both_sides_eq: "both_sides f = f WHITE - f BLACK"
  by (simp add: both_sides_def colors_def pov_def)

lemma bb_union_bit: "bit (bb_union f bb) n \<longleftrightarrow> (\<exists>s \<in> set (bb_squares bb). bit (f s) n)"
proof -
  have "bit (fold (\<lambda>s acc. acc OR f s) xs a) n \<longleftrightarrow> bit a n \<or> (\<exists>s \<in> set xs. bit (f s) n)" for xs a
    by (induction xs arbitrary: a) (auto simp: bit_simps)
  then show ?thesis by (simp add: bb_union_def BB_EMPTY_def)
qed

lemma bb_best_Max: "bb_best start f bb = Max (insert start (f ` set (bb_squares bb)))"
proof -
  have "fold (\<lambda>s best. if f s > best then f s else best) xs a = Max (insert a (f ` set xs))" for xs a
  proof (induction xs arbitrary: a)
    case (Cons x xs)
    have "Max (insert (if f x > a then f x else a) (f ` set xs)) = Max (insert a (insert (f x) (f ` set xs)))"
      by (cases "f ` set xs = {}") (auto simp: max_def)
    then show ?case by (simp add: Cons.IH)
  qed simp
  then show ?thesis by (simp add: bb_best_def)
qed

end
