(* ===== verification/Mirror.thy ===== *)
theory Mirror
  imports EvalTypes
begin

text \<open>
  The mirrored position: the board turned upside down with the colours exchanged.  This theory
  shows how bit loops, attack sets and the attack query behave on it.  The evaluation theories
  use it for their colour symmetry.
\<close>

named_theorems mirror_simps

section \<open>Squares\<close>

lemma valid_upto: "SQ_VALID s \<longleftrightarrow> s \<in> set [0..63]"
  by (auto simp: SQ_VALID_def)

lemma mirror_table:
  "\<forall>s \<in> set [0..63]. mirror s = SQ (7 - SQ_ROW s) (SQ_COL s) \<and> mirror s \<in> set [0..63] \<and>
     SQ_ROW (mirror s) = 7 - SQ_ROW s \<and> SQ_COL (mirror s) = SQ_COL s"
  by code_simp

lemma mirror_mirror [mirror_simps, simp]: "mirror (mirror s) = s"
  by (simp add: mirror_def xor.assoc)

lemma mirror_valid [mirror_simps, simp]: "SQ_VALID s \<Longrightarrow> SQ_VALID (mirror s)"
  using mirror_table unfolding valid_upto by blast

lemma mirror_row [mirror_simps, simp]: "SQ_VALID s \<Longrightarrow> SQ_ROW (mirror s) = 7 - SQ_ROW s"
  using mirror_table unfolding valid_upto by blast

lemma mirror_col [mirror_simps, simp]: "SQ_VALID s \<Longrightarrow> SQ_COL (mirror s) = SQ_COL s"
  using mirror_table unfolding valid_upto by blast

lemma mirror_SQ: "on_board r c \<Longrightarrow> mirror (SQ r c) = SQ (7 - r) c"
  using mirror_table on_board_SQ [of r c] unfolding valid_upto by simp

lemma mirror_eq_iff [simp]: "mirror s = mirror t \<longleftrightarrow> s = t"
  by (metis mirror_mirror)

lemma mirror_valid_iff [simp]: "SQ_VALID (mirror s) \<longleftrightarrow> SQ_VALID s"
  by (metis mirror_mirror mirror_valid)

lemma rel_row_mirror [mirror_simps]:
  "SQ_VALID s \<Longrightarrow> c \<in> {WHITE, BLACK} \<Longrightarrow> rel_row c (mirror s) = rel_row (color_opposite c) s"
  by (auto simp: rel_row_def)

lemma chebyshev_mirror [mirror_simps]:
  "SQ_VALID a \<Longrightarrow> SQ_VALID b \<Longrightarrow> chebyshev_distance_sq (mirror a) (mirror b) = chebyshev_distance_sq a b"
  by (simp add: chebyshev_distance_sq_def abs_minus_commute)

lemma distance_from_center_mirror [mirror_simps]:
  "SQ_VALID a \<Longrightarrow> distance_from_center_sq (mirror a) = distance_from_center_sq a"
  by (auto simp: distance_from_center_sq_def Let_def)


section \<open>Bitboards\<close>

definition mirror_bb :: "Bitboard \<Rightarrow> Bitboard" where
  "mirror_bb bb = fold (\<lambda>s acc. BB_SET acc (mirror s)) (bb_squares bb) BB_EMPTY"

lemma bit_mirror_bb: "SQ_VALID s \<Longrightarrow> bit (mirror_bb bb) (nat s) \<longleftrightarrow> bit bb (nat (mirror s))"
proof -
  assume s: "SQ_VALID s"
  have "\<forall>x \<in> set xs. SQ_VALID x \<Longrightarrow>
      bit (fold (\<lambda>s acc. BB_SET acc (mirror s)) xs a) (nat s) \<longleftrightarrow> mirror s \<in> set xs \<or> bit a (nat s)" for xs a
  proof (induction xs arbitrary: a)
    case (Cons x xs)
    have "nat s = nat (mirror x) \<longleftrightarrow> mirror s = x"
      using s Cons.prems nat_sq_eq_iff [of s "mirror x"] by (metis list.set_intros(1) mirror_mirror mirror_valid)
    then show ?case using Cons by (auto simp: bit_BB_SET)
  qed simp
  from this [of "bb_squares bb" BB_EMPTY] show ?thesis
    using s by (auto simp: mirror_bb_def set_bb_squares BB_EMPTY_def)
qed

lemma bb_eqI: "(\<And>s. SQ_VALID s \<Longrightarrow> bit v (nat s) \<longleftrightarrow> bit w (nat s)) \<Longrightarrow> v = (w :: Bitboard)"
proof (rule bit_word_eqI)
  fix n assume *: "\<And>s. SQ_VALID s \<Longrightarrow> bit v (nat s) \<longleftrightarrow> bit w (nat s)" and "n < LENGTH(64)"
  then show "bit v n = bit w n" using *[of "int n"] by (simp add: SQ_VALID_def)
qed

lemma bit_valid: "SQ_VALID s \<Longrightarrow> nat s < 64"
  by (simp add: SQ_VALID_def nat_less_iff)

lemma mirror_bb_ops [mirror_simps]:
  "mirror_bb v AND mirror_bb w = mirror_bb (v AND w)"
  "mirror_bb v OR mirror_bb w = mirror_bb (v OR w)"
  "NOT (mirror_bb v) = mirror_bb (NOT v)"
  "mirror_bb (mirror_bb v) = v"
  "mirror_bb 0 = 0"
  by (rule bb_eqI; simp add: bit_mirror_bb bit_simps bit_valid)+

lemma mirror_bb_eq_0 [mirror_simps]: "mirror_bb v = 0 \<longleftrightarrow> v = 0"
  by (metis mirror_bb_ops(4,5))

lemma mirror_bb_SQ [mirror_simps]: "SQ_VALID s \<Longrightarrow> BB_SQ (mirror s) = mirror_bb (BB_SQ s)"
proof (rule bb_eqI)
  fix t assume "SQ_VALID s" "SQ_VALID t"
  then show "bit (BB_SQ (mirror s)) (nat t) \<longleftrightarrow> bit (mirror_bb (BB_SQ s)) (nat t)"
    by (simp add: bit_mirror_bb bit_BB_SQ nat_sq_eq_iff) (metis mirror_mirror)
qed

lemma BB_HAS_mirror [mirror_simps]: "SQ_VALID s \<Longrightarrow> BB_HAS (mirror_bb v) (mirror s) \<longleftrightarrow> BB_HAS v s"
  by (simp add: BB_HAS_bit bit_mirror_bb)

lemma distinct_bb_squares: "distinct (bb_squares bb)"
  by (simp add: bb_squares_filter distinct_map)

lemma set_bb_squares_mirror: "set (bb_squares (mirror_bb v)) = mirror ` set (bb_squares v)"
proof -
  have "s \<in> mirror ` {s. SQ_VALID s \<and> bit v (nat s)}" if "SQ_VALID s" "bit v (nat (mirror s))" for s
    using that by (intro image_eqI [of _ _ "mirror s"]) auto
  then show ?thesis by (auto simp: set_bb_squares bit_mirror_bb)
qed

lemma bb_sum_set: "bb_sum f bb = sum f (set (bb_squares bb))"
  unfolding bb_sum_def by (simp add: sum_list_distinct_conv_sum_set distinct_bb_squares)

lemma bb_sum_mirror: "bb_sum f (mirror_bb v) = bb_sum (\<lambda>s. f (mirror s)) v"
  unfolding bb_sum_set set_bb_squares_mirror by (subst sum.reindex) (auto simp: inj_on_def)

lemma bb_sum_cong:
  assumes "\<And>s. SQ_VALID s \<Longrightarrow> bit v (nat s) \<Longrightarrow> f s = g s"
  shows "bb_sum f v = bb_sum g v"
  unfolding bb_sum_set using assms by (intro sum.cong) (auto simp: set_bb_squares)

lemma bb_popcount_sum: "bb_popcount v = bb_sum (\<lambda>_. 1) v"
  by (simp add: bb_popcount_length bb_sum_def sum_list_triv)

lemma bb_popcount_mirror [mirror_simps]: "bb_popcount (mirror_bb v) = bb_popcount v"
  unfolding bb_popcount_sum bb_sum_mirror ..

text \<open>A sum over a mirrored bitboard, with the summand rewritten square by square.\<close>

lemma bb_sum_mirrorI:
  assumes "\<And>s. SQ_VALID s \<Longrightarrow> bit v (nat s) \<Longrightarrow> f (mirror s) = g s"
  shows "bb_sum f (mirror_bb v) = bb_sum g v"
  unfolding bb_sum_mirror by (rule bb_sum_cong) (rule assms)

lemma bb_count_mirrorI:
  assumes "\<And>s. SQ_VALID s \<Longrightarrow> bit v (nat s) \<Longrightarrow> P (mirror s) = Q s"
  shows "bb_count P (mirror_bb v) = bb_count Q v"
  unfolding bb_count_def by (rule bb_sum_mirrorI) (simp add: assms)

lemma bb_best_mirrorI:
  assumes "\<And>s. SQ_VALID s \<Longrightarrow> bit v (nat s) \<Longrightarrow> f (mirror s) = g s"
  shows "bb_best a f (mirror_bb v) = bb_best a g v"
proof -
  have "f ` mirror ` set (bb_squares v) = g ` set (bb_squares v)"
    unfolding image_image by (intro image_cong refl) (simp add: set_bb_squares assms)
  then show ?thesis unfolding bb_best_Max set_bb_squares_mirror by simp
qed

lemma bb_union_mirrorI:
  assumes "\<And>s. SQ_VALID s \<Longrightarrow> bit v (nat s) \<Longrightarrow> f (mirror s) = mirror_bb (g s)"
  shows "bb_union f (mirror_bb v) = mirror_bb (bb_union g v)"
proof (rule bb_eqI)
  fix t assume "SQ_VALID t"
  then show "bit (bb_union f (mirror_bb v)) (nat t) \<longleftrightarrow> bit (mirror_bb (bb_union g v)) (nat t)"
    using assms by (auto simp: bb_union_bit bit_mirror_bb set_bb_squares_mirror) (auto simp: set_bb_squares bit_mirror_bb)
qed

lemma list_ex_mirrorI:
  assumes "\<And>s. SQ_VALID s \<Longrightarrow> bit v (nat s) \<Longrightarrow> P (mirror s) = Q s"
  shows "list_ex P (bb_squares (mirror_bb v)) = list_ex Q (bb_squares v)"
  unfolding list_ex_iff set_bb_squares_mirror using assms by (auto simp: set_bb_squares)

lemma list_all_mirrorI:
  assumes "\<And>s. SQ_VALID s \<Longrightarrow> bit v (nat s) \<Longrightarrow> P (mirror s) = Q s"
  shows "list_all P (bb_squares (mirror_bb v)) = list_all Q (bb_squares v)"
  unfolding list_all_iff set_bb_squares_mirror using assms by (auto simp: set_bb_squares)

text \<open>The lowest square of a bitboard that has only one.\<close>

lemma bb_lsb_bit: "v \<noteq> 0 \<Longrightarrow> SQ_VALID (bb_lsb v) \<and> bit v (nat (bb_lsb v))"
  using bb_lsb_props [of v] by auto

lemma popcount_1_unique:
  assumes "bb_popcount v \<le> 1" "SQ_VALID s" "bit v (nat s)" "SQ_VALID t" "bit v (nat t)"
  shows "s = t"
proof -
  have "length (bb_squares v) \<le> 1" using assms(1) by (simp add: bb_popcount_length)
  moreover have "s \<in> set (bb_squares v)" "t \<in> set (bb_squares v)" using assms by (simp_all add: set_bb_squares)
  ultimately show ?thesis by (cases "bb_squares v"; cases "tl (bb_squares v)") auto
qed

lemma bb_lsb_mirror:
  assumes "bb_popcount v \<le> 1" "v \<noteq> 0"
  shows "bb_lsb (mirror_bb v) = mirror (bb_lsb v)"
proof -
  have "mirror_bb v \<noteq> 0" using assms(2) by (simp add: mirror_bb_eq_0)
  then have "SQ_VALID (bb_lsb (mirror_bb v))" "bit v (nat (mirror (bb_lsb (mirror_bb v))))"
    using bb_lsb_bit [of "mirror_bb v"] by (auto simp: bit_mirror_bb)
  then have "mirror (bb_lsb (mirror_bb v)) = bb_lsb v"
    using popcount_1_unique [OF assms(1)] bb_lsb_bit [OF assms(2)] by simp
  then show ?thesis by (metis mirror_mirror)
qed

lemma bit_FILE_A: "n < 64 \<Longrightarrow> bit FILE_A n \<longleftrightarrow> n mod 8 = 0"
proof -
  have "\<forall>n \<in> set [0..<64]. bit FILE_A n \<longleftrightarrow> n mod 8 = 0" by code_simp
  then show "n < 64 \<Longrightarrow> bit FILE_A n \<longleftrightarrow> n mod 8 = 0" by auto
qed

lemma bit_file_bb:
  assumes "SQ_VALID s" "0 \<le> c" "c < 8"
  shows "bit (file_bb c) (nat s) \<longleftrightarrow> SQ_COL s = c"
proof -
  have "(nat s - nat c) mod 8 = 0 \<and> nat c \<le> nat s \<longleftrightarrow> nat s mod 8 = nat c"
    using assms(2,3) by (cases "nat c \<le> nat s") (auto simp: mod_eq_dvd_iff_nat [symmetric] nat_less_iff)
  moreover have "nat s mod 8 = nat c \<longleftrightarrow> SQ_COL s = c"
    using assms nat_mod_distrib [of s 8] by (auto simp: SQ_COL_mod SQ_VALID_def)
  ultimately show ?thesis
    using bit_FILE_A [of "nat s - nat c"] bit_valid [OF assms(1)]
    by (auto simp: file_bb_def bit_simps)
qed

lemma mirror_file [mirror_simps]: "0 \<le> c \<Longrightarrow> c < 8 \<Longrightarrow> mirror_bb (file_bb c) = file_bb c"
  by (rule bb_eqI) (simp add: bit_mirror_bb bit_file_bb)

lemma bit_adjacent_files:
  assumes "SQ_VALID s" "0 \<le> c" "c < 8"
  shows "bit (adjacent_files c) (nat s) \<longleftrightarrow> \<bar>SQ_COL s - c\<bar> = 1"
  using assms SQ_COL_bounds [of s] by (auto simp: adjacent_files_def Let_def BB_EMPTY_def bit_simps bit_file_bb)

lemma mirror_adjacent [mirror_simps]: "0 \<le> c \<Longrightarrow> c < 8 \<Longrightarrow> mirror_bb (adjacent_files c) = adjacent_files c"
  by (rule bb_eqI) (simp add: bit_mirror_bb bit_adjacent_files)


section \<open>Attacks\<close>

lemma sq_diff_mirror:
  "SQ_VALID a \<Longrightarrow> SQ_VALID b \<Longrightarrow> sq_diff (mirror a) (mirror b) = (- fst (sq_diff a b), snd (sq_diff a b))"
  by simp

lemma steps_mirror:
  assumes "SQ_VALID a" "SQ_VALID b"
  shows "knight_step (mirror a) (mirror b) = knight_step a b" "king_step (mirror a) (mirror b) = king_step a b"
    "c \<in> {WHITE, BLACK} \<Longrightarrow> pawn_step c (mirror a) (mirror b) = pawn_step (color_opposite c) a b"
  using sq_diff_mirror [OF assms] by (auto simp: knight_step_def king_step_def pawn_step_def)

lemma mirror_eqI:
  assumes "\<And>t. SQ_VALID t \<Longrightarrow> bit v (nat (mirror t)) \<longleftrightarrow> bit w (nat t)"
  shows "v = mirror_bb w"
  by (rule bb_eqI) (metis assms bit_mirror_bb mirror_mirror mirror_valid)

lemma king_attacks_mirror [mirror_simps]: "SQ_VALID s \<Longrightarrow> king_attacks (mirror s) = mirror_bb (king_attacks s)"
  by (rule mirror_eqI) (simp add: bit_king_attacks steps_mirror)

lemma knight_attacks_mirror [mirror_simps]: "SQ_VALID s \<Longrightarrow> knight_attacks (mirror s) = mirror_bb (knight_attacks s)"
  by (rule mirror_eqI) (simp add: bit_knight_attacks steps_mirror)

lemma on_board_flip [simp]: "on_board (7 - r) c \<longleftrightarrow> on_board r c"
  by (auto simp: on_board_def)

lemma clear_ray_mirror:
  assumes "on_board r c"
  shows "clear_ray (mirror_bb occ) (7 - r) c (- dr) dc k \<longleftrightarrow> clear_ray occ r c dr dc k"
proof -
  have row: "7 - r + int j * - dr = 7 - (r + int j * dr)" for j by (simp add: algebra_simps)
  have has: "BB_HAS (mirror_bb occ) (SQ (7 - x) y) \<longleftrightarrow> BB_HAS occ (SQ x y)" if "on_board x y" for x y
    using BB_HAS_mirror [of "SQ x y" occ] mirror_SQ [OF that] on_board_SQ(2) [OF that] by simp
  show ?thesis unfolding clear_ray_def row on_board_flip using has by auto
qed

lemma slides_mirror:
  assumes "SQ_VALID a" "SQ_VALID b" and dirs: "\<And>dr dc. (dr, dc) \<in> set dirs \<Longrightarrow> (- dr, dc) \<in> set dirs"
  shows "slides dirs (mirror_bb occ) (mirror a) (mirror b) \<longleftrightarrow> slides dirs occ a b"
proof -
  have imp: "slides dirs (mirror_bb occ) (mirror a) (mirror b)" if "slides dirs occ a b" "SQ_VALID a" for a b occ
  proof -
    from that obtain dr dc k where d: "(dr, dc) \<in> set dirs" "k \<in> {1..8}"
      "clear_ray occ (SQ_ROW a) (SQ_COL a) dr dc k" "b = SQ (SQ_ROW a + int k * dr) (SQ_COL a + int k * dc)"
      by (auto simp: slides_def)
    have "on_board (SQ_ROW a + int k * dr) (SQ_COL a + int k * dc)" using d(3) by (simp add: clear_ray_def)
    then have "mirror b = SQ (SQ_ROW (mirror a) + int k * - dr) (SQ_COL (mirror a) + int k * dc)"
      using that(2) d(4) by (simp add: mirror_SQ algebra_simps)
    moreover have "clear_ray (mirror_bb occ) (SQ_ROW (mirror a)) (SQ_COL (mirror a)) (- dr) dc k"
      using clear_ray_mirror [OF on_board_of_SQ [OF that(2)]] d(3) that(2) by simp
    ultimately show ?thesis using dirs [OF d(1)] d(2) unfolding slides_def by blast
  qed
  show ?thesis
    using imp [of occ a b] imp [of "mirror_bb occ" "mirror a" "mirror b"] assms(1,2) by (auto simp: mirror_bb_ops)
qed

lemma dirs_flip:
  "(dr, dc) \<in> set bishop_dirs \<Longrightarrow> (- dr, dc) \<in> set bishop_dirs"
  "(dr, dc) \<in> set rook_dirs \<Longrightarrow> (- dr, dc) \<in> set rook_dirs"
  by (auto simp: bishop_dirs_def rook_dirs_def)

lemma slider_mirror [mirror_simps]:
  assumes "SQ_VALID s"
  shows "bishop_attacks_calc (mirror s) (mirror_bb occ) = mirror_bb (bishop_attacks_calc s occ)"
    "rook_attacks_calc (mirror s) (mirror_bb occ) = mirror_bb (rook_attacks_calc s occ)"
  using assms slides_mirror [OF assms _ dirs_flip(1)] slides_mirror [OF assms _ dirs_flip(2)]
  by (auto intro!: mirror_eqI simp: bishop_attacks_calc_def rook_attacks_calc_def bit_slider_attacks)


section \<open>Boards\<close>

definition mirror_piece :: "Piece \<Rightarrow> Piece" where
  "mirror_piece p = (if p = PIECE_EMPTY then p else PIECE_MAKE (color_opposite (PIECE_COLOR p)) (PIECE_TYPE p))"

definition mirror_board :: "Board \<Rightarrow> Board" where
  "mirror_board b =
     b \<lparr> pieces := (\<lambda>c t. mirror_bb (pieces b (color_opposite c) t)),
         occupied := (\<lambda>c. mirror_bb (occupied b (color_opposite c))),
         all_bb := mirror_bb (all_bb b),
         mailbox := map (\<lambda>s. mirror_piece (piece_at b (mirror s))) [0..63],
         side := color_opposite (side b),
         heir_promoted := (\<lambda>c. heir_promoted b (color_opposite c)),
         truce_frozen := mirror_bb (truce_frozen b),
         ff_moved := mirror_bb (ff_moved b) \<rparr>"

lemma mirror_board_simps [mirror_simps, simp]:
  "pieces (mirror_board b) c t = mirror_bb (pieces b (color_opposite c) t)"
  "occupied (mirror_board b) c = mirror_bb (occupied b (color_opposite c))"
  "all_bb (mirror_board b) = mirror_bb (all_bb b)"
  "side (mirror_board b) = color_opposite (side b)"
  "game_mod (mirror_board b) = game_mod b" "fullmove (mirror_board b) = fullmove b"
  "heir_promoted (mirror_board b) c = heir_promoted b (color_opposite c)"
  "truce_active (mirror_board b) = truce_active b" "kb_unlocked (mirror_board b) = kb_unlocked b"
  "truce_frozen (mirror_board b) = mirror_bb (truce_frozen b)" "ff_moved (mirror_board b) = mirror_bb (ff_moved b)"
  by (simp_all add: mirror_board_def)

lemma piece_at_mirror [mirror_simps]:
  "SQ_VALID s \<Longrightarrow> piece_at (mirror_board b) (mirror s) = mirror_piece (piece_at b s)"
  using mirror_valid [of s] by (simp add: mirror_board_def nth_upto_63)

lemma mirror_piece_simps [mirror_simps, simp]:
  "PIECE_TYPE (mirror_piece p) = PIECE_TYPE p" "PIECE_COLOR (mirror_piece p) = color_opposite (PIECE_COLOR p)"
  by (auto simp: mirror_piece_def)

lemma mirror_piece_empty [mirror_simps]: "piece_ok p \<Longrightarrow> mirror_piece p = PIECE_EMPTY \<longleftrightarrow> p = PIECE_EMPTY"
  by (auto simp: mirror_piece_def piece_ok_def)

lemma empty_mirror_SQ:
  assumes "wf_place b" "on_board r k"
  shows "piece_at (mirror_board b) (SQ (7 - r) k) = PIECE_EMPTY \<longleftrightarrow> piece_at b (SQ r k) = PIECE_EMPTY"
  using piece_at_mirror [of "SQ r k" b] mirror_SQ [OF assms(2)] on_board_SQ(2) [OF assms(2)]
    mirror_piece_empty [OF wf_place_piece_ok [OF assms(1)]] by simp

lemma heir_check_mirror [mirror_simps]:
  "heir_check_applies (mirror_board b) c = heir_check_applies b (color_opposite c)"
  by (simp add: heir_check_applies_def BB_EMPTY_def mirror_bb_eq_0)

lemma kb_phase1_mirror [mirror_simps]: "kb_phase1 (mirror_board b) = kb_phase1 b"
  by (simp add: kb_phase1_def)

lemma stq_own_half_mirror [mirror_simps]:
  "SQ_VALID s \<Longrightarrow> c \<in> {WHITE, BLACK} \<Longrightarrow> stq_is_own_half (mirror s) c = stq_is_own_half s (color_opposite c)"
  using SQ_ROW_bounds [of s] by (auto simp: stq_is_own_half_def)

lemma board_square_attacked_mirror [mirror_simps]:
  assumes "SQ_VALID s" "c \<in> {WHITE, BLACK}"
  shows "board_square_attacked (mirror_board b) (mirror s) c = board_square_attacked b s (color_opposite c)"
proof -
  have c': "color_opposite c \<in> {WHITE, BLACK}" using assms(2) by auto
  have rule: "rule_attacks (mirror_board b) c t (mirror a) (mirror s) = rule_attacks b (color_opposite c) t a s"
    if "SQ_VALID a" for a t
    using that assms slides_mirror [OF that assms(1) dirs_flip(1)] slides_mirror [OF that assms(1) dirs_flip(2)]
    by (cases t) (auto simp: rule_attacks_def steps_mirror kb_phase1_mirror stq_own_half_mirror)
  have "(\<exists>a t. SQ_VALID a \<and> bit (pieces (mirror_board b) c t) (nat a) \<and> rule_attacks (mirror_board b) c t a (mirror s)) \<longleftrightarrow>
      (\<exists>a t. SQ_VALID a \<and> bit (pieces b (color_opposite c) t) (nat a) \<and> rule_attacks b (color_opposite c) t a s)"
    (is "?l \<longleftrightarrow> ?r")
  proof
    assume ?l
    then obtain a t where "SQ_VALID a" "bit (pieces (mirror_board b) c t) (nat a)" "rule_attacks (mirror_board b) c t a (mirror s)"
      by blast
    then show ?r using rule [of "mirror a" t] by (intro exI [of _ "mirror a"] exI [of _ t]) (simp add: bit_mirror_bb)
  next
    assume ?r
    then obtain a t where "SQ_VALID a" "bit (pieces b (color_opposite c) t) (nat a)" "rule_attacks b (color_opposite c) t a s"
      by blast
    then show ?l using rule [of a t] by (intro exI [of _ "mirror a"] exI [of _ t]) (simp add: bit_mirror_bb)
  qed
  then show ?thesis
    using board_square_attacked_bits [OF mirror_valid [OF assms(1)] assms(2)] board_square_attacked_bits [OF assms(1) c'] by simp
qed

lemma both_sides_mirrorI:
  assumes "\<And>c. c \<in> {WHITE, BLACK} \<Longrightarrow> f c = g (color_opposite c)"
  shows "both_sides f = - both_sides g"
  using assms [of WHITE] assms [of BLACK] by (simp add: both_sides_eq)

end
