(* ===== verification/EvalCommon.thy ===== *)
theory EvalCommon
  imports Mirror
begin

text \<open>
  The evaluation terms shared by all games, \<open>eval/eval_common.c\<close>: \<open>eval_common_init\<close> (material,
  piece-square values, mobility, game phase, bishop pair) and \<open>eval_common_finish\<close> (pawn structure,
  passed pawns, rook files, king safety, pawn threats, tempo).  C's truncating division is \<open>cdiv\<close>.
  The main result is that exchanging the colours negates both stages.
\<close>

section \<open>First stage\<close>

abbreviation is_merc :: "Board \<Rightarrow> bool" where
  "is_merc b \<equiv> game_mod b = MOD_MERCENARY"

abbreviation is_heir :: "Board \<Rightarrow> bool" where
  "is_heir b \<equiv> game_mod b = MOD_HEIR"

abbreviation is_truce_active :: "Board \<Rightarrow> bool" where
  "is_truce_active b \<equiv> game_mod b = MOD_TRUCE \<and> truce_active b"

definition FILE_H :: Bitboard where
  "FILE_H = 0x8080808080808080"

definition pawn_attack_map :: "Board \<Rightarrow> Color \<Rightarrow> Bitboard" where
  "pawn_attack_map b c =
     (if is_merc b then bb_union king_attacks (pieces b c PAWN)
      else if c = WHITE then
        (let wp = pieces b WHITE PAWN in
         push_bit 7 (wp AND NOT FILE_A) OR push_bit 9 (wp AND NOT FILE_H))
      else
        (let bp = pieces b BLACK PAWN in
         drop_bit 7 (bp AND NOT FILE_H) OR drop_bit 9 (bp AND NOT FILE_A)))"

definition piece_value :: "Board \<Rightarrow> Color \<Rightarrow> PieceType \<Rightarrow> Square \<Rightarrow> int" where
  "piece_value b c t sq =
     (let mat = MATERIAL ! type_val t;
          mat = (if t = PAWN \<and> is_merc b then 180 else mat);
          mat = (if t = PAWN \<and> is_heir b then 140 else mat);
          mat = (if t = KING \<and> is_heir b then (if \<not> heir_check_applies b c then 250 else 0) else mat);
          mat = (if t = QUEEN \<and> game_mod b = MOD_SAVE_QUEEN
                 then (if stq_is_own_half sq c then 1100 else 150) else mat)
      in if game_mod b = MOD_SUCCESSION then
           let mat = (if t = QUEEN then 1300 else mat);
               mat = (if t = PAWN then 160 else mat)
           in if t = KING then 700 else mat
         else mat)"

text \<open>The piece-square part, for the middlegame and the endgame.\<close>

definition piece_pst :: "Board \<Rightarrow> Color \<Rightarrow> PieceType \<Rightarrow> Square \<Rightarrow> int \<times> int" where
  "piece_pst b c t sq =
     (let idx = nat (if c = WHITE then sq else mirror sq);
          rank = (if c = WHITE then SQ_ROW sq else 7 - SQ_ROW sq);
          kb1 = (game_mod b = MOD_KINGS_BATTLE \<and> \<not> kb_unlocked b)
      in if t = PAWN \<and> is_merc b then
           let adv = (if rank \<ge> 1 \<and> rank \<le> 6 then rank * rank * 3 else 0) in
           (PST_MERC_PAWN ! idx + adv, PST_MERC_PAWN ! idx + adv * 2)
         else if t = PAWN \<and> is_heir b then
           let adv = (if rank \<ge> 3 then (rank - 2) * (rank - 2) * 8 else 0) in
           (PST_HEIR_PAWN ! idx + adv, PST_HEIR_PAWN ! idx + adv * 2)
         else if t = PAWN \<and> is_truce_active b then (PST_TRUCE_PAWN ! idx, PST_TRUCE_PAWN ! idx)
         else if t = KNIGHT \<and> is_truce_active b then (PST_TRUCE_KNIGHT ! idx, PST_TRUCE_KNIGHT ! idx)
         else if t = BISHOP \<and> is_truce_active b then (PST_TRUCE_BISHOP ! idx, PST_TRUCE_BISHOP ! idx)
         else if t = PAWN \<and> kb1 then
           let adv = (if rank \<ge> 3 then (rank - 2) * (rank - 2) * 10 else 0) in
           (PST_KB_PAWN_P1 ! idx + adv, PST_KB_PAWN_P1 ! idx + adv * 2)
         else if t = KING \<and> kb1 then (PST_KB_KING_P1 ! idx, PST_KB_KING_P1 ! idx)
         else if t = KING then (PST_KING_MG ! idx, PST_KING_EG ! idx)
         else (PST_TABLE t ! idx, PST_TABLE t ! idx))"

definition piece_mobility :: "Board \<Rightarrow> (Color \<Rightarrow> Bitboard) \<Rightarrow> Color \<Rightarrow> PieceType \<Rightarrow> Square \<Rightarrow> int \<times> int" where
  "piece_mobility b pawn_atk c t sq =
     (let own_occ = occupied b c;
          own_occ = (if game_mod b = MOD_FRIENDLY_FIRE
                     then own_occ AND NOT (own_occ AND ff_moved b AND NOT (pieces b c KING)) else own_occ);
          safe_sq = NOT own_occ AND NOT (pawn_atk (color_opposite c));
          extra = (if is_truce_active b then 2 else 0)
      in if t = PAWN \<and> is_merc b then
           let mob = bb_popcount (king_attacks sq AND safe_sq) in (mob * 5, mob * 5)
         else if t = KNIGHT then
           let mob = bb_popcount (knight_attacks sq AND safe_sq) in (mob * (4 + extra), mob * (4 + extra))
         else if t = BISHOP then
           let mob = bb_popcount (bishop_attacks_calc sq (all_bb b) AND safe_sq) in (mob * (5 + extra), mob * (5 + extra))
         else if t = ROOK then
           let targets = rook_attacks_calc sq (all_bb b) AND NOT own_occ;
               targets = (if is_merc b then targets AND NOT (pawn_atk (color_opposite c)) else targets);
               mob = bb_popcount targets in (mob * (2 + extra), mob * (3 + extra))
         else if t = QUEEN then
           let targets = (bishop_attacks_calc sq (all_bb b) OR rook_attacks_calc sq (all_bb b)) AND NOT own_occ;
               targets = (if is_merc b then targets AND NOT (pawn_atk (color_opposite c)) else targets);
               mob = bb_popcount targets;
               q = (if is_truce_active b then 1 else 0) in (mob * (1 + q), mob * (2 + q))
         else (0, 0))"

record InitAcc =
  mg_score :: "Color \<Rightarrow> int"
  eg_score :: "Color \<Rightarrow> int"
  material :: "Color \<Rightarrow> int"
  non_pawn_material :: "Color \<Rightarrow> int"
  pawn_count :: "Color \<Rightarrow> int"
  bishop_count :: "Color \<Rightarrow> int"
  king_sq :: "Color \<Rightarrow> int"
  queen_sq :: "Color \<Rightarrow> int"

abbreviation add_at :: "(Color \<Rightarrow> int) \<Rightarrow> Color \<Rightarrow> int \<Rightarrow> Color \<Rightarrow> int" where
  "add_at f c x \<equiv> f(c := f c + x)"

text \<open>The body of the innermost loop.\<close>

definition init_piece :: "Board \<Rightarrow> (Color \<Rightarrow> Bitboard) \<Rightarrow> Color \<Rightarrow> PieceType \<Rightarrow> Square \<Rightarrow> InitAcc \<Rightarrow> InitAcc" where
  "init_piece b pawn_atk c t sq acc =
     (let mat = piece_value b c t sq; pst = piece_pst b c t sq; mob = piece_mobility b pawn_atk c t sq in
      acc \<lparr> mg_score := add_at (mg_score acc) c (mat + fst pst + fst mob),
            eg_score := add_at (eg_score acc) c (mat + snd pst + snd mob),
            material := add_at (material acc) c mat,
            non_pawn_material := (if t \<noteq> PAWN \<and> t \<noteq> KING then add_at (non_pawn_material acc) c mat else non_pawn_material acc),
            pawn_count := (if t = PAWN then add_at (pawn_count acc) c 1 else pawn_count acc),
            bishop_count := (if t = BISHOP then add_at (bishop_count acc) c 1 else bishop_count acc),
            king_sq := (if t = KING then (king_sq acc)(c := sq) else king_sq acc),
            queen_sq := (if t = QUEEN then (queen_sq acc)(c := sq) else queen_sq acc) \<rparr>)"

definition init_start :: InitAcc where
  "init_start =
     \<lparr> mg_score = (\<lambda>_. 0), eg_score = (\<lambda>_. 0), material = (\<lambda>_. 0), non_pawn_material = (\<lambda>_. 0),
       pawn_count = (\<lambda>_. 0), bishop_count = (\<lambda>_. 0), king_sq = (\<lambda>_. -1), queen_sq = (\<lambda>_. -1) \<rparr>"

definition init_scan :: "Board \<Rightarrow> (Color \<Rightarrow> Bitboard) \<Rightarrow> InitAcc" where
  "init_scan b pawn_atk =
     fold (\<lambda>c acc. fold (\<lambda>t acc. fold (init_piece b pawn_atk c t) (bb_squares (pieces b c t)) acc) piece_types acc)
       colors init_start"

definition game_phase :: "int \<Rightarrow> int" where
  "game_phase total_mat = (let phase = cdiv (total_mat * 256) 8000 in if phase > 256 then 256 else phase)"

definition eval_common_init :: "Board \<Rightarrow> EvalContext" where
  "eval_common_init b =
     (let pawn_atk = pawn_attack_map b;
          acc = init_scan b pawn_atk;
          phase = game_phase (material acc WHITE + material acc BLACK);
          mg_weight = phase;
          eg_weight = 256 - phase;
          mg = mg_score acc WHITE - mg_score acc BLACK;
          eg = eg_score acc WHITE - eg_score acc BLACK;
          score = cdiv (mg * mg_weight + eg * eg_weight) 256;
          score = (if bishop_count acc WHITE \<ge> 2 then score + 30 else score);
          score = (if bishop_count acc BLACK \<ge> 2 then score - 30 else score)
      in \<lparr> ctx_score = score, ctx_material = material acc, ctx_non_pawn_material = non_pawn_material acc,
           ctx_pawn_count = pawn_count acc, ctx_bishop_count = bishop_count acc, ctx_king_sq = king_sq acc,
           ctx_queen_sq = queen_sq acc, ctx_pawn_atk = pawn_atk, ctx_phase = phase,
           ctx_mg_weight = mg_weight, ctx_eg_weight = eg_weight \<rparr>)"


section \<open>Last stage\<close>

definition pawn_structure :: "Board \<Rightarrow> int \<Rightarrow> int" where
  "pawn_structure b col =
     (let doubled_pen = (if is_truce_active b then 22 else 15);
          isolated_pen = (if is_truce_active b then 18 else 12);
          wp = bb_popcount (pieces b WHITE PAWN AND file_bb col);
          bp = bb_popcount (pieces b BLACK PAWN AND file_bb col);
          adj = adjacent_files col;
          score = 0;
          score = (if wp > 1 then score - (wp - 1) * doubled_pen else score);
          score = (if bp > 1 then score + (bp - 1) * doubled_pen else score);
          score = (if wp > 0 \<and> pieces b WHITE PAWN AND adj = 0 then score - isolated_pen else score)
      in if bp > 0 \<and> pieces b BLACK PAWN AND adj = 0 then score + isolated_pen else score)"

definition PASSED_BONUS :: "int list" where
  "PASSED_BONUS = [0, 5, 10, 20, 40, 60, 100, 0]"

definition pawn_passed :: "Board \<Rightarrow> Color \<Rightarrow> Square \<Rightarrow> bool" where
  "pawn_passed b c sq =
     (let opp = color_opposite c; row = SQ_ROW sq; col = SQ_COL sq;
          r_start = (if c = WHITE then row + 1 else 0);
          r_end = (if c = WHITE then 8 else row)
      in \<not> list_ex (\<lambda>r. list_ex (\<lambda>dc. let nc = col + dc in
              \<not> (nc < 0 \<or> nc > 7) \<and> BB_HAS (pieces b opp PAWN) (SQ r nc)) [-1, 0, 1]) [r_start..r_end - 1])"

definition passed_score :: "Board \<Rightarrow> EvalContext \<Rightarrow> Color \<Rightarrow> Square \<Rightarrow> int" where
  "passed_score b ctx c sq =
     (if pawn_passed b c sq then
        let mg_b = PASSED_BONUS ! nat (rel_row c sq);
            eg_b = cdiv (mg_b * 3) 2
        in cdiv (mg_b * ctx_mg_weight ctx + eg_b * ctx_eg_weight ctx) 256
      else 0)"

definition rook_file_bonus :: "Board \<Rightarrow> Color \<Rightarrow> Square \<Rightarrow> int" where
  "rook_file_bonus b c sq =
     (let file = file_bb (SQ_COL sq);
          own_p = (pieces b c PAWN AND file \<noteq> 0);
          opp_p = (pieces b (color_opposite c) PAWN AND file \<noteq> 0)
      in if \<not> own_p \<and> \<not> opp_p then 25 else if \<not> own_p then 15 else 0)"

text \<open>Own pawns on the three squares in front of the king.\<close>

definition pawn_shield :: "Board \<Rightarrow> Color \<Rightarrow> Square \<Rightarrow> int" where
  "pawn_shield b c ksq =
     (let fwd = (if c = WHITE then 1 else -1) in
      sum_list (map (\<lambda>dc. let nc = SQ_COL ksq + dc; nr = SQ_ROW ksq + fwd in
         if nc < 0 \<or> nc > 7 \<or> nr < 0 \<or> nr > 7 then 0
         else if BB_HAS (pieces b c PAWN) (SQ nr nc) then 1 else 0) [-1, 0, 1]))"

definition zone_attackers :: "Board \<Rightarrow> Color \<Rightarrow> Bitboard \<Rightarrow> int" where
  "zone_attackers b opp king_zone =
     bb_sum (\<lambda>s. if (bishop_attacks_calc s (all_bb b) OR rook_attacks_calc s (all_bb b)) AND king_zone \<noteq> 0
                 then 5 else 0) (pieces b opp QUEEN) +
     bb_sum (\<lambda>s. if rook_attacks_calc s (all_bb b) AND king_zone \<noteq> 0 then 3 else 0) (pieces b opp ROOK) +
     bb_sum (\<lambda>s. if bishop_attacks_calc s (all_bb b) AND king_zone \<noteq> 0 then 2 else 0) (pieces b opp BISHOP) +
     bb_sum (\<lambda>s. if knight_attacks s AND king_zone \<noteq> 0 then 2 else 0) (pieces b opp KNIGHT) +
     (if is_merc b then bb_sum (\<lambda>s. if king_attacks s AND king_zone \<noteq> 0 then 5 else 0) (pieces b opp PAWN) else 0)"

definition king_safety :: "Board \<Rightarrow> EvalContext \<Rightarrow> Color \<Rightarrow> int" where
  "king_safety b ctx c =
     (let kbb = pieces b c KING in
      if kbb = BB_EMPTY then 0
      else if is_heir b \<and> \<not> heir_check_applies b c then 0
      else
        let ksq = bb_lsb kbb;
            shield = (if is_merc b then bb_popcount (pieces b c PAWN AND king_attacks ksq) else pawn_shield b c ksq);
            shield_weight = (if is_merc b then 26 else 10);
            kw = (if is_merc b then (if ctx_mg_weight ctx > 140 then ctx_mg_weight ctx else 140) else ctx_mg_weight ctx);
            s_bonus = cdiv (shield * shield_weight * kw) 256;
            king_zone = king_attacks ksq OR BB_SQ ksq;
            attack_weight = zone_attackers b (color_opposite c) king_zone;
            danger = drop_bit 8 (attack_weight * attack_weight * kw)
        in s_bonus - danger)"

definition MERC_EXPOSED_BY_PAWN :: "int list" where
  "MERC_EXPOSED_BY_PAWN = [0, 35, 35, 60, 110, 0]"

definition merc_exposed :: "Board \<Rightarrow> EvalContext \<Rightarrow> Color \<Rightarrow> int" where
  "merc_exposed b ctx c =
     bb_sum (\<lambda>s. let pt = PIECE_TYPE (piece_at b s) in if type_val pt < 6 then MERC_EXPOSED_BY_PAWN ! type_val pt else 0)
       (ctx_pawn_atk ctx (color_opposite c) AND occupied b c AND NOT (pieces b c PAWN OR pieces b c KING))"

definition THREAT_BY_PAWN :: "int list" where
  "THREAT_BY_PAWN = [0, 30, 30, 50, 70, 0]"

definition THREAT_BY_MERC_PAWN :: "int list" where
  "THREAT_BY_MERC_PAWN = [0, 45, 45, 75, 130, 0]"

definition pawn_threats :: "Board \<Rightarrow> EvalContext \<Rightarrow> Color \<Rightarrow> int" where
  "pawn_threats b ctx c =
     (let threat_table = (if is_merc b then THREAT_BY_MERC_PAWN else THREAT_BY_PAWN); opp = color_opposite c in
      bb_sum (\<lambda>s. let pt = PIECE_TYPE (piece_at b s) in if type_val pt < 6 then threat_table ! type_val pt else 0)
        (ctx_pawn_atk ctx c AND occupied b opp AND NOT (pieces b opp PAWN)))"

definition eval_common_finish :: "Board \<Rightarrow> EvalContext \<Rightarrow> int" where
  "eval_common_finish b ctx =
     (if is_merc b then 0 else sum_list (map (pawn_structure b) [0..7])) +
     (if is_merc b then 0 else both_sides (\<lambda>c. bb_sum (passed_score b ctx c) (pieces b c PAWN))) +
     (if is_merc b then 0 else both_sides (\<lambda>c. bb_sum (rook_file_bonus b c) (pieces b c ROOK))) +
     (if ctx_mg_weight ctx > 64 \<or> is_merc b then both_sides (king_safety b ctx) else 0) -
     (if is_merc b then both_sides (merc_exposed b ctx) else 0) +
     both_sides (pawn_threats b ctx) +
     (if is_merc b then pov (side b) 15 else 0) +
     (if is_heir b then pov (side b) 10 else 0)"


section \<open>Pawn attacks by shifting\<close>

lemma bit_FILE_H: "n < 64 \<Longrightarrow> bit FILE_H n \<longleftrightarrow> n mod 8 = 7"
proof -
  have "\<forall>n \<in> set [0..<64]. bit FILE_H n \<longleftrightarrow> n mod 8 = 7" by code_simp
  then show "n < 64 \<Longrightarrow> bit FILE_H n \<longleftrightarrow> n mod 8 = 7" by auto
qed

lemma pawn_step_shift:
  assumes "SQ_VALID s" "SQ_VALID t"
  shows "pawn_step WHITE s t \<longleftrightarrow> t = s + 7 \<and> s mod 8 \<noteq> 0 \<or> t = s + 9 \<and> s mod 8 \<noteq> 7"
    "pawn_step BLACK s t \<longleftrightarrow> t = s - 7 \<and> s mod 8 \<noteq> 7 \<or> t = s - 9 \<and> s mod 8 \<noteq> 0"
proof -
  define q c q' c' where d: "q = s div 8" "c = s mod 8" "q' = t div 8" "c' = t mod 8"
  have st: "s = 8 * q + c" "t = 8 * q' + c'" and r: "0 \<le> c" "c < 8" "0 \<le> c'" "c' < 8"
    unfolding d by simp_all
  have up: "q' = q + 1 \<and> (c' = c + 1 \<or> c' = c - 1) \<longleftrightarrow> t = s + 7 \<and> c \<noteq> 0 \<or> t = s + 9 \<and> c \<noteq> 7"
  proof
    assume "t = s + 7 \<and> c \<noteq> 0 \<or> t = s + 9 \<and> c \<noteq> 7"
    then have "q' < q + 2" "q < q'" unfolding st using r by linarith+
    then have "q' = q + 1" by simp
    with \<open>t = s + 7 \<and> c \<noteq> 0 \<or> t = s + 9 \<and> c \<noteq> 7\<close> show "q' = q + 1 \<and> (c' = c + 1 \<or> c' = c - 1)" unfolding st by auto
  qed (use r in \<open>auto simp: st\<close>)
  have down: "q' = q - 1 \<and> (c' = c + 1 \<or> c' = c - 1) \<longleftrightarrow> t = s - 7 \<and> c \<noteq> 7 \<or> t = s - 9 \<and> c \<noteq> 0"
  proof
    assume "t = s - 7 \<and> c \<noteq> 7 \<or> t = s - 9 \<and> c \<noteq> 0"
    then have "q' < q" "q < q' + 2" unfolding st using r by linarith+
    then have "q' = q - 1" by simp
    with \<open>t = s - 7 \<and> c \<noteq> 7 \<or> t = s - 9 \<and> c \<noteq> 0\<close> show "q' = q - 1 \<and> (c' = c + 1 \<or> c' = c - 1)" unfolding st by auto
  qed (use r in \<open>auto simp: st\<close>)
  have "q' - q = 1 \<longleftrightarrow> q' = q + 1" "q' - q = - 1 \<longleftrightarrow> q' = q - 1" "\<bar>c' - c\<bar> = 1 \<longleftrightarrow> c' = c + 1 \<or> c' = c - 1"
    by linarith+
  with up down have "q' - q = 1 \<and> \<bar>c' - c\<bar> = 1 \<longleftrightarrow> t = s + 7 \<and> c \<noteq> 0 \<or> t = s + 9 \<and> c \<noteq> 7"
    "q' - q = - 1 \<and> \<bar>c' - c\<bar> = 1 \<longleftrightarrow> t = s - 7 \<and> c \<noteq> 7 \<or> t = s - 9 \<and> c \<noteq> 0" by simp_all
  then show "pawn_step WHITE s t \<longleftrightarrow> t = s + 7 \<and> s mod 8 \<noteq> 0 \<or> t = s + 9 \<and> s mod 8 \<noteq> 7"
    "pawn_step BLACK s t \<longleftrightarrow> t = s - 7 \<and> s mod 8 \<noteq> 7 \<or> t = s - 9 \<and> s mod 8 \<noteq> 0"
    unfolding pawn_step_def fst_conv snd_conv SQ_ROW_div SQ_COL_mod d by simp_all
qed

lemma bit_shift_up:
  assumes "SQ_VALID t"
  shows "bit (push_bit k (v :: Bitboard)) (nat t) \<longleftrightarrow> (\<exists>s. SQ_VALID s \<and> bit v (nat s) \<and> t = s + int k)"
proof -
  have "bit (push_bit k v) (nat t) \<longleftrightarrow> int k \<le> t \<and> bit v (nat (t - int k))"
    using assms by (auto simp: bit_simps SQ_VALID_def nat_diff_distrib' le_nat_iff nat_less_iff)
  also have "\<dots> \<longleftrightarrow> (\<exists>s. SQ_VALID s \<and> bit v (nat s) \<and> t = s + int k)"
    using assms by (auto simp: SQ_VALID_def intro!: exI [of _ "t - int k"])
  finally show ?thesis .
qed

lemma bit_shift_down:
  assumes "SQ_VALID t"
  shows "bit (drop_bit k (v :: Bitboard)) (nat t) \<longleftrightarrow> (\<exists>s. SQ_VALID s \<and> bit v (nat s) \<and> t = s - int k)"
proof -
  have "bit (drop_bit k v) (nat t) \<longleftrightarrow> bit v (nat (t + int k))"
    using assms by (simp add: bit_simps SQ_VALID_def nat_add_distrib add.commute)
  also have "\<dots> \<longleftrightarrow> (\<exists>s. SQ_VALID s \<and> bit v (nat s) \<and> t = s - int k)"
    using assms bit_imp_le_length [of v] by (auto simp: SQ_VALID_def intro!: exI [of _ "t + int k"]) fastforce
  finally show ?thesis .
qed

lemma bit_not_file:
  assumes "SQ_VALID s"
  shows "bit (v AND NOT FILE_A) (nat s) \<longleftrightarrow> bit v (nat s) \<and> s mod 8 \<noteq> 0"
    "bit (v AND NOT FILE_H) (nat s) \<longleftrightarrow> bit v (nat s) \<and> s mod 8 \<noteq> 7"
proof -
  have "nat s mod 8 = 0 \<longleftrightarrow> s mod 8 = 0" "nat s mod 8 = 7 \<longleftrightarrow> s mod 8 = 7"
    using assms nat_mod_distrib [of s 8] by (auto simp: SQ_VALID_def nat_eq_iff2)
  then show "bit (v AND NOT FILE_A) (nat s) \<longleftrightarrow> bit v (nat s) \<and> s mod 8 \<noteq> 0"
    "bit (v AND NOT FILE_H) (nat s) \<longleftrightarrow> bit v (nat s) \<and> s mod 8 \<noteq> 7"
    using bit_valid [OF assms] bit_FILE_A [of "nat s"] bit_FILE_H [of "nat s"] by (auto simp: bit_simps)
qed

lemma bit_pawn_attack_map:
  assumes "\<not> is_merc b" "SQ_VALID t" "c \<in> {WHITE, BLACK}"
  shows "bit (pawn_attack_map b c) (nat t) \<longleftrightarrow> (\<exists>s. SQ_VALID s \<and> bit (pieces b c PAWN) (nat s) \<and> pawn_step c s t)"
proof (cases "c = WHITE")
  case True
  then show ?thesis
    using assms
    by (simp add: pawn_attack_map_def Let_def bit_or_iff bit_shift_up bit_not_file pawn_step_shift
        del: push_bit_and cong: conj_cong) blast
next
  case False
  then have "c = BLACK" using assms(3) by simp
  then show ?thesis
    using assms
    by (simp add: pawn_attack_map_def Let_def bit_or_iff bit_shift_down bit_not_file pawn_step_shift
        del: drop_bit_and cong: conj_cong) blast
qed

lemma pawn_attack_map_union:
  assumes "\<not> is_merc b" "c \<in> {WHITE, BLACK}"
  shows "pawn_attack_map b c = bb_union (pawn_attacks c) (pieces b c PAWN)"
  by (rule bb_eqI) (use assms in \<open>auto simp: bit_pawn_attack_map bb_union_bit set_bb_squares bit_pawn_attacks\<close>)

lemma pawn_attack_map_mirror [mirror_simps]:
  assumes "c \<in> {WHITE, BLACK}"
  shows "pawn_attack_map (mirror_board b) c = mirror_bb (pawn_attack_map b (color_opposite c))"
proof (cases "is_merc b")
  case True
  then show ?thesis
    by (simp add: pawn_attack_map_def bb_union_mirrorI king_attacks_mirror)
next
  case False
  have c': "color_opposite c \<in> {WHITE, BLACK}" using assms by auto
  have "(\<exists>s. SQ_VALID s \<and> bit (pieces (mirror_board b) c PAWN) (nat s) \<and> pawn_step c s (mirror t)) \<longleftrightarrow>
      (\<exists>s. SQ_VALID s \<and> bit (pieces b (color_opposite c) PAWN) (nat s) \<and> pawn_step (color_opposite c) s t)"
    if t: "SQ_VALID t" for t
  proof -
    have "(\<exists>s. SQ_VALID s \<and> P s) \<longleftrightarrow> (\<exists>s. SQ_VALID s \<and> P (mirror s))" for P
      by (metis mirror_mirror mirror_valid)
    from this [of "\<lambda>s. bit (pieces (mirror_board b) c PAWN) (nat s) \<and> pawn_step c s (mirror t)"]
    show ?thesis using steps_mirror(3) [OF _ t assms] by (auto simp: bit_mirror_bb)
  qed
  then show ?thesis
    by (intro mirror_eqI) (simp add: bit_pawn_attack_map [OF _ _ c'] bit_pawn_attack_map [OF _ _ assms] False)
qed


section \<open>The scan as sums\<close>

lemma fold_init_piece:
  "mg_score (fold (init_piece b pa c t) xs acc) =
     add_at (mg_score acc) c (sum_list (map (\<lambda>s. piece_value b c t s + fst (piece_pst b c t s) + fst (piece_mobility b pa c t s)) xs))"
  "eg_score (fold (init_piece b pa c t) xs acc) =
     add_at (eg_score acc) c (sum_list (map (\<lambda>s. piece_value b c t s + snd (piece_pst b c t s) + snd (piece_mobility b pa c t s)) xs))"
  "material (fold (init_piece b pa c t) xs acc) = add_at (material acc) c (sum_list (map (piece_value b c t) xs))"
  "non_pawn_material (fold (init_piece b pa c t) xs acc) =
     (if t \<noteq> PAWN \<and> t \<noteq> KING then add_at (non_pawn_material acc) c (sum_list (map (piece_value b c t) xs))
      else non_pawn_material acc)"
  "pawn_count (fold (init_piece b pa c t) xs acc) =
     (if t = PAWN then add_at (pawn_count acc) c (int (length xs)) else pawn_count acc)"
  "bishop_count (fold (init_piece b pa c t) xs acc) =
     (if t = BISHOP then add_at (bishop_count acc) c (int (length xs)) else bishop_count acc)"
  "king_sq (fold (init_piece b pa c t) xs acc) =
     (if t = KING \<and> xs \<noteq> [] then (king_sq acc)(c := last xs) else king_sq acc)"
  "queen_sq (fold (init_piece b pa c t) xs acc) =
     (if t = QUEEN \<and> xs \<noteq> [] then (queen_sq acc)(c := last xs) else queen_sq acc)"
  by (induction xs arbitrary: acc) (simp_all add: init_piece_def Let_def add.assoc)

definition side_sum :: "(PieceType \<Rightarrow> Square \<Rightarrow> int) \<Rightarrow> Board \<Rightarrow> Color \<Rightarrow> int" where
  "side_sum f b c = sum_list (map (\<lambda>t. bb_sum (f t) (pieces b c t)) piece_types)"

lemma fold_init_types:
  fixes b pa c
  defines "scan \<equiv> \<lambda>ts acc. fold (\<lambda>t acc. fold (init_piece b pa c t) (bb_squares (pieces b c t)) acc) ts acc"
  shows "mg_score (scan ts acc) = add_at (mg_score acc) c
      (sum_list (map (\<lambda>t. bb_sum (\<lambda>s. piece_value b c t s + fst (piece_pst b c t s) + fst (piece_mobility b pa c t s)) (pieces b c t)) ts))"
    "eg_score (scan ts acc) = add_at (eg_score acc) c
      (sum_list (map (\<lambda>t. bb_sum (\<lambda>s. piece_value b c t s + snd (piece_pst b c t s) + snd (piece_mobility b pa c t s)) (pieces b c t)) ts))"
    "material (scan ts acc) = add_at (material acc) c (sum_list (map (\<lambda>t. bb_sum (piece_value b c t) (pieces b c t)) ts))"
  unfolding scan_def
  by (induction ts arbitrary: acc) (simp_all add: fold_init_piece(1,2,3) bb_sum_def add.assoc)

lemma init_scan_sums:
  assumes "c \<in> {WHITE, BLACK}"
  shows "mg_score (init_scan b pa) c =
      side_sum (\<lambda>t s. piece_value b c t s + fst (piece_pst b c t s) + fst (piece_mobility b pa c t s)) b c"
    "eg_score (init_scan b pa) c =
      side_sum (\<lambda>t s. piece_value b c t s + snd (piece_pst b c t s) + snd (piece_mobility b pa c t s)) b c"
    "material (init_scan b pa) c = side_sum (piece_value b c) b c"
    "non_pawn_material (init_scan b pa) c = sum_list (map (\<lambda>t. bb_sum (piece_value b c t) (pieces b c t)) officers)"
    "pawn_count (init_scan b pa) c = bb_popcount (pieces b c PAWN)"
    "bishop_count (init_scan b pa) c = bb_popcount (pieces b c BISHOP)"
    "king_sq (init_scan b pa) c = (if pieces b c KING = 0 then -1 else last (bb_squares (pieces b c KING)))"
    "queen_sq (init_scan b pa) c = (if pieces b c QUEEN = 0 then -1 else last (bb_squares (pieces b c QUEEN)))"
proof -
  have e: "bb_squares v = [] \<longleftrightarrow> v = 0" for v
    using bb_popcount_eq_0 [of v] bb_popcount_length [of v] by simp
  have scan: "init_scan b pa = fold (\<lambda>t acc. fold (init_piece b pa BLACK t) (bb_squares (pieces b BLACK t)) acc) piece_types
      (fold (\<lambda>t acc. fold (init_piece b pa WHITE t) (bb_squares (pieces b WHITE t)) acc) piece_types init_start)"
    by (simp add: init_scan_def colors_def)
  from assms consider "c = WHITE" | "c = BLACK" by blast
  then show "mg_score (init_scan b pa) c =
      side_sum (\<lambda>t s. piece_value b c t s + fst (piece_pst b c t s) + fst (piece_mobility b pa c t s)) b c"
    "eg_score (init_scan b pa) c =
      side_sum (\<lambda>t s. piece_value b c t s + snd (piece_pst b c t s) + snd (piece_mobility b pa c t s)) b c"
    "material (init_scan b pa) c = side_sum (piece_value b c) b c"
    unfolding scan fold_init_types side_sum_def by (cases; simp add: init_start_def)+
  show "non_pawn_material (init_scan b pa) c = sum_list (map (\<lambda>t. bb_sum (piece_value b c t) (pieces b c t)) officers)"
    using assms by (auto simp: init_scan_def colors_def piece_types_def fold_init_piece(4) init_start_def officers_def bb_sum_def)
  show "pawn_count (init_scan b pa) c = bb_popcount (pieces b c PAWN)"
    using assms by (auto simp: init_scan_def colors_def piece_types_def fold_init_piece(5) init_start_def bb_popcount_length)
  show "bishop_count (init_scan b pa) c = bb_popcount (pieces b c BISHOP)"
    using assms by (auto simp: init_scan_def colors_def piece_types_def fold_init_piece(6) init_start_def bb_popcount_length)
  show "king_sq (init_scan b pa) c = (if pieces b c KING = 0 then -1 else last (bb_squares (pieces b c KING)))"
    using assms by (auto simp: init_scan_def colors_def piece_types_def fold_init_piece(7) init_start_def e)
  show "queen_sq (init_scan b pa) c = (if pieces b c QUEEN = 0 then -1 else last (bb_squares (pieces b c QUEEN)))"
    using assms by (auto simp: init_scan_def colors_def piece_types_def fold_init_piece(8) init_start_def e)
qed


section \<open>Exchanging the colours\<close>

lemma piece_value_mirror [mirror_simps]:
  assumes "SQ_VALID s" "c \<in> {WHITE, BLACK}"
  shows "piece_value (mirror_board b) c t (mirror s) = piece_value b (color_opposite c) t s"
  unfolding piece_value_def by (simp add: heir_check_mirror stq_own_half_mirror [OF assms])

lemma piece_pst_mirror [mirror_simps]:
  assumes "SQ_VALID s" "c \<in> {WHITE, BLACK}"
  shows "piece_pst (mirror_board b) c t (mirror s) = piece_pst b (color_opposite c) t s"
proof -
  have "(if c = WHITE then mirror s else mirror (mirror s)) = (if color_opposite c = WHITE then s else mirror s)"
    "(if c = WHITE then SQ_ROW (mirror s) else 7 - SQ_ROW (mirror s)) =
      (if color_opposite c = WHITE then SQ_ROW s else 7 - SQ_ROW s)"
    using assms by auto
  then show ?thesis unfolding piece_pst_def mirror_board_simps by simp
qed

lemma piece_mobility_mirror [mirror_simps]:
  assumes "SQ_VALID s" "\<And>c. c \<in> {WHITE, BLACK} \<Longrightarrow> pa' c = mirror_bb (pa (color_opposite c))" "c \<in> {WHITE, BLACK}"
  shows "piece_mobility (mirror_board b) pa' c t (mirror s) = piece_mobility b pa (color_opposite c) t s"
proof -
  have "pa' (color_opposite c) = mirror_bb (pa c)" using assms(2) [of "color_opposite c"] assms(3) by auto
  then show ?thesis
    unfolding piece_mobility_def Let_def using assms(1,3)
    by (simp add: king_attacks_mirror knight_attacks_mirror slider_mirror mirror_bb_ops bb_popcount_mirror if_distrib [of bb_popcount])
qed

lemma side_sum_mirror:
  assumes "\<And>t s. SQ_VALID s \<Longrightarrow> f t (mirror s) = g t s"
  shows "side_sum f (mirror_board b) c = side_sum g b (color_opposite c)"
  unfolding side_sum_def mirror_board_simps
  by (intro arg_cong [of _ _ sum_list] map_cong refl bb_sum_mirrorI) (rule assms)

text \<open>What the last stage and the evaluation of a variant may read from the context.\<close>

definition ctx_mirror :: "EvalContext \<Rightarrow> EvalContext \<Rightarrow> bool" where
  "ctx_mirror ctx ctx' \<longleftrightarrow>
     ctx_mg_weight ctx' = ctx_mg_weight ctx \<and> ctx_eg_weight ctx' = ctx_eg_weight ctx \<and>
     (\<forall>c \<in> {WHITE, BLACK}.
        ctx_material ctx' c = ctx_material ctx (color_opposite c) \<and>
        ctx_non_pawn_material ctx' c = ctx_non_pawn_material ctx (color_opposite c) \<and>
        ctx_pawn_count ctx' c = ctx_pawn_count ctx (color_opposite c) \<and>
        ctx_bishop_count ctx' c = ctx_bishop_count ctx (color_opposite c) \<and>
        ctx_pawn_atk ctx' c = mirror_bb (ctx_pawn_atk ctx (color_opposite c)))"

lemma ctx_mirrorD:
  assumes "ctx_mirror ctx ctx'"
  shows "ctx_mg_weight ctx' = ctx_mg_weight ctx" "ctx_eg_weight ctx' = ctx_eg_weight ctx"
    "c \<in> {WHITE, BLACK} \<Longrightarrow> ctx_material ctx' c = ctx_material ctx (color_opposite c)"
    "c \<in> {WHITE, BLACK} \<Longrightarrow> ctx_non_pawn_material ctx' c = ctx_non_pawn_material ctx (color_opposite c)"
    "c \<in> {WHITE, BLACK} \<Longrightarrow> ctx_pawn_count ctx' c = ctx_pawn_count ctx (color_opposite c)"
    "c \<in> {WHITE, BLACK} \<Longrightarrow> ctx_bishop_count ctx' c = ctx_bishop_count ctx (color_opposite c)"
    "c \<in> {WHITE, BLACK} \<Longrightarrow> ctx_pawn_atk ctx' c = mirror_bb (ctx_pawn_atk ctx (color_opposite c))"
  using assms unfolding ctx_mirror_def by blast+

lemma init_scan_mirror:
  fixes b :: Board
  assumes "c \<in> {WHITE, BLACK}"
  defines "acc' \<equiv> init_scan (mirror_board b) (pawn_attack_map (mirror_board b))"
    and "acc \<equiv> init_scan b (pawn_attack_map b)"
  shows "mg_score acc' c = mg_score acc (color_opposite c)" "eg_score acc' c = eg_score acc (color_opposite c)"
    "material acc' c = material acc (color_opposite c)"
    "non_pawn_material acc' c = non_pawn_material acc (color_opposite c)"
    "pawn_count acc' c = pawn_count acc (color_opposite c)" "bishop_count acc' c = bishop_count acc (color_opposite c)"
proof -
  have c': "color_opposite c \<in> {WHITE, BLACK}" using assms(1) by auto
  note sums = init_scan_sums [OF assms(1)] init_scan_sums [OF c']
  have mob: "piece_mobility (mirror_board b) (pawn_attack_map (mirror_board b)) c t (mirror s) =
      piece_mobility b (pawn_attack_map b) (color_opposite c) t s" if "SQ_VALID s" for t s
    by (rule piece_mobility_mirror [OF that _ assms(1)]) (rule pawn_attack_map_mirror)
  note pieces = piece_value_mirror [OF _ assms(1)] piece_pst_mirror [OF _ assms(1)] mob
  show "mg_score acc' c = mg_score acc (color_opposite c)" "eg_score acc' c = eg_score acc (color_opposite c)"
    "material acc' c = material acc (color_opposite c)"
    unfolding acc'_def acc_def sums by (rule side_sum_mirror; simp add: pieces)+
  show "non_pawn_material acc' c = non_pawn_material acc (color_opposite c)"
    unfolding acc'_def acc_def sums mirror_board_simps
    by (intro arg_cong [of _ _ sum_list] map_cong refl bb_sum_mirrorI) (rule pieces(1))
  show "pawn_count acc' c = pawn_count acc (color_opposite c)" "bishop_count acc' c = bishop_count acc (color_opposite c)"
    unfolding acc'_def acc_def sums by (simp_all add: bb_popcount_mirror)
qed

lemma eval_common_init_mirror:
  "ctx_score (eval_common_init (mirror_board b)) = - ctx_score (eval_common_init b)"
  "ctx_mirror (eval_common_init b) (eval_common_init (mirror_board b))"
proof -
  let ?acc = "init_scan b (pawn_attack_map b)"
  note w = init_scan_mirror [of WHITE b, simplified] and bl = init_scan_mirror [of BLACK b, simplified]
  have neg: "cdiv ((x - y) * mg + (u - v) * eg) 256 = - cdiv ((y - x) * mg + (v - u) * eg) 256" for x y u v mg eg
    using cdiv_neg [of "(y - x) * mg + (v - u) * eg" 256] by (simp add: algebra_simps)
  show "ctx_score (eval_common_init (mirror_board b)) = - ctx_score (eval_common_init b)"
    unfolding eval_common_init_def Let_def w bl
      neg [of "mg_score ?acc BLACK" "mg_score ?acc WHITE" _ "eg_score ?acc BLACK" "eg_score ?acc WHITE"]
    by (simp add: add.commute)
  show "ctx_mirror (eval_common_init b) (eval_common_init (mirror_board b))"
    unfolding ctx_mirror_def eval_common_init_def Let_def
    using w bl by (auto simp: pawn_attack_map_mirror add.commute)
qed


lemma mirror_mask:
  assumes "mirror_bb m = m"
  shows "mirror_bb v AND m = mirror_bb (v AND m)"
  by (metis assms mirror_bb_ops(1))

lemma file_mask_mirror [mirror_simps]:
  assumes "0 \<le> c" "c < 8"
  shows "mirror_bb v AND file_bb c = mirror_bb (v AND file_bb c)"
    "mirror_bb v AND adjacent_files c = mirror_bb (v AND adjacent_files c)"
  using assms by (simp_all add: mirror_mask mirror_file mirror_adjacent)

lemma pawn_structure_mirror:
  "0 \<le> col \<Longrightarrow> col < 8 \<Longrightarrow> pawn_structure (mirror_board b) col = - pawn_structure b col"
  by (auto simp: pawn_structure_def Let_def file_mask_mirror bb_popcount_mirror mirror_bb_eq_0)

text \<open>A pawn is passed when no enemy pawn stands ahead of it on its own or a neighbouring file.\<close>

lemma pawn_passed_iff:
  assumes "SQ_VALID s"
  shows "pawn_passed b c s \<longleftrightarrow>
    \<not> (\<exists>t. SQ_VALID t \<and> bit (pieces b (color_opposite c) PAWN) (nat t) \<and> \<bar>SQ_COL t - SQ_COL s\<bar> \<le> 1 \<and>
        (if c = WHITE then SQ_ROW s < SQ_ROW t else SQ_ROW t < SQ_ROW s))"
proof -
  let ?P = "pieces b (color_opposite c) PAWN"
  have rows: "(\<exists>r \<in> {if c = WHITE then SQ_ROW s + 1 else 0..(if c = WHITE then 8 else SQ_ROW s) - 1}. \<exists>dc \<in> {- 1, 0, 1}.
        \<not> (SQ_COL s + dc < 0 \<or> SQ_COL s + dc > 7) \<and> bit ?P (nat (SQ r (SQ_COL s + dc)))) \<longleftrightarrow>
      (\<exists>t. SQ_VALID t \<and> bit ?P (nat t) \<and> \<bar>SQ_COL t - SQ_COL s\<bar> \<le> 1 \<and>
        (if c = WHITE then SQ_ROW s < SQ_ROW t else SQ_ROW t < SQ_ROW s))" (is "?l \<longleftrightarrow> ?r")
  proof
    assume ?l
    then obtain r dc where r: "r \<in> {if c = WHITE then SQ_ROW s + 1 else 0..(if c = WHITE then 8 else SQ_ROW s) - 1}"
        "dc \<in> {- 1, 0, 1}" "\<not> (SQ_COL s + dc < 0 \<or> SQ_COL s + dc > 7)" "bit ?P (nat (SQ r (SQ_COL s + dc)))" by blast
    then have "on_board r (SQ_COL s + dc)"
      using SQ_ROW_bounds [OF assms] by (auto simp: on_board_def split: if_splits)
    then show ?r
      using r on_board_SQ [of r "SQ_COL s + dc"] by (intro exI [of _ "SQ r (SQ_COL s + dc)"]) (auto split: if_splits)
  next
    assume ?r
    then obtain t where t: "SQ_VALID t" "bit ?P (nat t)" "\<bar>SQ_COL t - SQ_COL s\<bar> \<le> 1"
        "if c = WHITE then SQ_ROW s < SQ_ROW t else SQ_ROW t < SQ_ROW s" by blast
    have col: "SQ_COL s + (SQ_COL t - SQ_COL s) = SQ_COL t" by simp
    have "SQ_COL t - SQ_COL s \<in> {- 1, 0, 1}" using t(3) by auto
    then show ?l
      using t SQ_ROW_bounds [OF t(1)] SQ_COL_bounds [of t]
      by (intro bexI [of _ "SQ_ROW t"] bexI [of _ "SQ_COL t - SQ_COL s"]) (auto simp: col)
  qed
  show ?thesis
    unfolding pawn_passed_def Let_def list_ex_iff BB_HAS_bit rows [symmetric] by simp
qed

lemma ex_mirror: "(\<exists>s. SQ_VALID s \<and> P s) \<longleftrightarrow> (\<exists>s. SQ_VALID s \<and> P (mirror s))"
  by (metis mirror_mirror mirror_valid)

lemma pawn_passed_mirror [mirror_simps]:
  assumes "SQ_VALID s" "c \<in> {WHITE, BLACK}"
  shows "pawn_passed (mirror_board b) c (mirror s) = pawn_passed b (color_opposite c) s"
  unfolding pawn_passed_iff [OF assms(1)] pawn_passed_iff [OF mirror_valid [OF assms(1)]] ex_mirror [where P = "\<lambda>t. bit (pieces (mirror_board b) (color_opposite c) PAWN) (nat t) \<and> \<bar>SQ_COL t - SQ_COL (mirror s)\<bar> \<le> 1 \<and>
        (if c = WHITE then SQ_ROW (mirror s) < SQ_ROW t else SQ_ROW t < SQ_ROW (mirror s))"]
  using assms by (auto simp: bit_mirror_bb)

lemma rook_file_mirror [mirror_simps]:
  "SQ_VALID s \<Longrightarrow> rook_file_bonus (mirror_board b) c (mirror s) = rook_file_bonus b (color_opposite c) s"
  using SQ_COL_bounds [of s] by (simp add: rook_file_bonus_def Let_def file_mask_mirror mirror_bb_eq_0)

lemma BB_HAS_mirror_SQ: "on_board r c \<Longrightarrow> BB_HAS (mirror_bb v) (SQ (7 - r) c) \<longleftrightarrow> BB_HAS v (SQ r c)"
  using BB_HAS_mirror [of "SQ r c" v] mirror_SQ on_board_SQ(2) by simp

lemma flank_mirror:
  assumes "0 \<le> f \<and> f < 8"
  shows "0 \<le> 7 - p \<and> 7 - p < 8 \<and> (0 < f \<and> BB_HAS (mirror_bb v) (SQ (7 - p) (f - 1)) \<or> f < 7 \<and> BB_HAS (mirror_bb v) (SQ (7 - p) (f + 1))) \<longleftrightarrow>
    0 \<le> p \<and> p < 8 \<and> (0 < f \<and> BB_HAS v (SQ p (f - 1)) \<or> f < 7 \<and> BB_HAS v (SQ p (f + 1)))"
  using BB_HAS_mirror_SQ [of p "f - 1" v] BB_HAS_mirror_SQ [of p "f + 1" v] assms by (auto simp: on_board_def)

lemma pawn_shield_mirror [mirror_simps]:
  assumes "SQ_VALID s" "c \<in> {WHITE, BLACK}"
  shows "pawn_shield (mirror_board b) c (mirror s) = pawn_shield b (color_opposite c) s"
proof -
  let ?f = "if color_opposite c = WHITE then 1 else - 1 :: int"
  have fwd: "SQ_ROW (mirror s) + (if c = WHITE then 1 else - 1) = 7 - (SQ_ROW s + ?f)"
    using assms by auto
  have "(if nc < 0 \<or> nc > 7 \<or> 7 - nr < 0 \<or> 7 - nr > 7 then 0 else if BB_HAS (mirror_bb v) (SQ (7 - nr) nc) then 1 else 0) =
      (if nc < 0 \<or> nc > 7 \<or> nr < 0 \<or> nr > 7 then 0 else if BB_HAS v (SQ nr nc) then 1 else (0 :: int))" for nc nr v
    using BB_HAS_mirror_SQ [of nr nc v] by (auto simp: on_board_def)
  then show ?thesis
    unfolding pawn_shield_def Let_def fwd mirror_board_simps mirror_col [OF assms(1)] by (simp only:)
qed

lemma zone_attackers_mirror [mirror_simps]:
  "zone_attackers (mirror_board b) c (mirror_bb z) = zone_attackers b (color_opposite c) z"
  unfolding zone_attackers_def mirror_board_simps
  by (intro arg_cong2 [where f = "(+)"] if_cong refl bb_sum_mirrorI)
    (simp_all add: slider_mirror knight_attacks_mirror king_attacks_mirror mirror_bb_ops mirror_bb_eq_0)

definition one_king :: "Board \<Rightarrow> bool" where
  "one_king b \<longleftrightarrow> bb_popcount (pieces b WHITE KING) \<le> 1 \<and> bb_popcount (pieces b BLACK KING) \<le> 1"

lemma king_lsb_mirror:
  assumes "one_king b" "c \<in> {WHITE, BLACK}" "pieces b c KING \<noteq> 0"
  shows "bb_lsb (mirror_bb (pieces b c KING)) = mirror (bb_lsb (pieces b c KING))" "SQ_VALID (bb_lsb (pieces b c KING))"
  using assms bb_lsb_mirror [of "pieces b c KING"] bb_lsb_bit [of "pieces b c KING"] by (auto simp: one_king_def)

lemma king_safety_mirror:
  assumes "one_king b" "ctx_mirror ctx ctx'" "c \<in> {WHITE, BLACK}"
  shows "king_safety (mirror_board b) ctx' c = king_safety b ctx (color_opposite c)"
proof (cases "pieces b (color_opposite c) KING = 0")
  case True
  then show ?thesis by (simp add: king_safety_def BB_EMPTY_def mirror_bb_eq_0)
next
  case False
  have "color_opposite c \<in> {WHITE, BLACK}" using assms(3) by auto
  note k = king_lsb_mirror [OF assms(1) this False]
  show ?thesis
    unfolding king_safety_def Let_def
    using False assms(3)
    by (simp add: BB_EMPTY_def mirror_bb_eq_0 heir_check_mirror k king_attacks_mirror mirror_bb_SQ mirror_bb_ops
        bb_popcount_mirror pawn_shield_mirror zone_attackers_mirror ctx_mirrorD(1) [OF assms(2)])
qed

lemma merc_exposed_mirror:
  assumes "ctx_mirror ctx ctx'" "c \<in> {WHITE, BLACK}"
  shows "merc_exposed (mirror_board b) ctx' c = merc_exposed b ctx (color_opposite c)"
proof -
  have "ctx_pawn_atk ctx' (color_opposite c) = mirror_bb (ctx_pawn_atk ctx c)"
    using ctx_mirrorD(7) [OF assms(1), of "color_opposite c"] assms(2) by auto
  then show ?thesis
    unfolding merc_exposed_def mirror_board_simps
    by (simp add: mirror_bb_ops) (rule bb_sum_mirrorI, simp add: piece_at_mirror)
qed

lemma pawn_threats_mirror:
  assumes "ctx_mirror ctx ctx'" "c \<in> {WHITE, BLACK}"
  shows "pawn_threats (mirror_board b) ctx' c = pawn_threats b ctx (color_opposite c)"
  unfolding pawn_threats_def Let_def mirror_board_simps ctx_mirrorD(7) [OF assms] color_opposite_opposite mirror_bb_ops
  by (rule bb_sum_mirrorI) (simp add: piece_at_mirror)

lemma pov_opposite [simp]: "c \<in> {WHITE, BLACK} \<Longrightarrow> pov (color_opposite c) x = - pov c x"
  by (auto simp: pov_def)

lemma both_sides_sum_mirrorI:
  assumes "\<And>c s. c \<in> {WHITE, BLACK} \<Longrightarrow> SQ_VALID s \<Longrightarrow> f c (mirror s) = g (color_opposite c) s"
  shows "both_sides (\<lambda>c. bb_sum (f c) (pieces (mirror_board b) c t)) = - both_sides (\<lambda>c. bb_sum (g c) (pieces b c t))"
  unfolding mirror_board_simps by (intro both_sides_mirrorI bb_sum_mirrorI assms)

lemma passed_score_mirror:
  assumes "ctx_mirror ctx ctx'" "c \<in> {WHITE, BLACK}" "SQ_VALID s"
  shows "passed_score (mirror_board b) ctx' c (mirror s) = passed_score b ctx (color_opposite c) s"
  using assms(2,3)
  by (simp add: passed_score_def Let_def pawn_passed_mirror rel_row_mirror ctx_mirrorD(1,2) [OF assms(1)])

lemma eval_common_finish_mirror:
  assumes "one_king b" "ctx_mirror ctx ctx'" "side b \<in> {WHITE, BLACK}"
  shows "eval_common_finish (mirror_board b) ctx' = - eval_common_finish b ctx"
proof -
  have 1: "sum_list (map (pawn_structure (mirror_board b)) [0..7]) = - sum_list (map (pawn_structure b) [0..7])"
  proof -
    have "map (pawn_structure (mirror_board b)) [0..7] = map (\<lambda>x. - pawn_structure b x) [0..7]"
      by (rule map_cong) (auto simp: pawn_structure_mirror)
    then show ?thesis by (simp only: uminus_sum_list_map comp_def)
  qed
  have 2: "both_sides (\<lambda>c. bb_sum (passed_score (mirror_board b) ctx' c) (pieces (mirror_board b) c PAWN)) =
      - both_sides (\<lambda>c. bb_sum (passed_score b ctx c) (pieces b c PAWN))"
    by (rule both_sides_sum_mirrorI) (rule passed_score_mirror [OF assms(2)])
  have 3: "both_sides (\<lambda>c. bb_sum (rook_file_bonus (mirror_board b) c) (pieces (mirror_board b) c ROOK)) =
      - both_sides (\<lambda>c. bb_sum (rook_file_bonus b c) (pieces b c ROOK))"
    by (rule both_sides_sum_mirrorI) (rule rook_file_mirror)
  have 4: "both_sides (king_safety (mirror_board b) ctx') = - both_sides (king_safety b ctx)"
    by (rule both_sides_mirrorI) (rule king_safety_mirror [OF assms(1,2)])
  have 5: "both_sides (merc_exposed (mirror_board b) ctx') = - both_sides (merc_exposed b ctx)"
    by (rule both_sides_mirrorI) (rule merc_exposed_mirror [OF assms(2)])
  have 6: "both_sides (pawn_threats (mirror_board b) ctx') = - both_sides (pawn_threats b ctx)"
    by (rule both_sides_mirrorI) (rule pawn_threats_mirror [OF assms(2)])
  show ?thesis
    unfolding eval_common_finish_def 1 2 3 4 5 6 mirror_board_simps(4,5) ctx_mirrorD(1) [OF assms(2)] pov_opposite [OF assms(3)]
    by simp
qed

text \<open>The king and queen squares of the context, for a side with at most one of them.\<close>

lemma ctx_squares:
  assumes "c \<in> {WHITE, BLACK}"
  shows "bb_popcount (pieces b c KING) \<le> 1 \<Longrightarrow>
      ctx_king_sq (eval_common_init b) c = (if pieces b c KING = 0 then -1 else bb_lsb (pieces b c KING))"
    "bb_popcount (pieces b c QUEEN) \<le> 1 \<Longrightarrow>
      ctx_queen_sq (eval_common_init b) c = (if pieces b c QUEEN = 0 then -1 else bb_lsb (pieces b c QUEEN))"
proof -
  have last: "last (bb_squares v) = bb_lsb v" if "bb_popcount v \<le> 1" "v \<noteq> 0" for v
  proof -
    have "bb_squares v \<noteq> []" using that(2) bb_popcount_eq_0 [of v] bb_popcount_length [of v] by simp
    then have "last (bb_squares v) \<in> set (bb_squares v)" by simp
    then show ?thesis using popcount_1_unique [OF that(1)] bb_lsb_bit [OF that(2)] by (simp add: set_bb_squares)
  qed
  show "bb_popcount (pieces b c KING) \<le> 1 \<Longrightarrow>
      ctx_king_sq (eval_common_init b) c = (if pieces b c KING = 0 then -1 else bb_lsb (pieces b c KING))"
    "bb_popcount (pieces b c QUEEN) \<le> 1 \<Longrightarrow>
      ctx_queen_sq (eval_common_init b) c = (if pieces b c QUEEN = 0 then -1 else bb_lsb (pieces b c QUEEN))"
    using init_scan_sums(7,8) [OF assms, of b "pawn_attack_map b"] last
    by (auto simp: eval_common_init_def Let_def)
qed

end
