(* ===== verification/EvalMercenary.thy ===== *)
theory EvalMercenary
  imports EvalCommon
begin

text \<open>
  The Mercenary terms, \<open>eval/eval_mercenary.c\<close>: pawn count, proximity to the enemy king, clusters,
  space and development, and in the endgame the routes of king and queen towards the enemy king.
\<close>

section \<open>Helpers\<close>

definition merc_lane_pressure_sq :: "int \<Rightarrow> int \<Rightarrow> int" where
  "merc_lane_pressure_sq a b =
     (let file_gap = \<bar>SQ_COL a - SQ_COL b\<bar>; rank_gap = \<bar>SQ_ROW a - SQ_ROW b\<bar>;
          pressure = 0;
          pressure = (if file_gap = 0 then pressure + 4 else pressure);
          pressure = (if rank_gap = 0 then pressure + 4 else pressure);
          pressure = (if file_gap = rank_gap then pressure + 3 else pressure);
          pressure = (if file_gap \<le> 2 then pressure + (2 - file_gap) else pressure)
      in if rank_gap \<le> 2 then pressure + (2 - rank_gap) else pressure)"

definition merc_adjacent_pawn_shield :: "Board \<Rightarrow> Color \<Rightarrow> Square \<Rightarrow> int" where
  "merc_adjacent_pawn_shield b c king = bb_popcount (pieces b c PAWN AND king_attacks king)"

text \<open>The material lead, clamped to 0..700.\<close>

definition merc_pressure :: "int \<Rightarrow> int" where
  "merc_pressure lead =
     (let pressure = (if lead > 0 then lead else 0) in if pressure > 700 then 700 else pressure)"

definition merc_king_route_bonus :: "Square \<Rightarrow> Square \<Rightarrow> int \<Rightarrow> int \<Rightarrow> int" where
  "merc_king_route_bonus king enemy_king eg_weight lead =
     (let file_gap = \<bar>SQ_COL king - SQ_COL enemy_king\<bar>;
          file_alignment = (if 4 - file_gap < 0 then 0 else 4 - file_gap);
          lane_pressure = merc_lane_pressure_sq king enemy_king;
          king_center = 6 - distance_from_center_sq king;
          king_center = (if king_center < 0 then 0 else king_center);
          pressure = merc_pressure lead;
          bonus = file_alignment * (10 + cdiv eg_weight 6);
          bonus = bonus + king_center * (4 + cdiv eg_weight 24);
          bonus = bonus + lane_pressure * (5 + cdiv eg_weight 24)
      in bonus + cdiv (file_alignment * pressure) 80)"

definition queen_approach :: "Square \<Rightarrow> Square \<Rightarrow> int" where
  "queen_approach queen king =
     (let a = 7 - chebyshev_distance_sq queen king in if a < 0 then 0 else a)"

definition queen_ring_hits :: "Board \<Rightarrow> Square \<Rightarrow> Square \<Rightarrow> int" where
  "queen_ring_hits b queen king =
     (let attack_ring = king_attacks king OR BB_SQ king;
          q_attacks = bishop_attacks_calc queen (all_bb b) OR rook_attacks_calc queen (all_bb b)
      in bb_popcount (q_attacks AND attack_ring))"

definition merc_queen_infiltration_bonus :: "Board \<Rightarrow> Color \<Rightarrow> Square \<Rightarrow> Square \<Rightarrow> int \<Rightarrow> int \<Rightarrow> int" where
  "merc_queen_infiltration_bonus b c queen enemy_king eg_weight lead =
     (let approach = queen_approach queen enemy_king;
          lane_pressure = merc_lane_pressure_sq queen enemy_king;
          ring_hits = queen_ring_hits b queen enemy_king;
          pressure = merc_pressure lead;
          bonus = approach * (8 + cdiv eg_weight 16);
          bonus = bonus + lane_pressure * (10 + cdiv eg_weight 24);
          bonus = bonus + ring_hits * (16 + cdiv eg_weight 32)
      in bonus + cdiv (approach * pressure) 60)"

definition merc_king_queen_coordination_bonus :: "Square \<Rightarrow> Square \<Rightarrow> Square \<Rightarrow> int \<Rightarrow> int \<Rightarrow> int" where
  "merc_king_queen_coordination_bonus king queen enemy_king eg_weight lead =
     (let king_to_queen = chebyshev_distance_sq king queen;
          king_to_enemy = chebyshev_distance_sq king enemy_king;
          queen_to_enemy = chebyshev_distance_sq queen enemy_king;
          pressure = merc_pressure lead;
          escort = 0;
          escort = (if king_to_queen \<le> 4 then escort + (5 - king_to_queen) * (6 + cdiv eg_weight 32) else escort);
          escort = (if king_to_enemy \<le> 4 \<and> queen_to_enemy \<le> 4
                    then escort + (9 - king_to_enemy - queen_to_enemy) * (6 + cdiv eg_weight 28) else escort);
          escort = (if king_to_queen \<le> 4 \<or> king_to_enemy \<le> 4
                    then escort + merc_lane_pressure_sq queen enemy_king * (4 + cdiv eg_weight 32) else escort)
      in if pressure > 0 \<and> escort > 0 then escort + cdiv (escort * pressure) 320 else escort)"

definition merc_enemy_queen_infiltration_penalty :: "Board \<Rightarrow> Square \<Rightarrow> Square \<Rightarrow> int \<Rightarrow> int \<Rightarrow> int" where
  "merc_enemy_queen_infiltration_penalty b king enemy_queen eg_weight shield =
     (let approach = queen_approach enemy_queen king;
          lane_pressure = merc_lane_pressure_sq enemy_queen king;
          ring_hits = queen_ring_hits b enemy_queen king;
          shelter_crack = (if 3 - shield < 0 then 0 else 3 - shield);
          penalty = approach * (8 + cdiv eg_weight 20);
          penalty = penalty + lane_pressure * (10 + cdiv eg_weight 24);
          penalty = penalty + ring_hits * (18 + cdiv eg_weight 24)
      in penalty + shelter_crack * (12 + cdiv eg_weight 20))"


section \<open>Terms of the evaluation\<close>

definition PROX_MG :: "int list" where
  "PROX_MG = [0, 10, 5, 2]"

definition PROX_EG :: "int list" where
  "PROX_EG = [0, 16, 8, 3]"

definition merc_proximity :: "Board \<Rightarrow> EvalContext \<Rightarrow> Color \<Rightarrow> int" where
  "merc_proximity b ctx c =
     (let kbb = pieces b (color_opposite c) KING in
      if kbb = BB_EMPTY then 0
      else let ksq = bb_lsb kbb in
        bb_sum (\<lambda>sq. let dr = \<bar>SQ_ROW sq - SQ_ROW ksq\<bar>; dc = \<bar>SQ_COL sq - SQ_COL ksq\<bar>;
                        dist = (if dr > dc then dr else dc) in
            if dist \<le> 3 then PROX_MG ! nat dist + cdiv (PROX_EG ! nat dist * ctx_eg_weight ctx) 128 else 0)
          (pieces b c PAWN))"

definition merc_connectivity :: "Board \<Rightarrow> Color \<Rightarrow> int" where
  "merc_connectivity b c =
     (let pawns = pieces b c PAWN;
          connected = bb_sum (\<lambda>sq. let neighbors = king_attacks sq AND pawns in
            if neighbors \<noteq> 0 then bb_popcount neighbors else 0) pawns;
          isolated = bb_count (\<lambda>sq. king_attacks sq AND pawns = 0) pawns
      in connected * 6 - isolated * 12)"

definition merc_space :: "Board \<Rightarrow> int" where
  "merc_space b =
     (let w_space = bb_count (\<lambda>sq. SQ_ROW sq \<ge> 4) (pieces b WHITE PAWN);
          b_space = bb_count (\<lambda>sq. SQ_ROW sq \<le> 3) (pieces b BLACK PAWN)
      in (w_space - b_space) * 10)"

definition developed_minors :: "Board \<Rightarrow> Color \<Rightarrow> int" where
  "developed_minors b c =
     (let back_rank = (if c = WHITE then 0 else 7) in
      bb_count (\<lambda>sq. SQ_ROW sq \<noteq> back_rank) (pieces b c KNIGHT OR pieces b c BISHOP))"

definition merc_king_shield :: "Board \<Rightarrow> EvalContext \<Rightarrow> Color \<Rightarrow> int" where
  "merc_king_shield b ctx c =
     (if ctx_king_sq ctx c < 0 then 0
      else let shield = bb_popcount (king_attacks (ctx_king_sq ctx c) AND pieces b c PAWN)
           in shield * (6 + cdiv (ctx_mg_weight ctx) 24))"

definition merc_simplify :: "EvalContext \<Rightarrow> Color \<Rightarrow> int \<Rightarrow> int" where
  "merc_simplify ctx c lead =
     (let opp = color_opposite c; eg_weight = ctx_eg_weight ctx in
      if lead > 0 then
        let lead = (if lead > 700 then 700 else lead);
            simplify_budget = 2400 - ctx_non_pawn_material ctx opp;
            simplify_budget = (if simplify_budget < 0 then 0 else simplify_budget);
            cleanup_window = 1600 - ctx_non_pawn_material ctx opp;
            cleanup_window = (if cleanup_window < 0 then 0 else cleanup_window);
            king_dist = chebyshev_distance_sq (ctx_king_sq ctx c) (ctx_king_sq ctx opp);
            edge_dist = distance_from_center_sq (ctx_king_sq ctx opp);
            simplify = cdiv (simplify_budget * lead * eg_weight) 1310720;
            cleanup = cdiv (cleanup_window * lead * eg_weight) 983040;
            king_approach = cdiv ((8 - king_dist) * lead * eg_weight) 30720;
            king_drive = cdiv (edge_dist * lead * eg_weight) 51200
        in simplify + cleanup + king_approach + king_drive
      else 0)"

definition merc_endgame :: "Board \<Rightarrow> EvalContext \<Rightarrow> Color \<Rightarrow> int" where
  "merc_endgame b ctx c =
     (let opp = color_opposite c; eg_weight = ctx_eg_weight ctx;
          k = ctx_king_sq ctx c; ek = ctx_king_sq ctx opp; q = ctx_queen_sq ctx c; eq = ctx_queen_sq ctx opp in
      if k < 0 \<or> ek < 0 then 0
      else
        let lead = ctx_material ctx c - ctx_material ctx opp;
            bonus = merc_king_route_bonus k ek eg_weight lead;
            bonus = (if q \<ge> 0 then bonus + merc_queen_infiltration_bonus b c q ek eg_weight lead +
                       merc_king_queen_coordination_bonus k q ek eg_weight lead else bonus);
            bonus = (if eq \<ge> 0 then bonus - merc_enemy_queen_infiltration_penalty b k eq eg_weight
                       (merc_adjacent_pawn_shield b c k) else bonus)
        in bonus + merc_simplify ctx c lead)"

definition eval_mercenary :: "Board \<Rightarrow> EvalContext \<Rightarrow> int" where
  "eval_mercenary b ctx =
     (ctx_pawn_count ctx WHITE - ctx_pawn_count ctx BLACK) * 25 +
     both_sides (merc_proximity b ctx) +
     both_sides (merc_connectivity b) +
     merc_space b +
     both_sides (\<lambda>c. developed_minors b c * 8) +
     (if ctx_mg_weight ctx > 0 then both_sides (merc_king_shield b ctx) else 0) +
     (if ctx_eg_weight ctx \<ge> 48 then both_sides (merc_endgame b ctx) else 0) +
     pov (side b) 15"


section \<open>Exchanging the colours\<close>

text \<open>The squares of kings and queens in the contexts of mirrored positions.\<close>

definition squares_mirror :: "(EvalContext \<Rightarrow> Color \<Rightarrow> int) \<Rightarrow> EvalContext \<Rightarrow> EvalContext \<Rightarrow> bool" where
  "squares_mirror f ctx ctx' \<longleftrightarrow>
     (\<forall>c \<in> {WHITE, BLACK}. f ctx c < 0 \<and> f ctx' (color_opposite c) < 0 \<or>
        SQ_VALID (f ctx c) \<and> f ctx' (color_opposite c) = mirror (f ctx c))"

lemma squares_mirror_cases:
  assumes "squares_mirror f ctx ctx'" "c \<in> {WHITE, BLACK}"
  obtains "f ctx (color_opposite c) < 0" "f ctx' c < 0"
  | "SQ_VALID (f ctx (color_opposite c))" "f ctx' c = mirror (f ctx (color_opposite c))"
  using assms unfolding squares_mirror_def by (cases c) auto

lemma valid_nonneg: "SQ_VALID s \<Longrightarrow> \<not> s < 0" "SQ_VALID s \<Longrightarrow> 0 \<le> s"
  by (auto simp: SQ_VALID_def)

lemma init_squares_mirror:
  assumes "one_king b"
  shows "squares_mirror ctx_king_sq (eval_common_init b) (eval_common_init (mirror_board b))"
    "bb_popcount (pieces b WHITE QUEEN) \<le> 1 \<Longrightarrow> bb_popcount (pieces b BLACK QUEEN) \<le> 1 \<Longrightarrow>
       squares_mirror ctx_queen_sq (eval_common_init b) (eval_common_init (mirror_board b))"
  using assms bb_lsb_bit [of "pieces b WHITE KING"] bb_lsb_bit [of "pieces b BLACK KING"]
    bb_lsb_bit [of "pieces b WHITE QUEEN"] bb_lsb_bit [of "pieces b BLACK QUEEN"]
  by (auto simp: squares_mirror_def one_king_def ctx_squares bb_popcount_mirror mirror_bb_eq_0 bb_lsb_mirror)

lemma lane_pressure_mirror [mirror_simps]:
  "SQ_VALID a \<Longrightarrow> SQ_VALID b \<Longrightarrow> merc_lane_pressure_sq (mirror a) (mirror b) = merc_lane_pressure_sq a b"
  by (simp add: merc_lane_pressure_sq_def abs_minus_commute)

lemma route_mirror [mirror_simps]:
  "SQ_VALID a \<Longrightarrow> SQ_VALID b \<Longrightarrow> merc_king_route_bonus (mirror a) (mirror b) e l = merc_king_route_bonus a b e l"
  by (simp add: merc_king_route_bonus_def lane_pressure_mirror distance_from_center_mirror)

lemma ring_hits_mirror [mirror_simps]:
  "SQ_VALID a \<Longrightarrow> SQ_VALID k \<Longrightarrow> queen_ring_hits (mirror_board b) (mirror a) (mirror k) = queen_ring_hits b a k"
  by (simp add: queen_ring_hits_def slider_mirror king_attacks_mirror mirror_bb_SQ mirror_bb_ops bb_popcount_mirror)

lemma queen_approach_mirror [mirror_simps]:
  "SQ_VALID a \<Longrightarrow> SQ_VALID k \<Longrightarrow> queen_approach (mirror a) (mirror k) = queen_approach a k"
  by (simp add: queen_approach_def chebyshev_mirror)

lemma infiltration_mirror [mirror_simps]:
  assumes "SQ_VALID a" "SQ_VALID k"
  shows "merc_queen_infiltration_bonus (mirror_board b) c (mirror a) (mirror k) e l =
      merc_queen_infiltration_bonus b (color_opposite c) a k e l"
    "merc_enemy_queen_infiltration_penalty (mirror_board b) (mirror k) (mirror a) e sh =
      merc_enemy_queen_infiltration_penalty b k a e sh"
  using assms
  by (simp_all add: merc_queen_infiltration_bonus_def merc_enemy_queen_infiltration_penalty_def
      queen_approach_mirror lane_pressure_mirror ring_hits_mirror)

lemma coordination_mirror [mirror_simps]:
  "SQ_VALID k \<Longrightarrow> SQ_VALID q \<Longrightarrow> SQ_VALID e \<Longrightarrow>
     merc_king_queen_coordination_bonus (mirror k) (mirror q) (mirror e) w l = merc_king_queen_coordination_bonus k q e w l"
  by (simp only: merc_king_queen_coordination_bonus_def chebyshev_mirror lane_pressure_mirror)

lemma adjacent_shield_mirror [mirror_simps]:
  "SQ_VALID k \<Longrightarrow> merc_adjacent_pawn_shield (mirror_board b) c (mirror k) = merc_adjacent_pawn_shield b (color_opposite c) k"
  by (simp add: merc_adjacent_pawn_shield_def king_attacks_mirror mirror_bb_ops bb_popcount_mirror)

lemma merc_proximity_mirror:
  assumes "one_king b" "ctx_mirror ctx ctx'" "c \<in> {WHITE, BLACK}"
  shows "merc_proximity (mirror_board b) ctx' c = merc_proximity b ctx (color_opposite c)"
proof (cases "pieces b c KING = 0")
  case True
  then show ?thesis by (simp add: merc_proximity_def BB_EMPTY_def mirror_bb_eq_0)
next
  case False
  note k = king_lsb_mirror [OF assms(1,3) False]
  show ?thesis
    unfolding merc_proximity_def mirror_board_simps color_opposite_opposite Let_def k(1) BB_EMPTY_def mirror_bb_eq_0
      ctx_mirrorD(2) [OF assms(2)]
      chebyshev_inline
    by (intro if_cong refl bb_sum_mirrorI) (simp_all add: k(2) chebyshev_mirror)
qed

lemma merc_connectivity_mirror:
  "merc_connectivity (mirror_board b) c = merc_connectivity b (color_opposite c)"
proof -
  let ?p = "pieces b (color_opposite c) PAWN"
  have "bb_sum (\<lambda>sq. if king_attacks sq AND mirror_bb ?p \<noteq> 0 then bb_popcount (king_attacks sq AND mirror_bb ?p) else 0) (mirror_bb ?p) =
      bb_sum (\<lambda>sq. if king_attacks sq AND ?p \<noteq> 0 then bb_popcount (king_attacks sq AND ?p) else 0) ?p"
    by (rule bb_sum_mirrorI) (simp add: king_attacks_mirror mirror_bb_ops mirror_bb_eq_0 bb_popcount_mirror)
  moreover have "bb_count (\<lambda>sq. king_attacks sq AND mirror_bb ?p = 0) (mirror_bb ?p) = bb_count (\<lambda>sq. king_attacks sq AND ?p = 0) ?p"
    by (rule bb_count_mirrorI) (simp add: king_attacks_mirror mirror_bb_ops mirror_bb_eq_0)
  ultimately show ?thesis by (simp add: merc_connectivity_def Let_def)
qed

lemma merc_space_mirror: "merc_space (mirror_board b) = - merc_space b"
proof -
  have "bb_count (\<lambda>sq. SQ_ROW sq \<ge> 4) (mirror_bb v) = bb_count (\<lambda>sq. SQ_ROW sq \<le> 3) v"
    "bb_count (\<lambda>sq. SQ_ROW sq \<le> 3) (mirror_bb v) = bb_count (\<lambda>sq. SQ_ROW sq \<ge> 4) v" for v
    by (rule bb_count_mirrorI; auto)+
  then show ?thesis by (simp add: merc_space_def)
qed

lemma developed_minors_mirror [mirror_simps]:
  "c \<in> {WHITE, BLACK} \<Longrightarrow> developed_minors (mirror_board b) c = developed_minors b (color_opposite c)"
  unfolding developed_minors_def Let_def mirror_board_simps mirror_bb_ops by (rule bb_count_mirrorI) auto

lemma merc_king_shield_mirror:
  assumes "squares_mirror ctx_king_sq ctx ctx'" "ctx_mirror ctx ctx'" "c \<in> {WHITE, BLACK}"
  shows "merc_king_shield (mirror_board b) ctx' c = merc_king_shield b ctx (color_opposite c)"
  using assms(1,3)
  by (cases rule: squares_mirror_cases)
    (simp_all add: merc_king_shield_def ctx_mirrorD(1) [OF assms(2)] valid_nonneg king_attacks_mirror mirror_bb_ops bb_popcount_mirror)

lemma merc_simplify_mirror:
  assumes "ctx_mirror ctx ctx'" "c \<in> {WHITE, BLACK}"
    "SQ_VALID (ctx_king_sq ctx c)" "SQ_VALID (ctx_king_sq ctx (color_opposite c))"
    "ctx_king_sq ctx' c = mirror (ctx_king_sq ctx (color_opposite c))"
    "ctx_king_sq ctx' (color_opposite c) = mirror (ctx_king_sq ctx c)"
  shows "merc_simplify ctx' c lead = merc_simplify ctx (color_opposite c) lead"
proof -
  have "ctx_non_pawn_material ctx' (color_opposite c) = ctx_non_pawn_material ctx c"
    using ctx_mirrorD(4) [OF assms(1), of "color_opposite c"] assms(2) by auto
  note eqs = this assms(5,6) ctx_mirrorD(2) [OF assms(1)] chebyshev_mirror [OF assms(4,3)] distance_from_center_mirror [OF assms(3)]
  show ?thesis unfolding merc_simplify_def Let_def eqs color_opposite_opposite by (rule refl)
qed

lemma merc_endgame_mirror:
  assumes "squares_mirror ctx_king_sq ctx ctx'" "squares_mirror ctx_queen_sq ctx ctx'" "ctx_mirror ctx ctx'" "c \<in> {WHITE, BLACK}"
  shows "merc_endgame (mirror_board b) ctx' c = merc_endgame b ctx (color_opposite c)"
proof -
  have c': "color_opposite c \<in> {WHITE, BLACK}" using assms(4) by auto
  have mat: "ctx_material ctx' (color_opposite c) = ctx_material ctx c" "ctx_material ctx' c = ctx_material ctx (color_opposite c)"
    using ctx_mirrorD(3) [OF assms(3) c'] ctx_mirrorD(3) [OF assms(3,4)] by simp_all
  note sq = squares_mirror_cases [OF assms(1) assms(4)] squares_mirror_cases [OF assms(1) c', unfolded color_opposite_opposite]
  note qs = squares_mirror_cases [OF assms(2) assms(4)] squares_mirror_cases [OF assms(2) c', unfolded color_opposite_opposite]
  show ?thesis
  proof (cases "ctx_king_sq ctx c < 0 \<or> ctx_king_sq ctx (color_opposite c) < 0")
    case True
    then show ?thesis using sq unfolding merc_endgame_def Let_def by (metis color_opposite_opposite valid_nonneg(1))
  next
    case False
    then have k: "SQ_VALID (ctx_king_sq ctx c)" "SQ_VALID (ctx_king_sq ctx (color_opposite c))"
        "ctx_king_sq ctx' c = mirror (ctx_king_sq ctx (color_opposite c))"
        "ctx_king_sq ctx' (color_opposite c) = mirror (ctx_king_sq ctx c)"
      using sq by metis+
    note kk = k(1,2) [THEN mirror_valid, THEN valid_nonneg(1)]
    note simps = merc_endgame_def Let_def mat k kk valid_nonneg ctx_mirrorD(2) [OF assms(3)] route_mirror infiltration_mirror
      coordination_mirror adjacent_shield_mirror merc_simplify_mirror [OF assms(3,4) k]
    show ?thesis
      by (rule qs(1); rule qs(2)) (simp_all add: simps)
  qed
qed

lemma eval_mercenary_mirror:
  assumes "one_king b" "ctx_mirror ctx ctx'" "squares_mirror ctx_king_sq ctx ctx'" "squares_mirror ctx_queen_sq ctx ctx'"
    "side b \<in> {WHITE, BLACK}"
  shows "eval_mercenary (mirror_board b) ctx' = - eval_mercenary b ctx"
proof -
  have neg: "both_sides (merc_proximity (mirror_board b) ctx') = - both_sides (merc_proximity b ctx)"
    "both_sides (merc_connectivity (mirror_board b)) = - both_sides (merc_connectivity b)"
    "both_sides (merc_king_shield (mirror_board b) ctx') = - both_sides (merc_king_shield b ctx)"
    "both_sides (merc_endgame (mirror_board b) ctx') = - both_sides (merc_endgame b ctx)"
    by (rule both_sides_mirrorI; rule merc_proximity_mirror [OF assms(1,2)] merc_connectivity_mirror
        merc_king_shield_mirror [OF assms(3,2)] merc_endgame_mirror [OF assms(3,4,2)]; assumption)+
  have "both_sides (\<lambda>c. developed_minors (mirror_board b) c * 8) = - both_sides (\<lambda>c. developed_minors b c * 8)"
    by (rule both_sides_mirrorI) (simp add: developed_minors_mirror)
  then show ?thesis
    unfolding eval_mercenary_def neg merc_space_mirror mirror_board_simps(4) pov_opposite [OF assms(5)]
      ctx_mirrorD(1,2) [OF assms(2)]
    using ctx_mirrorD(5) [OF assms(2), of WHITE] ctx_mirrorD(5) [OF assms(2), of BLACK] by simp
qed

end
