(* ===== verification/EvalFriendlyFire.thy ===== *)
theory EvalFriendlyFire
  imports EvalCommon
begin

text \<open>
  The Friendly Fire terms, \<open>eval/eval_friendly_fire.c\<close>: piece count, cohesion, vulnerability of
  attacked pieces, files that a self-capture can open, and the shelter of the king.
\<close>

section \<open>Terms of the evaluation\<close>

text \<open>The squares that pawns, knights and sliders of one side cover.\<close>

definition cover_map :: "Board \<Rightarrow> EvalContext \<Rightarrow> Color \<Rightarrow> Bitboard" where
  "cover_map b ctx c =
     ctx_pawn_atk ctx c OR
     bb_union knight_attacks (pieces b c KNIGHT) OR
     bb_union (\<lambda>s. bishop_attacks_calc s (all_bb b)) (pieces b c BISHOP OR pieces b c QUEEN) OR
     bb_union (\<lambda>s. rook_attacks_calc s (all_bb b)) (pieces b c ROOK OR pieces b c QUEEN)"

definition FF_VULN_PENALTY :: "int list" where
  "FF_VULN_PENALTY = [0, 48, 46, 64, 96, 0]"

definition FF_VULN_DEFENDED :: "int list" where
  "FF_VULN_DEFENDED = [0, 18, 18, 26, 42, 0]"

definition ff_vulnerability :: "Board \<Rightarrow> EvalContext \<Rightarrow> Color \<Rightarrow> Bitboard \<Rightarrow> PieceType \<Rightarrow> Square \<Rightarrow> int" where
  "ff_vulnerability b ctx c own_def t sq =
     (let opp = color_opposite c;
          attacked = board_square_attacked b sq opp;
          defended = BB_HAS own_def sq;
          pawn_attacked = BB_HAS (ctx_pawn_atk ctx opp) sq
      in if \<not> attacked then 0
         else
           let pen = (if defended then FF_VULN_DEFENDED ! type_val t else FF_VULN_PENALTY ! type_val t);
               pen = (if pawn_attacked \<and> t \<le> BISHOP then pen + 18 else pen)
           in if t \<le> BISHOP then
                let advance = (if c = WHITE then SQ_ROW sq else 7 - SQ_ROW sq);
                    central = (SQ_COL sq \<ge> 2 \<and> SQ_COL sq \<le> 5);
                    pen = (if \<not> defended \<and> advance \<ge> 3 then pen + 10 + (advance - 3) * 10 else pen)
                in if central \<and> advance \<ge> 3 then pen + 8 else pen
              else pen)"

definition ff_open_lines :: "Board \<Rightarrow> Color \<Rightarrow> int" where
  "ff_open_lines b c =
     bb_sum (\<lambda>sq. let blockers = pieces b c PAWN AND file_bb (SQ_COL sq) AND ff_moved b in
         if blockers \<noteq> 0 then 5 else 0)
       (pieces b c ROOK OR pieces b c QUEEN)"

definition ff_king_shelter :: "Board \<Rightarrow> Color \<Rightarrow> int" where
  "ff_king_shelter b c =
     (let kbb = pieces b c KING in
      if kbb \<noteq> 0 then
        let ksq = bb_lsb kbb; kc = SQ_COL ksq in
        pawn_shield b c ksq * 8 - (if kc \<ge> 3 \<and> kc \<le> 4 then 10 else 0)
      else 0)"

definition ff_side :: "Board \<Rightarrow> EvalContext \<Rightarrow> Color \<Rightarrow> int" where
  "ff_side b ctx c =
     (let piece_count = sum_list (map (\<lambda>t. bb_popcount (pieces b c t)) officers);
          own_def = cover_map b ctx c
      in piece_count * 8 +
         sum_list (map (\<lambda>t. bb_sum (\<lambda>sq. if BB_HAS own_def sq then 6 else 0) (pieces b c t)) officers) -
         sum_list (map (\<lambda>t. bb_sum (ff_vulnerability b ctx c own_def t) (pieces b c t)) officers) +
         ff_open_lines b c + ff_king_shelter b c)"

definition eval_friendly_fire :: "Board \<Rightarrow> EvalContext \<Rightarrow> int" where
  "eval_friendly_fire b ctx = both_sides (ff_side b ctx) + pov (side b) 10"


section \<open>Exchanging the colours\<close>

lemma cover_map_mirror:
  assumes "ctx_mirror ctx ctx'" "c \<in> {WHITE, BLACK}"
  shows "cover_map (mirror_board b) ctx' c = mirror_bb (cover_map b ctx (color_opposite c))"
  unfolding cover_map_def ctx_mirrorD(7) [OF assms] mirror_board_simps
  by (simp add: mirror_bb_ops bb_union_mirrorI knight_attacks_mirror slider_mirror)

lemma officer_sum_mirror:
  assumes "\<And>t s. SQ_VALID s \<Longrightarrow> f t (mirror s) = g t s"
  shows "sum_list (map (\<lambda>t. bb_sum (f t) (pieces (mirror_board b) c t)) officers) =
    sum_list (map (\<lambda>t. bb_sum (g t) (pieces b (color_opposite c) t)) officers)"
  unfolding mirror_board_simps by (intro arg_cong [of _ _ sum_list] map_cong refl bb_sum_mirrorI assms)

lemma ff_vulnerability_mirror:
  assumes "ctx_mirror ctx ctx'" "c \<in> {WHITE, BLACK}" "SQ_VALID s"
  shows "ff_vulnerability (mirror_board b) ctx' c (mirror_bb d) t (mirror s) = ff_vulnerability b ctx (color_opposite c) d t s"
proof -
  have c': "color_opposite c \<in> {WHITE, BLACK}" using assms(2) by auto
  have row: "(if c = WHITE then SQ_ROW (mirror s) else 7 - SQ_ROW (mirror s)) =
      (if color_opposite c = WHITE then SQ_ROW s else 7 - SQ_ROW s)" using assms(2,3) by auto
  show ?thesis
    unfolding ff_vulnerability_def Let_def row board_square_attacked_mirror [OF assms(3) c'] BB_HAS_mirror [OF assms(3)]
      ctx_mirrorD(7) [OF assms(1) c'] mirror_col [OF assms(3)] color_opposite_opposite by (rule refl)
qed

lemma ff_open_lines_mirror: "ff_open_lines (mirror_board b) c = ff_open_lines b (color_opposite c)"
proof -
  have "file_bb (SQ_COL s) AND mirror_bb w = mirror_bb (file_bb (SQ_COL s) AND w)" for w s
    using file_mask_mirror(1) [of "SQ_COL s" w] SQ_COL_bounds [of s] by (simp add: and.commute)
  then have "mirror_bb v AND file_bb (SQ_COL s) AND mirror_bb w = mirror_bb (v AND file_bb (SQ_COL s) AND w)" for v w s
    by (simp add: mirror_bb_ops)
  then show ?thesis
    unfolding ff_open_lines_def Let_def mirror_board_simps mirror_bb_ops(2)
    by (intro bb_sum_mirrorI) (simp add: mirror_bb_eq_0)
qed

lemma ff_king_shelter_mirror:
  assumes "one_king b" "c \<in> {WHITE, BLACK}"
  shows "ff_king_shelter (mirror_board b) c = ff_king_shelter b (color_opposite c)"
proof (cases "pieces b (color_opposite c) KING = 0")
  case True
  then show ?thesis by (simp add: ff_king_shelter_def mirror_bb_eq_0)
next
  case False
  have "color_opposite c \<in> {WHITE, BLACK}" using assms(2) by auto
  note k = king_lsb_mirror [OF assms(1) this False]
  show ?thesis
    using assms(2) by (simp add: ff_king_shelter_def Let_def mirror_bb_eq_0 False k pawn_shield_mirror)
qed

lemma ff_side_mirror:
  assumes "one_king b" "ctx_mirror ctx ctx'" "c \<in> {WHITE, BLACK}"
  shows "ff_side (mirror_board b) ctx' c = ff_side b ctx (color_opposite c)"
proof -
  let ?d = "cover_map b ctx (color_opposite c)"
  have 1: "sum_list (map (\<lambda>t. bb_sum (\<lambda>sq. if BB_HAS (mirror_bb ?d) sq then 6 else 0) (pieces (mirror_board b) c t)) officers) =
      sum_list (map (\<lambda>t. bb_sum (\<lambda>sq. if BB_HAS ?d sq then 6 else 0) (pieces b (color_opposite c) t)) officers)"
    by (rule officer_sum_mirror) (simp add: BB_HAS_mirror)
  have 2: "sum_list (map (\<lambda>t. bb_sum (ff_vulnerability (mirror_board b) ctx' c (mirror_bb ?d) t) (pieces (mirror_board b) c t)) officers) =
      sum_list (map (\<lambda>t. bb_sum (ff_vulnerability b ctx (color_opposite c) ?d t) (pieces b (color_opposite c) t)) officers)"
    by (rule officer_sum_mirror) (rule ff_vulnerability_mirror [OF assms(2,3)])
  show ?thesis
    unfolding ff_side_def Let_def cover_map_mirror [OF assms(2,3)] 1 2 ff_open_lines_mirror ff_king_shelter_mirror [OF assms(1,3)]
    by (simp add: bb_popcount_mirror)
qed

lemma eval_friendly_fire_mirror:
  assumes "one_king b" "ctx_mirror ctx ctx'" "side b \<in> {WHITE, BLACK}"
  shows "eval_friendly_fire (mirror_board b) ctx' = - eval_friendly_fire b ctx"
proof -
  have "both_sides (ff_side (mirror_board b) ctx') = - both_sides (ff_side b ctx)"
    by (rule both_sides_mirrorI) (rule ff_side_mirror [OF assms(1,2)])
  then show ?thesis unfolding eval_friendly_fire_def mirror_board_simps pov_opposite [OF assms(3)] by simp
qed

end
