(* ===== verification/EvalSaveQueen.thy ===== *)
theory EvalSaveQueen
  imports EvalCommon
begin

text \<open>
  The Save the Queen terms, \<open>eval/eval_save_queen.c\<close>: the escape of one's own prisoner, the hunt
  of the escaped queen, and the blockade of the opponent's prisoner.
\<close>

section \<open>Terms of the evaluation\<close>

definition ESCAPE_BONUS :: "int list" where
  "ESCAPE_BONUS = [0, 450, 250, 120, 30]"

definition WIN_BONUS :: "int list" where
  "WIN_BONUS = [1500, 800, 350, 150, 70, 30, 10, 0]"

text \<open>The empty squares one step towards the boundary.\<close>

definition stq_clear_path :: "Board \<Rightarrow> Color \<Rightarrow> Square \<Rightarrow> int" where
  "stq_clear_path b c qsq =
     (let fwd = (if c = WHITE then [-8, -7, -9] else [8, 7, 9]) in
      sum_list (map (\<lambda>f. let tsq = qsq + f in
        if tsq \<ge> 0 \<and> tsq < 64 \<and> \<bar>SQ_COL tsq - SQ_COL qsq\<bar> \<le> 1 \<and> piece_at b tsq = PIECE_EMPTY then 1 else 0) fwd))"

definition stq_prisoner :: "Board \<Rightarrow> Color \<Rightarrow> Square \<Rightarrow> int" where
  "stq_prisoner b c qsq =
     (let qrow = SQ_ROW qsq; qcol = SQ_COL qsq;
          dist = (if c = WHITE then qrow - 3 else 4 - qrow);
          center_dist = (if qcol > 3 then qcol - 3 else 3 - qcol)
      in (if dist \<ge> 1 \<and> dist \<le> 4 then ESCAPE_BONUS ! nat dist else 0) +
         (3 - center_dist) * 8 +
         bb_popcount (king_attacks qsq AND NOT (all_bb b)) * 12 +
         stq_clear_path b c qsq * 25)"

definition stq_escaped :: "Board \<Rightarrow> Color \<Rightarrow> Square \<Rightarrow> int" where
  "stq_escaped b c qsq =
     (let opp = color_opposite c; qrow = SQ_ROW qsq; qcol = SQ_COL qsq;
          prison_row = (if c = WHITE then 0 else 7);
          dr = (if qrow > prison_row then qrow - prison_row else prison_row - qrow);
          dc = (if qcol > 3 then qcol - 3 else 3 - qcol);
          dist = (if dr > dc then dr else dc);
          opp_king = pieces b opp KING
      in 500 +
         (if dist < 8 then WIN_BONUS ! nat dist else 0) +
         (3 - dc) * 10 -
         (if board_square_attacked b qsq opp then 150 else 0) +
         (if opp_king \<noteq> 0 then
            let ksq = bb_lsb opp_king; kr = SQ_ROW ksq; kc = SQ_COL ksq;
                kdr = (if qrow > kr then qrow - kr else kr - qrow);
                kdc = (if qcol > kc then qcol - kc else kc - qcol);
                kdist = (if kdr > kdc then kdr else kdc)
            in if kdist \<le> 3 then (4 - kdist) * 50 else 0
          else 0) +
         bb_popcount (king_attacks qsq AND occupied b c) * 15)"

definition stq_blockade :: "Board \<Rightarrow> Color \<Rightarrow> int" where
  "stq_blockade b c =
     (let opp = color_opposite c; opp_q = pieces b opp QUEEN in
      if opp_q \<noteq> BB_EMPTY \<and> \<not> stq_is_own_half (bb_lsb opp_q) opp then
        let opp_qsq = bb_lsb opp_q;
            boundary = (if opp = WHITE then 3 else 4);
            row_mask = push_bit (boundary * 8) 0xFF;
            blockers = bb_popcount (occupied b c AND row_mask);
            around = king_attacks opp_qsq AND occupied b c;
            opp_dist = (if opp = WHITE then SQ_ROW opp_qsq - 3 else 4 - SQ_ROW opp_qsq)
        in blockers * 30 + bb_popcount around * 22 +
           (if opp_dist = 1 then blockers * 35 + bb_popcount around * 25
            else if opp_dist = 2 then blockers * 15 + bb_popcount around * 10 else 0) +
           bb_popcount (pieces b c PAWN AND row_mask) * 15
      else 0)"

definition stq_side :: "Board \<Rightarrow> Color \<Rightarrow> int" where
  "stq_side b c =
     (let qbb = pieces b c QUEEN in
      if qbb \<noteq> BB_EMPTY then
        let qsq = bb_lsb qbb in if \<not> stq_is_own_half qsq c then stq_prisoner b c qsq else stq_escaped b c qsq
      else - 400) +
     stq_blockade b c"

definition eval_save_queen :: "Board \<Rightarrow> EvalContext \<Rightarrow> int" where
  "eval_save_queen b ctx = both_sides (stq_side b) + pov (side b) 15"


section \<open>Exchanging the colours\<close>

lemma step_square:
  assumes "SQ_VALID q" "f = 8 * dr + dc" "dr \<in> {1, -1}" "dc \<in> {-1, 0, 1}"
  shows "(q + f \<ge> 0 \<and> q + f < 64 \<and> \<bar>SQ_COL (q + f) - SQ_COL q\<bar> \<le> 1) \<longleftrightarrow> on_board (SQ_ROW q + dr) (SQ_COL q + dc)"
    "on_board (SQ_ROW q + dr) (SQ_COL q + dc) \<Longrightarrow> q + f = SQ (SQ_ROW q + dr) (SQ_COL q + dc)"
proof -
  obtain r c where q: "q = 8 * r + c" "0 \<le> r" "r < 8" "0 \<le> c" "c < 8"
    using assms(1) SQ_ROW_bounds [OF assms(1)] SQ_COL_bounds [of q]
    by (intro that [of "SQ_ROW q" "SQ_COL q"]) (auto simp: SQ_ROW_div SQ_COL_mod)
  have rc: "SQ_ROW q = r" "SQ_COL q = c" using q by (simp_all add: SQ_ROW_div SQ_COL_mod)
  have e: "q + f = 8 * (r + dr) + (c + dc)" using q assms(2) by simp
  have col: "SQ_COL (q + f) = (c + dc) mod 8" unfolding e SQ_COL_mod by (simp add: add.assoc)
  show "(q + f \<ge> 0 \<and> q + f < 64 \<and> \<bar>SQ_COL (q + f) - SQ_COL q\<bar> \<le> 1) \<longleftrightarrow> on_board (SQ_ROW q + dr) (SQ_COL q + dc)"
  proof (cases "0 \<le> c + dc \<and> c + dc \<le> 7")
    case True
    then have "(c + dc) mod 8 = c + dc" by simp
    moreover have "0 \<le> 8 * x + y \<longleftrightarrow> 0 \<le> x" "8 * x + y < 64 \<longleftrightarrow> x < 8" if "0 \<le> y" "y \<le> 7" for x y :: int
      using that by auto
    then have "0 \<le> 8 * (r + dr) + (c + dc) \<longleftrightarrow> 0 \<le> r + dr" "8 * (r + dr) + (c + dc) < 64 \<longleftrightarrow> r + dr < 8"
      using True by blast+
    moreover have "\<bar>dc\<bar> \<le> 1" using assms(4) by auto
    ultimately show ?thesis using True unfolding rc col by (simp add: on_board_def e)
  next
    case False
    then have "c = 0 \<and> dc = -1 \<or> c = 7 \<and> dc = 1" using assms(4) q(4,5) by auto
    then show ?thesis using False unfolding rc col by (auto simp: on_board_def)
  qed
  show "q + f = SQ (SQ_ROW q + dr) (SQ_COL q + dc)" if "on_board (SQ_ROW q + dr) (SQ_COL q + dc)"
    unfolding rc e using on_board_SQ(1) [of "r + dr" "c + dc"] that rc by simp
qed

lemma clear_path_sum:
  assumes "SQ_VALID q"
  shows "stq_clear_path b c q = sum_list (map (\<lambda>dc. if on_board (SQ_ROW q + (if c = WHITE then -1 else 1)) (SQ_COL q + dc) \<and>
       piece_at b (SQ (SQ_ROW q + (if c = WHITE then -1 else 1)) (SQ_COL q + dc)) = PIECE_EMPTY then 1 else 0) [-1, 0, 1])"
proof -
  have step: "(q + f \<ge> 0 \<and> q + f < 64 \<and> \<bar>SQ_COL (q + f) - SQ_COL q\<bar> \<le> 1 \<and> piece_at b (q + f) = PIECE_EMPTY) \<longleftrightarrow>
      on_board (SQ_ROW q + dr) (SQ_COL q + dc) \<and> piece_at b (SQ (SQ_ROW q + dr) (SQ_COL q + dc)) = PIECE_EMPTY"
    if "f = 8 * dr + dc" "dr \<in> {1, -1}" "dc \<in> {-1, 0, 1}" for f dr dc
    using step_square [OF assms that] by auto
  show ?thesis
    using step [of "-8" "-1" 0] step [of "-7" "-1" 1] step [of "-9" "-1" "-1"] step [of 8 1 0] step [of 7 1 "-1"] step [of 9 1 1]
    by (cases "c = WHITE") (simp_all add: stq_clear_path_def Let_def)
qed

lemma stq_clear_path_mirror:
  assumes "wf_place b" "SQ_VALID q" "c \<in> {WHITE, BLACK}"
  shows "stq_clear_path (mirror_board b) c (mirror q) = stq_clear_path b (color_opposite c) q"
proof -
  have dir: "SQ_ROW (mirror q) + (if c = WHITE then -1 else 1) = 7 - (SQ_ROW q + (if color_opposite c = WHITE then -1 else 1))"
    using assms(2,3) by auto
  have "(if on_board (7 - r) k \<and> piece_at (mirror_board b) (SQ (7 - r) k) = PIECE_EMPTY then 1 else 0 :: int) =
      (if on_board r k \<and> piece_at b (SQ r k) = PIECE_EMPTY then 1 else 0)" for r k
    using empty_mirror_SQ [OF assms(1), of r k] by auto
  then show ?thesis
    unfolding clear_path_sum [OF assms(2)] clear_path_sum [OF mirror_valid [OF assms(2)]] dir mirror_col [OF assms(2)] by (simp only:)
qed

lemma stq_prisoner_mirror:
  assumes "wf_place b" "SQ_VALID q" "c \<in> {WHITE, BLACK}"
  shows "stq_prisoner (mirror_board b) c (mirror q) = stq_prisoner b (color_opposite c) q"
proof -
  have "(if c = WHITE then SQ_ROW (mirror q) - 3 else 4 - SQ_ROW (mirror q)) =
      (if color_opposite c = WHITE then SQ_ROW q - 3 else 4 - SQ_ROW q)" using assms(2,3) by auto
  then show ?thesis
    unfolding stq_prisoner_def Let_def stq_clear_path_mirror [OF assms] mirror_col [OF assms(2)]
    by (simp add: king_attacks_mirror [OF assms(2)] mirror_bb_ops bb_popcount_mirror)
qed

lemma abs_if: "(if a > b then a - b else b - a) = \<bar>a - b\<bar>" for a b :: int
  by simp

lemma stq_escaped_mirror:
  assumes "one_king b" "SQ_VALID q" "c \<in> {WHITE, BLACK}"
  shows "stq_escaped (mirror_board b) c (mirror q) = stq_escaped b (color_opposite c) q"
proof -
  have c': "color_opposite c \<in> {WHITE, BLACK}" using assms(3) by auto
  have row: "\<bar>SQ_ROW (mirror q) - (if c = WHITE then 0 else 7)\<bar> = \<bar>SQ_ROW q - (if color_opposite c = WHITE then 0 else 7)\<bar>"
    using assms(2,3) by auto
  have kd: "\<bar>SQ_ROW (mirror q) - SQ_ROW (mirror k)\<bar> = \<bar>SQ_ROW q - SQ_ROW k\<bar>" if "SQ_VALID k" for k
    using that assms(2) by (simp add: abs_minus_commute)
  note k = king_lsb_mirror [OF assms(1,3)]
  note eqs = abs_if row mirror_col [OF assms(2)] board_square_attacked_mirror [OF assms(2) c'] king_attacks_mirror [OF assms(2)]
    mirror_board_simps color_opposite_opposite mirror_bb_ops bb_popcount_mirror mirror_bb_eq_0
  show ?thesis
  proof (cases "pieces b c KING = 0")
    case True
    then show ?thesis unfolding stq_escaped_def Let_def eqs by simp
  next
    case False
    show ?thesis
      unfolding stq_escaped_def Let_def eqs k [OF False] kd [OF k(2) [OF False]] mirror_col [OF k(2) [OF False]] by (rule refl)
  qed
qed

definition one_queen :: "Board \<Rightarrow> bool" where
  "one_queen b \<longleftrightarrow> bb_popcount (pieces b WHITE QUEEN) \<le> 1 \<and> bb_popcount (pieces b BLACK QUEEN) \<le> 1"

lemma queen_lsb_mirror:
  assumes "one_queen b" "c \<in> {WHITE, BLACK}" "pieces b c QUEEN \<noteq> 0"
  shows "bb_lsb (mirror_bb (pieces b c QUEEN)) = mirror (bb_lsb (pieces b c QUEEN))" "SQ_VALID (bb_lsb (pieces b c QUEEN))"
  using assms bb_lsb_mirror [of "pieces b c QUEEN"] bb_lsb_bit [of "pieces b c QUEEN"] by (auto simp: one_queen_def)

lemma bit_row_mask: "SQ_VALID s \<Longrightarrow> k < 8 \<Longrightarrow> bit (push_bit (k * 8) 0xFF :: Bitboard) (nat s) \<longleftrightarrow> SQ_ROW s = int k"
proof -
  assume s: "SQ_VALID s" and k: "k < 8"
  have low: "bit (0xFF :: Bitboard) n \<longleftrightarrow> n < 8" for n
    using bit_mask_iff [of 8 n, where 'a = "64 word"] by (auto simp: mask_eq_exp_minus_1)
  have "bit (push_bit (k * 8) 0xFF :: Bitboard) (nat s) \<longleftrightarrow> k * 8 \<le> nat s \<and> nat s - k * 8 < 8"
    using bit_valid [OF s] unfolding bit_push_bit_iff low by simp
  also have "\<dots> \<longleftrightarrow> s div 8 = int k" using s by (auto simp: SQ_VALID_def)
  finally show "bit (push_bit (k * 8) 0xFF :: Bitboard) (nat s) \<longleftrightarrow> SQ_ROW s = int k" by (simp add: SQ_ROW_div)
qed

lemma row_mask_mirror: "k < 8 \<Longrightarrow> push_bit (k * 8) 0xFF = mirror_bb (push_bit ((7 - k) * 8) 0xFF)"
  by (rule mirror_eqI) (use bit_row_mask [of "mirror _" k] in \<open>auto simp: bit_row_mask\<close>)

lemma stq_blockade_mirror:
  assumes "one_queen b" "c \<in> {WHITE, BLACK}"
  shows "stq_blockade (mirror_board b) c = stq_blockade b (color_opposite c)"
proof (cases "pieces b c QUEEN = 0")
  case True
  then show ?thesis by (simp add: stq_blockade_def BB_EMPTY_def mirror_bb_eq_0)
next
  case False
  have c': "color_opposite c \<in> {WHITE, BLACK}" using assms(2) by auto
  note q = queen_lsb_mirror [OF assms False]
  have mask: "push_bit ((if color_opposite c = WHITE then 3 else 4) * 8) 0xFF = mirror_bb (push_bit ((if c = WHITE then 3 else 4) * 8) 0xFF)"
    using assms(2) row_mask_mirror [of 3] row_mask_mirror [of 4] by auto
  have dist: "(if color_opposite c = WHITE then SQ_ROW (mirror s) - 3 else 4 - SQ_ROW (mirror s)) =
      (if c = WHITE then SQ_ROW s - 3 else 4 - SQ_ROW s)" if "SQ_VALID s" for s
    using that assms(2) by auto
  show ?thesis
    unfolding stq_blockade_def Let_def mirror_board_simps color_opposite_opposite q(1) BB_EMPTY_def mirror_bb_eq_0
      stq_own_half_mirror [OF q(2) c'] mask king_attacks_mirror [OF q(2)] mirror_bb_ops bb_popcount_mirror dist [OF q(2)]
    by (rule refl)
qed

lemma stq_side_mirror:
  assumes "wf_place b" "one_king b" "one_queen b" "c \<in> {WHITE, BLACK}"
  shows "stq_side (mirror_board b) c = stq_side b (color_opposite c)"
proof (cases "pieces b (color_opposite c) QUEEN = 0")
  case True
  then show ?thesis by (simp add: stq_side_def BB_EMPTY_def mirror_bb_eq_0 stq_blockade_mirror [OF assms(3,4)])
next
  case False
  have "color_opposite c \<in> {WHITE, BLACK}" using assms(4) by auto
  note q = queen_lsb_mirror [OF assms(3) this False]
  show ?thesis
    unfolding stq_side_def Let_def mirror_board_simps q(1) BB_EMPTY_def mirror_bb_eq_0 stq_own_half_mirror [OF q(2) assms(4)]
      stq_prisoner_mirror [OF assms(1) q(2) assms(4)] stq_escaped_mirror [OF assms(2) q(2) assms(4)] stq_blockade_mirror [OF assms(3,4)]
    by (rule refl)
qed

lemma eval_save_queen_mirror:
  assumes "wf_place b" "one_king b" "one_queen b" "side b \<in> {WHITE, BLACK}"
  shows "eval_save_queen (mirror_board b) ctx' = - eval_save_queen b ctx"
proof -
  have "both_sides (stq_side (mirror_board b)) = - both_sides (stq_side b)"
    by (rule both_sides_mirrorI) (rule stq_side_mirror [OF assms(1-3)])
  then show ?thesis unfolding eval_save_queen_def mirror_board_simps pov_opposite [OF assms(4)] by simp
qed

end
