(* ===== verification/EvalSuccession.thy ===== *)
theory EvalSuccession
  imports EvalCommon
begin

text \<open>
  The Succession terms, \<open>eval/eval_succession.c\<close>: queens, the advance of pawns towards the
  promotion to a king, and the safety of a promoted king.

  The centralisation of queens is measured from row 3 for both sides, so the term is not symmetric.
\<close>

section \<open>Terms of the evaluation\<close>

definition succ_queen :: "Board \<Rightarrow> Color \<Rightarrow> Square \<Rightarrow> int" where
  "succ_queen b opp qsq =
     (let qr = SQ_ROW qsq; qc_col = SQ_COL qsq;
          cr = (if qr > 3 then qr - 3 else 3 - qr);
          cc = (if qc_col > 3 then qc_col - 3 else 3 - qc_col)
      in (if board_square_attacked b qsq opp then - 120 else 0) + (6 - cr - cc) * 4)"

definition start_row :: "Color \<Rightarrow> int" where
  "start_row c = (if c = WHITE then 1 else 6)"

definition dir_mul :: "Color \<Rightarrow> int" where
  "dir_mul c = (if c = WHITE then 1 else -1)"

definition succ_advance :: "Color \<Rightarrow> Square \<Rightarrow> int" where
  "succ_advance c sq = (SQ_ROW sq - start_row c) * dir_mul c"

definition ADV_BONUS :: "int list" where
  "ADV_BONUS = [0, 5, 12, 25, 55, 120, 300]"

definition PASS_BONUS :: "int list" where
  "PASS_BONUS = [0, 10, 20, 40, 80, 160, 400]"

definition succ_passed :: "Board \<Rightarrow> Color \<Rightarrow> Square \<Rightarrow> bool" where
  "succ_passed b c psq =
     (let opp = color_opposite c; pr = SQ_ROW psq; pc = SQ_COL psq in
      \<not> list_ex (\<lambda>fc. \<not> (fc < 0 \<or> fc > 7) \<and>
           list_ex (\<lambda>ops. let opr = SQ_ROW ops in if c = WHITE then opr > pr else opr < pr)
             (bb_squares (pieces b opp PAWN AND file_bb fc)))
         [pc - 1, pc, pc + 1])"

definition succ_pawn :: "Board \<Rightarrow> Color \<Rightarrow> Square \<Rightarrow> int" where
  "succ_pawn b c psq =
     (let advance = succ_advance c psq in
      (if advance \<ge> 0 \<and> advance \<le> 6 then ADV_BONUS ! nat advance else 0) +
      (if succ_passed b c psq \<and> advance \<ge> 0 \<and> advance \<le> 6 then PASS_BONUS ! nat advance else 0))"

definition succ_king :: "Board \<Rightarrow> Color \<Rightarrow> int" where
  "succ_king b c =
     (if heir_promoted b c then
        900 +
        (let kbb = pieces b c KING in
         if kbb \<noteq> 0 then
           let ksq = bb_lsb kbb in
           (if board_square_attacked b ksq (color_opposite c) then - 300 else 0) +
           bb_popcount (king_attacks ksq AND occupied b c) * 20
         else 0)
      else 0)"

definition succ_race :: "Board \<Rightarrow> Color \<Rightarrow> int" where
  "succ_race b opp =
     (let opp_best = bb_best 0 (succ_advance opp) (pieces b opp PAWN) in
      if opp_best \<ge> 5 then 100 else if opp_best \<ge> 4 then 40 else 0)"

definition succ_side :: "Board \<Rightarrow> Color \<Rightarrow> int" where
  "succ_side b c =
     (let opp = color_opposite c; n = bb_popcount (pieces b c PAWN) in
      bb_popcount (pieces b c QUEEN) * 250 +
      bb_sum (succ_queen b opp) (pieces b c QUEEN) +
      bb_sum (succ_pawn b c) (pieces b c PAWN) +
      n * 15 - (if n = 1 then 80 else 0) +
      succ_king b c -
      succ_race b opp +
      bb_sum (\<lambda>ns. if succ_advance c ns \<ge> 3 then 10 else 0) (pieces b c KNIGHT) +
      (if bb_popcount (pieces b c BISHOP) \<ge> 2 then 25 else 0))"

definition eval_succession :: "Board \<Rightarrow> EvalContext \<Rightarrow> int" where
  "eval_succession b ctx = both_sides (succ_side b) + pov (side b) 12"


section \<open>Passed pawns\<close>

text \<open>The file-by-file test finds the same pawns as the square-by-square test of the common stage.\<close>

lemma succ_passed_pawn_passed:
  assumes "SQ_VALID s"
  shows "succ_passed b c s \<longleftrightarrow> pawn_passed b c s"
proof -
  let ?P = "pieces b (color_opposite c) PAWN"
  let ?ahead = "\<lambda>t. if c = WHITE then SQ_ROW s < SQ_ROW t else SQ_ROW t < SQ_ROW s"
  have on_file: "(\<exists>t \<in> set (bb_squares (?P AND file_bb fc)). ?ahead t) \<longleftrightarrow>
      (\<exists>t. SQ_VALID t \<and> bit ?P (nat t) \<and> SQ_COL t = fc \<and> ?ahead t)"
    if "0 \<le> fc" "fc \<le> 7" for fc
  proof -
    have "t \<in> set (bb_squares (?P AND file_bb fc)) \<longleftrightarrow> SQ_VALID t \<and> bit ?P (nat t) \<and> SQ_COL t = fc" for t
      using that bit_file_bb [of t fc] by (auto simp: set_bb_squares bit_and_iff)
    then show ?thesis by blast
  qed
  have near: "\<bar>SQ_COL t - SQ_COL s\<bar> \<le> 1 \<longleftrightarrow>
      (\<exists>fc \<in> set [SQ_COL s - 1, SQ_COL s, SQ_COL s + 1]. \<not> (fc < 0 \<or> fc > 7) \<and> SQ_COL t = fc)" for t
    using SQ_COL_bounds [of t] by auto
  have "(\<exists>fc \<in> set [SQ_COL s - 1, SQ_COL s, SQ_COL s + 1]. \<not> (fc < 0 \<or> fc > 7) \<and>
        (\<exists>t \<in> set (bb_squares (?P AND file_bb fc)). ?ahead t)) \<longleftrightarrow>
      (\<exists>fc \<in> set [SQ_COL s - 1, SQ_COL s, SQ_COL s + 1]. \<not> (fc < 0 \<or> fc > 7) \<and>
        (\<exists>t. SQ_VALID t \<and> bit ?P (nat t) \<and> SQ_COL t = fc \<and> ?ahead t))"
    by (intro bex_cong conj_cong refl on_file) simp_all
  also have "\<dots> \<longleftrightarrow> (\<exists>t. SQ_VALID t \<and> bit ?P (nat t) \<and> \<bar>SQ_COL t - SQ_COL s\<bar> \<le> 1 \<and> ?ahead t)"
    unfolding near by blast
  finally show ?thesis
    unfolding succ_passed_def Let_def list_ex_iff pawn_passed_iff [OF assms] by simp
qed


section \<open>The centralisation of queens\<close>

lemma succ_queen_center:
  assumes "SQ_VALID q" "\<not> board_square_attacked b q opp" "\<not> board_square_attacked (mirror_board b) (mirror q) (color_opposite opp)"
  shows "succ_queen b opp q - succ_queen (mirror_board b) (color_opposite opp) (mirror q) =
    (if SQ_ROW q \<le> 3 then 4 else - 4)"
  using assms SQ_ROW_bounds [OF assms(1)] by (auto simp: succ_queen_def Let_def)

end
