(* ===== verification/EvalHeir.thy ===== *)
theory EvalHeir
  imports EvalMercenary EvalFriendlyFire EvalSaveQueen
begin

text \<open>
  The Heir terms, \<open>eval/eval_heir.c\<close>: pawns as successors of the king, the loss and the recovery
  of a king, the promotion race, and development.
\<close>

section \<open>Helpers\<close>

definition heir_pawn_advance_sq :: "Color \<Rightarrow> Square \<Rightarrow> int" where
  "heir_pawn_advance_sq c sq =
     (let advance = (if c = WHITE then SQ_ROW sq - 1 else 6 - SQ_ROW sq) in
      if advance < 0 then 0 else if advance > 5 then 5 else advance)"

definition heir_pawn_steps_to_promo :: "Color \<Rightarrow> Square \<Rightarrow> int" where
  "heir_pawn_steps_to_promo c sq =
     (let steps = (if c = WHITE then 7 - SQ_ROW sq else SQ_ROW sq) in
      if steps < 0 then 0 else if steps > 6 then 6 else steps)"

definition heir_is_passed_pawn :: "Board \<Rightarrow> Color \<Rightarrow> Square \<Rightarrow> bool" where
  "heir_is_passed_pawn b c sq =
     (let opp = color_opposite c; row = SQ_ROW sq; col = SQ_COL sq in
      \<not> list_ex (\<lambda>opsq. let ocol = SQ_COL opsq; orow = SQ_ROW opsq in
           \<not> (\<bar>ocol - col\<bar> > 1) \<and> (if c = WHITE then orow > row else orow < row))
         (bb_squares (pieces b opp PAWN)))"

definition heir_promotion_square_safe :: "Board \<Rightarrow> Color \<Rightarrow> Square \<Rightarrow> bool" where
  "heir_promotion_square_safe b c sq =
     (let promo_sq = SQ (if c = WHITE then 7 else 0) (SQ_COL sq) in
      \<not> board_square_attacked b promo_sq (color_opposite c))"

definition heir_king_hot_squares :: "Board \<Rightarrow> Color \<Rightarrow> Square \<Rightarrow> int" where
  "heir_king_hot_squares b by king =
     bb_count (\<lambda>sq. board_square_attacked b sq by) (king_attacks king OR BB_SQ king)"

definition heir_file_centrality :: "Square \<Rightarrow> int" where
  "heir_file_centrality sq =
     (let col = SQ_COL sq; left = \<bar>col - 3\<bar>; right = \<bar>col - 4\<bar>;
          dist = (if left < right then left else right);
          bonus = 3 - dist
      in if bonus > 0 then bonus else 0)"

definition heir_developed_minor_count :: "Board \<Rightarrow> Color \<Rightarrow> int" where
  "heir_developed_minor_count b c =
     (let back_rank = (if c = WHITE then 0 else 7) in
      bb_count (\<lambda>sq. SQ_ROW sq \<noteq> back_rank) (pieces b c KNIGHT OR pieces b c BISHOP))"

definition heir_f_pawn_block_penalty :: "Board \<Rightarrow> Color \<Rightarrow> int" where
  "heir_f_pawn_block_penalty b c =
     (let block_sq = (if c = WHITE then SQ 2 5 else SQ 5 5);
          home_f = (if c = WHITE then SQ 1 5 else SQ 6 5);
          spear_sq = (if c = WHITE then SQ 4 4 else SQ 3 4);
          anchor_sq = (if c = WHITE then SQ 3 3 else SQ 4 3);
          opp = color_opposite c
      in if \<not> BB_HAS (pieces b c KNIGHT) block_sq then 0
         else if \<not> BB_HAS (pieces b c PAWN) home_f then 0
         else if \<not> BB_HAS (pieces b c PAWN) spear_sq then 0
         else 14 + (if BB_HAS (pieces b c PAWN) anchor_sq then 18 else 0) +
              (if fullmove b \<le> 10 then 6 else 0) +
              (if board_square_attacked b spear_sq opp \<and> \<not> board_square_attacked b spear_sq c then 10 else 0))"


section \<open>Terms of the evaluation\<close>

definition HEIR_ADV_BONUS :: "int list" where
  "HEIR_ADV_BONUS = [0, 8, 20, 40, 80, 160]"

definition HEIR_PASS_BONUS :: "int list" where
  "HEIR_PASS_BONUS = [0, 14, 32, 62, 125, 230]"

definition HEIR_RECOVERY_BONUS :: "int list" where
  "HEIR_RECOVERY_BONUS = [6, 10, 22, 58, 140, 300]"

definition HEIR_RACE_THREAT :: "int list" where
  "HEIR_RACE_THREAT = [0, 0, 18, 48, 105, 235]"

definition heir_strategic_scale :: "Board \<Rightarrow> EvalContext \<Rightarrow> Color \<Rightarrow> int" where
  "heir_strategic_scale b ctx c =
     (let has_king = (pieces b c KING \<noteq> BB_EMPTY); promoted = heir_promoted b c;
          scale = (if \<not> has_king \<or> promoted \<or> ctx_pawn_count ctx c \<le> 3 \<or> ctx_pawn_count ctx (color_opposite c) \<le> 3
                   then 256 else 112 + ctx_eg_weight ctx)
      in if scale > 256 then 256 else scale)"

definition heir_soft_king_scale :: "Board \<Rightarrow> EvalContext \<Rightarrow> Color \<Rightarrow> int" where
  "heir_soft_king_scale b ctx c =
     (let scale = (if \<not> heir_check_applies b c \<and> \<not> heir_promoted b c \<and> ctx_pawn_count ctx c \<ge> 4
                   then 144 + cdiv (ctx_eg_weight ctx) 2 else 256)
      in if scale > 256 then 256 else scale)"

definition heir_pawn :: "Board \<Rightarrow> EvalContext \<Rightarrow> Color \<Rightarrow> Square \<Rightarrow> int" where
  "heir_pawn b ctx c sq =
     (let scale = heir_strategic_scale b ctx c;
          advance = heir_pawn_advance_sq c sq;
          steps = heir_pawn_steps_to_promo c sq;
          passed = heir_is_passed_pawn b c sq;
          promo_safe = heir_promotion_square_safe b c sq;
          attacked = board_square_attacked b sq (color_opposite c);
          escorts = bb_popcount (pieces b c PAWN AND king_attacks sq)
      in cdiv (HEIR_ADV_BONUS ! nat advance * scale) 256 +
         cdiv (heir_file_centrality sq * (if advance \<ge> 2 then 5 else 2) * scale) 256 +
         cdiv (escorts * 8 * scale) 256 +
         (if passed then
            cdiv (HEIR_PASS_BONUS ! nat advance * scale) 256 +
            (if \<not> attacked then cdiv ((10 + advance * 4) * scale) 256 else 0)
          else 0) +
         (if advance \<ge> 4 then
            (if promo_safe then cdiv ((30 + (5 - steps) * 12) * scale) 256 else - 12)
          else 0) -
         (if attacked \<and> advance \<ge> 4 then 12 else 0))"

definition heir_safe_recovery :: "Board \<Rightarrow> Color \<Rightarrow> int" where
  "heir_safe_recovery b c =
     bb_sum (\<lambda>sq. if pieces b c KING = BB_EMPTY \<and> heir_promotion_square_safe b c sq
         then 10 + heir_pawn_advance_sq c sq * 18 + (if heir_is_passed_pawn b c sq then 24 else 0) else 0)
       (pieces b c PAWN)"

definition heir_best_advance :: "Board \<Rightarrow> Color \<Rightarrow> int" where
  "heir_best_advance b c = bb_best 0 (heir_pawn_advance_sq c) (pieces b c PAWN)"

text \<open>The best passed pawn; squares of other pawns keep the running value.\<close>

definition heir_best_passed :: "Board \<Rightarrow> Color \<Rightarrow> int" where
  "heir_best_passed b c =
     bb_best (-1) (\<lambda>sq. if heir_is_passed_pawn b c sq then heir_pawn_advance_sq c sq else -1) (pieces b c PAWN)"

definition heir_pawns :: "Board \<Rightarrow> EvalContext \<Rightarrow> Color \<Rightarrow> int" where
  "heir_pawns b ctx c =
     (let n = ctx_pawn_count ctx c; scale = heir_strategic_scale b ctx c in
      bb_sum (heir_pawn b ctx c) (pieces b c PAWN) +
      n * 18 - (if n \<le> 2 then (3 - n) * 35 else 0) - (if n = 1 then 40 else 0) +
      (if heir_best_advance b c \<ge> 4 then cdiv (20 * scale) 256 else 0) +
      (if heir_best_passed b c \<ge> 4 then cdiv (40 * scale) 256 else 0))"

definition heir_king :: "Board \<Rightarrow> EvalContext \<Rightarrow> Color \<Rightarrow> int" where
  "heir_king b ctx c =
     (let opp = color_opposite c; promoted = heir_promoted b c; n = ctx_pawn_count ctx c;
          best_advance = heir_best_advance b c; best_passed = heir_best_passed b c in
      if pieces b c KING = BB_EMPTY then
        if promoted then - 1400
        else - 180 + heir_safe_recovery b c + HEIR_RECOVERY_BONUS ! nat best_advance +
             (if best_passed \<ge> 0 then cdiv (HEIR_RECOVERY_BONUS ! nat best_passed) 2 else 0) -
             (if n = 0 then 1200 else 0) - (if best_advance \<le> 1 then 80 else 0)
      else
        let ksq = ctx_king_sq ctx c;
            support = bb_popcount (king_attacks ksq AND occupied b c);
            shield = bb_popcount (king_attacks ksq AND pieces b c PAWN);
            hot = heir_king_hot_squares b opp ksq;
            scarcity = (if n \<le> 2 then 3 - n else 0);
            soft = heir_soft_king_scale b ctx c
        in (if promoted then 720 else 0) +
           (if heir_check_applies b c then
              support * 18 + shield * 14 -
              (if board_square_attacked b ksq opp then 240 else 0) - hot * (18 + scarcity * 6)
            else
              support * 10 + shield * 8 -
              (if board_square_attacked b ksq opp then cdiv ((100 + scarcity * 45) * soft) 256 else 0) -
              cdiv (hot * (8 + scarcity * 4) * soft) 256))"

definition heir_target :: "Board \<Rightarrow> EvalContext \<Rightarrow> Color \<Rightarrow> int" where
  "heir_target b ctx c =
     (let opp = color_opposite c; ok = ctx_king_sq ctx opp in
      if ok \<ge> 0 then
        heir_king_hot_squares b c ok * (if heir_check_applies b c then 10 else 8) +
        (if board_square_attacked b ok c then 35 else 0)
      else
        140 + (if ctx_pawn_count ctx opp \<le> 2 then 70 else 0) +
        bb_sum (\<lambda>sq. if \<not> heir_promotion_square_safe b opp sq then 18 else 0) (pieces b opp PAWN))"

definition heir_race :: "Board \<Rightarrow> EvalContext \<Rightarrow> Color \<Rightarrow> int" where
  "heir_race b ctx c =
     (let opp = color_opposite c; scale = heir_strategic_scale b ctx c;
          adv = heir_best_advance b opp; passed = heir_best_passed b opp in
      cdiv (HEIR_RACE_THREAT ! nat adv * scale) 256 +
      (if passed \<ge> 3 then cdiv (HEIR_RACE_THREAT ! nat passed * scale) 512 else 0) +
      (if pieces b c KING = BB_EMPTY
       then cdiv (HEIR_RACE_THREAT ! nat adv) 2 + (if passed \<ge> 4 then 80 else 0) else 0))"

definition CENTER_FILES :: Bitboard where
  "CENTER_FILES = 0x00003C3C3C3C0000"

definition officer_attacks :: "Board \<Rightarrow> PieceType \<Rightarrow> Square \<Rightarrow> Bitboard" where
  "officer_attacks b t sq =
     (if t = KNIGHT then knight_attacks sq
      else if t = BISHOP then bishop_attacks_calc sq (all_bb b)
      else if t = ROOK then rook_attacks_calc sq (all_bb b)
      else if t = QUEEN then bishop_attacks_calc sq (all_bb b) OR rook_attacks_calc sq (all_bb b)
      else BB_EMPTY)"

definition heir_officer :: "Board \<Rightarrow> EvalContext \<Rightarrow> Color \<Rightarrow> PieceType \<Rightarrow> Square \<Rightarrow> int" where
  "heir_officer b ctx c t sq =
     (let opp = color_opposite c; ok = ctx_king_sq ctx opp;
          attacks = officer_attacks b t sq;
          by_opp = board_square_attacked b sq opp; by_own = board_square_attacked b sq c;
          rel_rank = (if c = WHITE then SQ_ROW sq else 7 - SQ_ROW sq);
          col = SQ_COL sq
      in (if by_opp \<and> \<not> by_own then
            - ((if t = KNIGHT \<or> t = BISHOP then 30 else if t = ROOK then 45 else 70) +
               (if col = 0 \<or> col = 7 then 10 else 0))
          else 0) +
         (if t = KNIGHT \<and> col \<ge> 2 \<and> col \<le> 5 \<and> rel_rank \<ge> 2 \<and> rel_rank \<le> 4
          then 14 + (if by_own then 10 else 0) + (if \<not> by_opp then 8 else 0) + (if rel_rank \<ge> 4 then 6 else 0)
          else 0) +
         (if t = ROOK then
            (if rel_rank = 6 then
               25 + (if ok \<ge> 0 \<and> (if c = WHITE then SQ_ROW ok else 7 - SQ_ROW ok) = 7 then 15 else 0)
             else 0) +
            (if rook_attacks_calc sq (all_bb b) AND pieces b c ROOK \<noteq> 0 then 12 else 0)
          else 0) +
         (if t = BISHOP \<and> col \<ge> 1 \<and> col \<le> 6 \<and> rel_rank \<ge> 1 \<and> rel_rank \<le> 5
          then bb_popcount (bishop_attacks_calc sq (all_bb b) AND CENTER_FILES) * 4 else 0) +
         (if ok \<ge> 0 then
            (if attacks AND (king_attacks ok OR BB_SQ ok) \<noteq> 0 then (if t = QUEEN then 18 else 10) else 0)
          else if attacks AND pieces b opp PAWN \<noteq> 0 then 8 else 0))"

definition heir_queen_sortie :: "Board \<Rightarrow> EvalContext \<Rightarrow> Color \<Rightarrow> int" where
  "heir_queen_sortie b ctx c =
     (let opp = color_opposite c; back_rank = (if c = WHITE then 0 else 7);
          qsq = ctx_queen_sq ctx c; ksq = ctx_king_sq ctx c in
      if qsq \<ge> 0 \<and> ksq \<ge> 0 \<and> \<not> heir_promoted b c \<and> fullmove b \<le> 12 \<and>
         ctx_pawn_count ctx c \<ge> 4 \<and> ctx_pawn_count ctx opp \<ge> 4 \<and> SQ_ROW qsq \<noteq> back_rank then
        let minor_developed = sum_list (map (\<lambda>t. bb_count (\<lambda>sq. SQ_ROW sq \<noteq> back_rank) (pieces b c t)) [KNIGHT, BISHOP]);
            minor_total = bb_popcount (pieces b c KNIGHT OR pieces b c BISHOP);
            undeveloped_minors = minor_total - minor_developed
        in if undeveloped_minors > 0 then
             let advance = (if c = WHITE then SQ_ROW qsq else 7 - SQ_ROW qsq);
                 king_gap = chebyshev_distance_sq qsq ksq
             in 10 + undeveloped_minors * 14 +
                (if minor_developed = 0 then 16 else if minor_developed = 1 then 8 else 0) +
                (if advance \<ge> 1 then 4 + advance * 4 else 0) +
                (if king_gap > 1 then (king_gap - 1) * 6 else 0) +
                (if \<not> board_square_attacked b qsq c then 16 else 0) +
                (if board_square_attacked b qsq opp then 14 else 0)
           else 0
      else 0)"

definition heir_development :: "Board \<Rightarrow> EvalContext \<Rightarrow> Color \<Rightarrow> int" where
  "heir_development b ctx c =
     (let opp = color_opposite c; back_rank = (if c = WHITE then 0 else 7);
          developed = sum_list (map (\<lambda>t. bb_count (\<lambda>sq. SQ_ROW sq \<noteq> back_rank) (pieces b c t)) officers);
          developed = (if developed > 6 then 6 else developed)
      in sum_list (map (\<lambda>t. bb_sum (heir_officer b ctx c t) (pieces b c t)) officers) +
         developed * 8 + (if developed \<ge> 3 \<and> fullmove b \<le> 14 then 10 else 0) -
         (if \<not> heir_promoted b c \<and> fullmove b \<le> 12 \<and> ctx_pawn_count ctx c \<ge> 4 \<and> ctx_pawn_count ctx opp \<ge> 4
          then heir_f_pawn_block_penalty b c else 0) -
         heir_queen_sortie b ctx c)"

definition heir_side :: "Board \<Rightarrow> EvalContext \<Rightarrow> Color \<Rightarrow> int" where
  "heir_side b ctx c =
     heir_pawns b ctx c + heir_king b ctx c + heir_target b ctx c - heir_race b ctx c + heir_development b ctx c"

definition eval_heir :: "Board \<Rightarrow> EvalContext \<Rightarrow> int" where
  "eval_heir b ctx = both_sides (heir_side b ctx) + pov (side b) 6"


section \<open>Passed pawns\<close>

lemma heir_is_passed_pawn_passed:
  assumes "SQ_VALID s"
  shows "heir_is_passed_pawn b c s \<longleftrightarrow> pawn_passed b c s"
  unfolding pawn_passed_iff [OF assms] heir_is_passed_pawn_def Let_def list_ex_iff set_bb_squares
  by (auto simp: not_less)

section \<open>Exchanging the colours\<close>

lemma heir_advance_mirror [mirror_simps]:
  assumes "SQ_VALID s" "c \<in> {WHITE, BLACK}"
  shows "heir_pawn_advance_sq c (mirror s) = heir_pawn_advance_sq (color_opposite c) s"
    "heir_pawn_steps_to_promo c (mirror s) = heir_pawn_steps_to_promo (color_opposite c) s"
  using assms by (auto simp: heir_pawn_advance_sq_def heir_pawn_steps_to_promo_def)

lemma heir_passed_mirror [mirror_simps]:
  assumes "SQ_VALID s" "c \<in> {WHITE, BLACK}"
  shows "heir_is_passed_pawn (mirror_board b) c (mirror s) = heir_is_passed_pawn b (color_opposite c) s"
  unfolding heir_is_passed_pawn_def Let_def mirror_board_simps
  by (intro arg_cong [of _ _ Not] list_ex_mirrorI) (use assms in auto)

lemma heir_promo_safe_mirror [mirror_simps]:
  assumes "SQ_VALID s" "c \<in> {WHITE, BLACK}"
  shows "heir_promotion_square_safe (mirror_board b) c (mirror s) = heir_promotion_square_safe b (color_opposite c) s"
proof -
  let ?t = "SQ (if color_opposite c = WHITE then 7 else 0) (SQ_COL s)"
  have ob: "on_board (if color_opposite c = WHITE then 7 else 0) (SQ_COL s)"
    using SQ_COL_bounds [of s] by (simp add: on_board_def)
  have "SQ (if c = WHITE then 7 else 0) (SQ_COL (mirror s)) = mirror ?t"
    using mirror_SQ [OF ob] assms by auto
  moreover have "color_opposite c \<in> {WHITE, BLACK}" using assms(2) by auto
  ultimately show ?thesis
    using board_square_attacked_mirror [OF on_board_SQ(2) [OF ob]] by (simp add: heir_promotion_square_safe_def)
qed

lemma heir_hot_mirror [mirror_simps]:
  assumes "SQ_VALID k" "c \<in> {WHITE, BLACK}"
  shows "heir_king_hot_squares (mirror_board b) c (mirror k) = heir_king_hot_squares b (color_opposite c) k"
  unfolding heir_king_hot_squares_def king_attacks_mirror [OF assms(1)] mirror_bb_SQ [OF assms(1)] mirror_bb_ops
  by (rule bb_count_mirrorI) (rule board_square_attacked_mirror [OF _ assms(2)])

lemma heir_centrality_mirror [mirror_simps]: "SQ_VALID s \<Longrightarrow> heir_file_centrality (mirror s) = heir_file_centrality s"
  by (simp add: heir_file_centrality_def)

lemma heir_f_block_mirror:
  assumes "c \<in> {WHITE, BLACK}"
  shows "heir_f_pawn_block_penalty (mirror_board b) c = heir_f_pawn_block_penalty b (color_opposite c)"
proof -
  have ob: "on_board 5 5" "on_board 2 5" "on_board 6 5" "on_board 1 5" "on_board 3 4" "on_board 4 4" "on_board 4 3" "on_board 3 3"
    by (simp_all add: on_board_def)
  have has: "BB_HAS (mirror_bb w) (SQ q f) \<longleftrightarrow> BB_HAS w (SQ r f)" if "on_board r f" "q = 7 - r" for w r q f
    using BB_HAS_mirror_SQ [OF that(1)] that(2) by simp
  have att: "board_square_attacked (mirror_board b) (SQ q f) d = board_square_attacked b (SQ r f) (color_opposite d)"
    if "on_board r f" "d \<in> {WHITE, BLACK}" "q = 7 - r" for r q f d
    using board_square_attacked_mirror [OF on_board_SQ(2) [OF that(1)] that(2)] mirror_SQ [OF that(1)] that(3) by simp
  note eqs = mirror_board_simps has [OF ob(1)] has [OF ob(2)] has [OF ob(3)] has [OF ob(4)] has [OF ob(5)] has [OF ob(6)] has [OF ob(7)]
    has [OF ob(8)] att [OF ob(5)] att [OF ob(6)]
  from assms consider "c = WHITE" | "c = BLACK" by blast
  then show ?thesis
    by cases (simp_all add: heir_f_pawn_block_penalty_def Let_def eqs del: SQ_def)
qed

lemma center_files_mirror: "mirror_bb CENTER_FILES = CENTER_FILES"
proof -
  define R :: "nat \<Rightarrow> Bitboard" where "R k = push_bit (k * 8) 0xFF" for k
  have R: "mirror_bb (R (7 - k)) = R k" if "k < 8" for k
    using row_mask_mirror [OF that] by (simp only: R_def)
  have rows: "mirror_bb (R 2) = R 5" "mirror_bb (R 3) = R 4" "mirror_bb (R 4) = R 3" "mirror_bb (R 5) = R 2"
    using R [of 5] R [of 4] R [of 3] R [of 2] by simp_all
  have C: "CENTER_FILES = (R 2 OR R 3 OR R 4 OR R 5) AND (file_bb 2 OR file_bb 3 OR file_bb 4 OR file_bb 5)"
    by (simp add: CENTER_FILES_def R_def file_bb_def FILE_A_def)
  show ?thesis unfolding C mirror_bb_ops(1,2) [symmetric] rows by (simp add: mirror_file ac_simps)
qed

text \<open>What the Heir terms need of the two contexts.\<close>

definition heir_contexts :: "Board \<Rightarrow> EvalContext \<Rightarrow> EvalContext \<Rightarrow> bool" where
  "heir_contexts b ctx ctx' \<longleftrightarrow> ctx_mirror ctx ctx' \<and> squares_mirror ctx_king_sq ctx ctx' \<and> squares_mirror ctx_queen_sq ctx ctx' \<and>
    (\<forall>c \<in> {WHITE, BLACK}. pieces b c KING \<noteq> 0 \<longrightarrow> SQ_VALID (ctx_king_sq ctx c))"

lemma heir_contextsD:
  assumes "heir_contexts b ctx ctx'"
  shows "ctx_mirror ctx ctx'" "squares_mirror ctx_king_sq ctx ctx'" "squares_mirror ctx_queen_sq ctx ctx'"
    "c \<in> {WHITE, BLACK} \<Longrightarrow> pieces b c KING \<noteq> 0 \<Longrightarrow> SQ_VALID (ctx_king_sq ctx c)"
  using assms by (auto simp: heir_contexts_def)

lemma opposite_mem: "c \<in> {WHITE, BLACK} \<Longrightarrow> color_opposite c \<in> {WHITE, BLACK}"
  by auto

lemma heir_pawn_counts_mirror:
  assumes m: "heir_contexts b ctx ctx'" and a: "c \<in> {WHITE, BLACK}"
  shows "ctx_pawn_count ctx' c = ctx_pawn_count ctx (color_opposite c)"
    "ctx_pawn_count ctx' (color_opposite c) = ctx_pawn_count ctx c"
  using ctx_mirrorD(5) [OF heir_contextsD(1) [OF m] a] ctx_mirrorD(5) [OF heir_contextsD(1) [OF m] opposite_mem [OF a]] by simp_all

lemma heir_strategic_scale_mirror:
  assumes m: "heir_contexts b ctx ctx'" and a: "c \<in> {WHITE, BLACK}"
  shows "heir_strategic_scale (mirror_board b) ctx' c = heir_strategic_scale b ctx (color_opposite c)"
  unfolding heir_strategic_scale_def Let_def
  by (simp only: heir_pawn_counts_mirror [OF m a] mirror_board_simps BB_EMPTY_def mirror_bb_eq_0 ctx_mirrorD(2) [OF heir_contextsD(1) [OF m]] color_opposite_opposite)

lemma heir_soft_king_scale_mirror:
  assumes m: "heir_contexts b ctx ctx'" and a: "c \<in> {WHITE, BLACK}"
  shows "heir_soft_king_scale (mirror_board b) ctx' c = heir_soft_king_scale b ctx (color_opposite c)"
  unfolding heir_soft_king_scale_def Let_def
  by (simp only: heir_pawn_counts_mirror [OF m a] mirror_board_simps heir_check_mirror ctx_mirrorD(2) [OF heir_contextsD(1) [OF m]])

lemma heir_pawn_term_mirror:
  assumes m: "heir_contexts b ctx ctx'" and a: "c \<in> {WHITE, BLACK}" "SQ_VALID s"
  shows "heir_pawn (mirror_board b) ctx' c (mirror s) = heir_pawn b ctx (color_opposite c) s"
  unfolding heir_pawn_def Let_def
  by (simp only: heir_strategic_scale_mirror [OF m a(1)] heir_advance_mirror [OF a(2,1)] heir_passed_mirror [OF a(2,1)]
      heir_promo_safe_mirror [OF a(2,1)] board_square_attacked_mirror [OF a(2) opposite_mem [OF a(1)]]
      heir_centrality_mirror [OF a(2)] king_attacks_mirror [OF a(2)] mirror_board_simps mirror_bb_ops bb_popcount_mirror)

lemma heir_best_terms_mirror:
  assumes "c \<in> {WHITE, BLACK}"
  shows "heir_best_advance (mirror_board b) c = heir_best_advance b (color_opposite c)"
    "heir_best_passed (mirror_board b) c = heir_best_passed b (color_opposite c)"
    "heir_safe_recovery (mirror_board b) c = heir_safe_recovery b (color_opposite c)"
  unfolding heir_best_advance_def heir_best_passed_def heir_safe_recovery_def mirror_board_simps BB_EMPTY_def mirror_bb_eq_0
  by (rule bb_best_mirrorI bb_sum_mirrorI;
      simp only: heir_advance_mirror [OF _ assms] heir_passed_mirror [OF _ assms] heir_promo_safe_mirror [OF _ assms])+

lemma heir_pawns_term_mirror:
  assumes m: "heir_contexts b ctx ctx'" and a: "c \<in> {WHITE, BLACK}"
  shows "heir_pawns (mirror_board b) ctx' c = heir_pawns b ctx (color_opposite c)"
proof -
  have "bb_sum (heir_pawn (mirror_board b) ctx' c) (pieces (mirror_board b) c PAWN) =
      bb_sum (heir_pawn b ctx (color_opposite c)) (pieces b (color_opposite c) PAWN)"
    unfolding mirror_board_simps by (rule bb_sum_mirrorI) (rule heir_pawn_term_mirror [OF m a])
  then show ?thesis
    unfolding heir_pawns_def Let_def by (simp only: heir_best_terms_mirror [OF a] heir_pawn_counts_mirror [OF m a] heir_strategic_scale_mirror [OF m a])
qed

lemma heir_king_squares_of_mirror:
  assumes m: "heir_contexts b ctx ctx'" and a: "c \<in> {WHITE, BLACK}" "SQ_VALID (ctx_king_sq ctx (color_opposite c))"
  shows "ctx_king_sq ctx' c = mirror (ctx_king_sq ctx (color_opposite c))"
  using heir_contextsD(2) [OF m] a by (cases rule: squares_mirror_cases) (auto dest: valid_nonneg)

lemma heir_king_term_mirror:
  assumes m: "heir_contexts b ctx ctx'" and a: "c \<in> {WHITE, BLACK}"
  shows "heir_king (mirror_board b) ctx' c = heir_king b ctx (color_opposite c)"
proof (cases "pieces b (color_opposite c) KING = 0")
  case True
  then show ?thesis
    unfolding heir_king_def Let_def
    by (simp only: mirror_board_simps BB_EMPTY_def mirror_bb_eq_0 heir_best_terms_mirror [OF a] heir_pawn_counts_mirror [OF m a] if_True simp_thms)
next
  case False
  then have v: "SQ_VALID (ctx_king_sq ctx (color_opposite c))" by (rule heir_contextsD(4) [OF m opposite_mem [OF a]])
  note k = heir_king_squares_of_mirror [OF m a v]
  show ?thesis
    unfolding heir_king_def Let_def k
    by (simp only: mirror_board_simps BB_EMPTY_def mirror_bb_eq_0 False if_False simp_thms heir_best_terms_mirror [OF a] heir_pawn_counts_mirror [OF m a]
        king_attacks_mirror [OF v] mirror_bb_ops bb_popcount_mirror heir_hot_mirror [OF v opposite_mem [OF a]] heir_check_mirror
        board_square_attacked_mirror [OF v opposite_mem [OF a]] heir_soft_king_scale_mirror [OF m a] color_opposite_opposite)
qed

lemma heir_target_term_mirror:
  assumes m: "heir_contexts b ctx ctx'" and a: "c \<in> {WHITE, BLACK}"
  shows "heir_target (mirror_board b) ctx' c = heir_target b ctx (color_opposite c)"
  using heir_contextsD(2) [OF m] opposite_mem [OF a]
proof (cases rule: squares_mirror_cases)
  case 1
  have "bb_sum (\<lambda>sq. if \<not> heir_promotion_square_safe (mirror_board b) (color_opposite c) sq then 18 else 0) (mirror_bb (pieces b c PAWN)) =
      bb_sum (\<lambda>sq. if \<not> heir_promotion_square_safe b c sq then 18 else 0) (pieces b c PAWN)"
    by (rule bb_sum_mirrorI) (simp add: heir_promo_safe_mirror [OF _ opposite_mem [OF a]])
  with 1 show ?thesis
    unfolding heir_target_def Let_def by (simp add: heir_pawn_counts_mirror [OF m a])
next
  case 2
  then have v: "SQ_VALID (ctx_king_sq ctx c)" and k: "ctx_king_sq ctx' (color_opposite c) = mirror (ctx_king_sq ctx c)" by simp_all
  show ?thesis
    unfolding heir_target_def Let_def k color_opposite_opposite
    using valid_nonneg(2) [OF v] valid_nonneg(2) [OF mirror_valid [OF v]]
    by (simp add: heir_hot_mirror [OF v a] heir_check_mirror board_square_attacked_mirror [OF v a])
qed

lemma heir_race_term_mirror:
  assumes m: "heir_contexts b ctx ctx'" and a: "c \<in> {WHITE, BLACK}"
  shows "heir_race (mirror_board b) ctx' c = heir_race b ctx (color_opposite c)"
  unfolding heir_race_def Let_def
  by (simp only: heir_strategic_scale_mirror [OF m a] heir_best_terms_mirror [OF opposite_mem [OF a]] mirror_board_simps BB_EMPTY_def mirror_bb_eq_0
      color_opposite_opposite)

lemma heir_officer_attacks_term_mirror: "SQ_VALID s \<Longrightarrow> officer_attacks (mirror_board b) t (mirror s) = mirror_bb (officer_attacks b t s)"
  by (simp add: officer_attacks_def BB_EMPTY_def knight_attacks_mirror slider_mirror mirror_bb_ops)

lemma heir_officer_term_mirror:
  assumes m: "heir_contexts b ctx ctx'" and a: "c \<in> {WHITE, BLACK}" "SQ_VALID s"
  shows "heir_officer (mirror_board b) ctx' c t (mirror s) = heir_officer b ctx (color_opposite c) t s"
proof -
  have row: "(if c = WHITE then SQ_ROW (mirror x) else 7 - SQ_ROW (mirror x)) =
      (if color_opposite c = WHITE then SQ_ROW x else 7 - SQ_ROW x)" if "SQ_VALID x" for x
    using a(1) that by auto
  have diag: "mirror_bb w AND CENTER_FILES = mirror_bb (w AND CENTER_FILES)" for w
    by (rule mirror_mask [OF center_files_mirror])
  note eqs = row [OF a(2)] heir_officer_attacks_term_mirror [OF a(2)] board_square_attacked_mirror [OF a(2,1)]
    board_square_attacked_mirror [OF a(2) opposite_mem [OF a(1)]] mirror_col [OF a(2)] slider_mirror [OF a(2)]
    mirror_board_simps color_opposite_opposite diag mirror_bb_ops mirror_bb_eq_0 bb_popcount_mirror
  show ?thesis
    using heir_contextsD(2) [OF m] opposite_mem [OF a(1)]
  proof (cases rule: squares_mirror_cases)
    case 1
    then have neg: "(0 \<le> ctx_king_sq ctx c) = False" "(0 \<le> ctx_king_sq ctx' (color_opposite c)) = False" by simp_all
    show ?thesis unfolding heir_officer_def Let_def eqs neg by (simp only: simp_thms if_False)
  next
    case 2
    then have v: "SQ_VALID (ctx_king_sq ctx c)" and k: "ctx_king_sq ctx' (color_opposite c) = mirror (ctx_king_sq ctx c)" by simp_all
    have pos: "(0 \<le> ctx_king_sq ctx c) = True" "(0 \<le> mirror (ctx_king_sq ctx c)) = True"
      using valid_nonneg(2) [OF v] valid_nonneg(2) [OF mirror_valid [OF v]] by simp_all
    show ?thesis
      unfolding heir_officer_def Let_def eqs k pos row [OF v] king_attacks_mirror [OF v] mirror_bb_SQ [OF v]
      by (simp only: mirror_bb_ops mirror_bb_eq_0 simp_thms if_True)
  qed
qed

lemma heir_developed_sum_mirror:
  assumes "c \<in> {WHITE, BLACK}"
  shows "sum_list (map (\<lambda>t. bb_count (\<lambda>sq. SQ_ROW sq \<noteq> (if c = WHITE then 0 else 7)) (pieces (mirror_board b) c t)) ts) =
    sum_list (map (\<lambda>t. bb_count (\<lambda>sq. SQ_ROW sq \<noteq> (if color_opposite c = WHITE then 0 else 7)) (pieces b (color_opposite c) t)) ts)"
  unfolding mirror_board_simps
  by (intro arg_cong [of _ _ sum_list] map_cong refl bb_count_mirrorI) (use assms in auto)

lemma heir_sortie_term_mirror:
  assumes m: "heir_contexts b ctx ctx'" and a: "c \<in> {WHITE, BLACK}"
  shows "heir_queen_sortie (mirror_board b) ctx' c = heir_queen_sortie b ctx (color_opposite c)"
proof -
  have total: "bb_popcount (pieces (mirror_board b) c KNIGHT OR pieces (mirror_board b) c BISHOP) =
      bb_popcount (pieces b (color_opposite c) KNIGHT OR pieces b (color_opposite c) BISHOP)"
    by (simp add: mirror_bb_ops bb_popcount_mirror)
  note eqs = heir_developed_sum_mirror [OF a] total heir_pawn_counts_mirror [OF m a] mirror_board_simps(6,7) color_opposite_opposite
  show ?thesis
    using heir_contextsD(3) [OF m] a
  proof (cases rule: squares_mirror_cases)
    case 1
    then have "(0 \<le> ctx_queen_sq ctx (color_opposite c)) = False" "(0 \<le> ctx_queen_sq ctx' c) = False" by simp_all
    then show ?thesis unfolding heir_queen_sortie_def Let_def by (simp only: simp_thms if_False)
  next
    case q: 2
    show ?thesis
      using heir_contextsD(2) [OF m] a
    proof (cases rule: squares_mirror_cases)
      case 1
      then have "(0 \<le> ctx_king_sq ctx (color_opposite c)) = False" "(0 \<le> ctx_king_sq ctx' c) = False" by simp_all
      then show ?thesis unfolding heir_queen_sortie_def Let_def by (simp only: simp_thms if_False)
    next
      case 2
      let ?q = "ctx_queen_sq ctx (color_opposite c)"
      have row: "(if c = WHITE then SQ_ROW (mirror ?q) else 7 - SQ_ROW (mirror ?q)) =
          (if color_opposite c = WHITE then SQ_ROW ?q else 7 - SQ_ROW ?q)"
        "SQ_ROW (mirror ?q) \<noteq> (if c = WHITE then 0 else 7) \<longleftrightarrow> SQ_ROW ?q \<noteq> (if color_opposite c = WHITE then 0 else 7)"
        using a q(1) by auto
      have pos: "(0 \<le> mirror ?q) = True" "(0 \<le> ?q) = True"
        "(0 \<le> mirror (ctx_king_sq ctx (color_opposite c))) = True" "(0 \<le> ctx_king_sq ctx (color_opposite c)) = True"
        using q(1) 2(1) by (auto dest: valid_nonneg mirror_valid)
      show ?thesis
        unfolding heir_queen_sortie_def Let_def eqs q(2) 2(2) row pos chebyshev_mirror [OF q(1) 2(1)]
          board_square_attacked_mirror [OF q(1) a] board_square_attacked_mirror [OF q(1) opposite_mem [OF a]]
        by (simp only: color_opposite_opposite)
    qed
  qed
qed

lemma heir_development_term_mirror:
  assumes m: "heir_contexts b ctx ctx'" and a: "c \<in> {WHITE, BLACK}"
  shows "heir_development (mirror_board b) ctx' c = heir_development b ctx (color_opposite c)"
proof -
  have "sum_list (map (\<lambda>t. bb_sum (heir_officer (mirror_board b) ctx' c t) (pieces (mirror_board b) c t)) officers) =
      sum_list (map (\<lambda>t. bb_sum (heir_officer b ctx (color_opposite c) t) (pieces b (color_opposite c) t)) officers)"
    by (rule officer_sum_mirror) (rule heir_officer_term_mirror [OF m a])
  then show ?thesis
    unfolding heir_development_def Let_def
    by (simp only: heir_developed_sum_mirror [OF a] heir_sortie_term_mirror [OF m a] heir_f_block_mirror [OF a] heir_pawn_counts_mirror [OF m a]
        mirror_board_simps(6,7) color_opposite_opposite)
qed

lemma heir_side_term_mirror:
  "heir_contexts b ctx ctx' \<Longrightarrow> c \<in> {WHITE, BLACK} \<Longrightarrow> heir_side (mirror_board b) ctx' c = heir_side b ctx (color_opposite c)"
  unfolding heir_side_def by (simp only: heir_pawns_term_mirror heir_king_term_mirror heir_target_term_mirror heir_race_term_mirror heir_development_term_mirror)

lemma eval_heir_mirror:
  assumes m: "heir_contexts b ctx ctx'" and a: "side b \<in> {WHITE, BLACK}"
  shows "eval_heir (mirror_board b) ctx' = - eval_heir b ctx"
proof -
  have "both_sides (heir_side (mirror_board b) ctx') = - both_sides (heir_side b ctx)"
    by (rule both_sides_mirrorI) (rule heir_side_term_mirror [OF m])
  then show ?thesis unfolding eval_heir_def mirror_board_simps pov_opposite [OF a] by simp
qed

end
