(* ===== verification/EvalTruce.thy ===== *)
theory EvalTruce
  imports EvalFriendlyFire EvalSaveQueen
begin

text \<open>
  The Truce terms, \<open>eval/eval_truce.c\<close>, which apply while the truce holds: development, centre and
  space, outposts, the bishops' diagonals, rook files, pawn chains, the king's preparation and the
  vulnerability of pieces that stand attacked when the truce ends.
\<close>

section \<open>Terms of the evaluation\<close>

definition truce_start_pawn_harassers :: "Board \<Rightarrow> Color \<Rightarrow> Square \<Rightarrow> int" where
  "truce_start_pawn_harassers b bishop_side sq =
     (let opp = color_opposite bishop_side;
          target_rank = (if opp = WHITE then 3 else 4);
          start_rank = (if opp = WHITE then 1 else 6);
          fl = SQ_COL sq
      in if SQ_ROW sq \<noteq> target_rank then 0
         else (if fl > 0 \<and> BB_HAS (pieces b opp PAWN) (SQ start_rank (fl - 1)) then 1 else 0) +
              (if fl < 7 \<and> BB_HAS (pieces b opp PAWN) (SQ start_rank (fl + 1)) then 1 else 0))"

definition truce_developed :: "Board \<Rightarrow> Color \<Rightarrow> PieceType \<Rightarrow> Square \<Rightarrow> int" where
  "truce_developed b c t sq =
     (let back_rank = (if c = WHITE then 0 else 7); early_truce = (fullmove b \<le> 6) in
      if SQ_ROW sq \<noteq> back_rank then
        (if t = KNIGHT \<or> t = BISHOP then 15
         else if t = ROOK then 8
         else if early_truce then - 10
         else 5)
      else if t = KNIGHT \<or> t = BISHOP then - 10 else 0)"

definition truce_development :: "Board \<Rightarrow> Color \<Rightarrow> int" where
  "truce_development b c =
     (let back_rank = (if c = WHITE then 0 else 7);
          developed_count = sum_list (map (\<lambda>t. bb_sum (\<lambda>sq. if SQ_ROW sq \<noteq> back_rank then 1 else 0) (pieces b c t)) officers)
      in sum_list (map (\<lambda>t. bb_sum (truce_developed b c t) (pieces b c t)) officers) +
         (if developed_count \<ge> 3 then 12 else 0) +
         (if developed_count \<ge> 5 then 8 else 0))"

definition center4 :: Bitboard where
  "center4 = BB_SQ (SQ 3 3) OR BB_SQ (SQ 3 4) OR BB_SQ (SQ 4 3) OR BB_SQ (SQ 4 4)"

definition ext_center :: Bitboard where
  "ext_center =
     BB_SQ (SQ 2 2) OR BB_SQ (SQ 2 3) OR BB_SQ (SQ 2 4) OR BB_SQ (SQ 2 5) OR
     BB_SQ (SQ 3 2) OR BB_SQ (SQ 3 5) OR BB_SQ (SQ 4 2) OR BB_SQ (SQ 4 5) OR
     BB_SQ (SQ 5 2) OR BB_SQ (SQ 5 3) OR BB_SQ (SQ 5 4) OR BB_SQ (SQ 5 5)"

definition truce_center :: "Board \<Rightarrow> Color \<Rightarrow> int" where
  "truce_center b c = bb_popcount (occupied b c AND center4) * 20 + bb_popcount (occupied b c AND ext_center) * 8"

text \<open>The rows ahead of a square, seen by its side.\<close>

definition ahead_mask :: "Color \<Rightarrow> Square \<Rightarrow> Bitboard" where
  "ahead_mask c sq =
     fold (\<lambda>r acc. fold (\<lambda>fc acc. acc OR BB_SQ (SQ r fc)) [0..7] acc)
       (if c = WHITE then [SQ_ROW sq + 1..7] else [0..SQ_ROW sq - 1]) BB_EMPTY"

definition truce_outpost :: "Board \<Rightarrow> Color \<Rightarrow> Square \<Rightarrow> int" where
  "truce_outpost b c sq =
     (let opp = color_opposite c; rank = (if c = WHITE then SQ_ROW sq else 7 - SQ_ROW sq); col = SQ_COL sq in
      if rank \<ge> 3 \<and> rank \<le> 5 then
        let pawn_row = (if c = WHITE then SQ_ROW sq - 1 else SQ_ROW sq + 1);
            supported = (pawn_row \<ge> 0 \<and> pawn_row < 8 \<and>
              (col > 0 \<and> BB_HAS (pieces b c PAWN) (SQ pawn_row (col - 1)) \<or>
               col < 7 \<and> BB_HAS (pieces b c PAWN) (SQ pawn_row (col + 1))));
            no_enemy_pawn_attack = (pieces b opp PAWN AND adjacent_files col AND ahead_mask c sq = 0)
        in 15 + (if supported then 12 else 0) + (if no_enemy_pawn_attack then 10 else 0) +
           (if col \<ge> 2 \<and> col \<le> 5 then 8 else 0)
      else 0)"

definition long_diag_1 :: Bitboard where
  "long_diag_1 =
     BB_SQ (SQ 0 0) OR BB_SQ (SQ 1 1) OR BB_SQ (SQ 2 2) OR BB_SQ (SQ 3 3) OR
     BB_SQ (SQ 4 4) OR BB_SQ (SQ 5 5) OR BB_SQ (SQ 6 6) OR BB_SQ (SQ 7 7)"

definition long_diag_2 :: Bitboard where
  "long_diag_2 =
     BB_SQ (SQ 0 7) OR BB_SQ (SQ 1 6) OR BB_SQ (SQ 2 5) OR BB_SQ (SQ 3 4) OR
     BB_SQ (SQ 4 3) OR BB_SQ (SQ 5 2) OR BB_SQ (SQ 6 1) OR BB_SQ (SQ 7 0)"

text \<open>The guard on an early bishop on h3, which the source has for Black alone.\<close>

definition truce_h3_motif :: "Board \<Rightarrow> Color \<Rightarrow> Square \<Rightarrow> bool" where
  "truce_h3_motif b c sq \<longleftrightarrow>
     c = BLACK \<and> fullmove b \<le> 8 \<and> sq = SQ 2 7 \<and>
     BB_HAS (pieces b BLACK PAWN) (SQ 6 7) \<and> BB_HAS (pieces b WHITE PAWN) (SQ 2 6) \<and> BB_HAS (pieces b WHITE PAWN) (SQ 1 7)"

definition truce_bishop :: "Board \<Rightarrow> Color \<Rightarrow> Square \<Rightarrow> int" where
  "truce_bishop b c sq =
     (let diag_atk = bishop_attacks_calc sq (all_bb b);
          harassers = truce_start_pawn_harassers b c sq
      in bb_popcount (diag_atk AND (center4 OR ext_center)) * 4 +
         (if BB_HAS long_diag_1 sq \<or> BB_HAS long_diag_2 sq then 8 else 0) -
         (if harassers > 0 then harassers * 10 + (if harassers \<ge> 2 then 4 else 0) else 0) -
         (if truce_h3_motif b c sq then 90 else 0))"

definition truce_rook :: "Board \<Rightarrow> Color \<Rightarrow> Square \<Rightarrow> int" where
  "truce_rook b c sq =
     (let opp = color_opposite c;
          fl = file_bb (SQ_COL sq);
          own_p = (pieces b c PAWN AND fl \<noteq> 0);
          opp_p = (pieces b opp PAWN AND fl \<noteq> 0);
          sev_rank = (if c = WHITE then 6 else 1)
      in (if \<not> own_p \<and> \<not> opp_p then 20 else if \<not> own_p then 12 else 0) +
         (if SQ_ROW sq = sev_rank then 15 else 0))"

definition truce_rook_pair :: "Board \<Rightarrow> Color \<Rightarrow> int" where
  "truce_rook_pair b c =
     (let rooks = pieces b c ROOK in
      if bb_popcount rooks \<ge> 2 then
        let (r1, rtmp) = bb_pop_lsb rooks; (r2, rtmp) = bb_pop_lsb rtmp in
        (if SQ_COL r1 = SQ_COL r2 \<or> SQ_ROW r1 = SQ_ROW r2 then 15 else 0)
      else 0)"

definition truce_space :: "EvalContext \<Rightarrow> Color \<Rightarrow> Square \<Rightarrow> int" where
  "truce_space ctx c sq =
     (let rank = (if c = WHITE then SQ_ROW sq else 7 - SQ_ROW sq) in
      if rank \<ge> 4 then
        (if BB_HAS (ctx_pawn_atk ctx (color_opposite c)) sq then - 5
         else 12 + (if rank \<ge> 5 then 8 else 0))
      else 0)"

definition truce_pawn_chain :: "Board \<Rightarrow> Color \<Rightarrow> int" where
  "truce_pawn_chain b c =
     (let pawns = pieces b c PAWN;
          connected = bb_count (\<lambda>sq. pawns AND adjacent_files (SQ_COL sq) \<noteq> 0) pawns;
          isolated_cnt = bb_count (\<lambda>sq. \<not> pawns AND adjacent_files (SQ_COL sq) \<noteq> 0) pawns
      in connected * 5 - isolated_cnt * 10)"

definition truce_pawn_space :: "EvalContext \<Rightarrow> Color \<Rightarrow> Square \<Rightarrow> int" where
  "truce_pawn_space ctx c sq =
     (let rank = (if c = WHITE then SQ_ROW sq else 7 - SQ_ROW sq) in
      if rank \<ge> 3 then
        8 + (if \<not> BB_HAS (ctx_pawn_atk ctx (color_opposite c)) sq then 4 else 0) + (if rank \<ge> 4 then 4 else 0)
      else 0)"

definition advanced_file :: "Board \<Rightarrow> Color \<Rightarrow> int \<Rightarrow> bool" where
  "advanced_file b c fl =
     list_ex (\<lambda>sq. (if c = WHITE then SQ_ROW sq else 7 - SQ_ROW sq) \<ge> 3 \<and> SQ_COL sq \<ge> 2 \<and> SQ_COL sq \<le> 5 \<and> SQ_COL sq = fl)
       (bb_squares (pieces b c PAWN))"

definition truce_pawn_front :: "Board \<Rightarrow> Color \<Rightarrow> int" where
  "truce_pawn_front b c =
     (let adv = advanced_file b c in
      (if adv 3 \<and> adv 4 then 22 else 0) + (if adv 2 \<and> adv 3 then 10 else 0) + (if adv 4 \<and> adv 5 then 10 else 0) +
      (if adv 3 \<and> adv 4 \<and> (adv 2 \<or> adv 5) then 10 else 0))"

definition truce_king :: "Board \<Rightarrow> Color \<Rightarrow> int" where
  "truce_king b c =
     (let kbb = pieces b c KING in
      if kbb \<noteq> 0 then
        let ksq = bb_lsb kbb; kc = SQ_COL ksq in
        (if kc \<le> 2 \<or> kc \<ge> 6 then 18 else 0) - (if kc \<ge> 3 \<and> kc \<le> 4 then 12 else 0) + pawn_shield b c ksq * 10
      else 0)"

definition truce_harmony :: "Board \<Rightarrow> Color \<Rightarrow> int" where
  "truce_harmony b c =
     (let back_rank = (if c = WHITE then 0 else 7);
          piece_types_developed =
            fold (\<lambda>t acc. if list_ex (\<lambda>sq. SQ_ROW sq \<noteq> back_rank) (bb_squares (pieces b c t)) then acc OR push_bit (type_val t) 1 else acc)
              officers BB_EMPTY
      in bb_popcount piece_types_developed * 8)"

definition VULN_PENALTY :: "int list" where
  "VULN_PENALTY = [15, 55, 55, 85, 150, 0]"

definition VULN_DEFENDED :: "int list" where
  "VULN_DEFENDED = [5, 20, 20, 30, 50, 0]"

definition truce_vulnerability :: "EvalContext \<Rightarrow> Bitboard \<Rightarrow> Bitboard \<Rightarrow> Color \<Rightarrow> PieceType \<Rightarrow> Square \<Rightarrow> int" where
  "truce_vulnerability ctx opp_all_atk own_all_def c t sq =
     (if \<not> BB_HAS opp_all_atk sq then 0
      else
        let defended = BB_HAS own_all_def sq;
            pawn_attacked = BB_HAS (ctx_pawn_atk ctx (color_opposite c)) sq
        in (if defended then VULN_DEFENDED ! type_val t else VULN_PENALTY ! type_val t) +
           (if pawn_attacked \<and> KNIGHT \<le> t then 20 else 0))"

definition truce_side :: "Board \<Rightarrow> EvalContext \<Rightarrow> Color \<Rightarrow> int" where
  "truce_side b ctx c =
     (let opp_all_atk = cover_map b ctx (color_opposite c);
          own_all_def = cover_map b ctx c
      in truce_development b c + truce_center b c +
         bb_sum (truce_outpost b c) (pieces b c KNIGHT) +
         (if ctx_bishop_count ctx c \<ge> 2 then 25 else 0) +
         bb_sum (truce_bishop b c) (pieces b c BISHOP) +
         bb_sum (truce_rook b c) (pieces b c ROOK) +
         truce_rook_pair b c +
         sum_list (map (\<lambda>t. bb_sum (truce_space ctx c) (pieces b c t)) officers) +
         truce_pawn_chain b c +
         bb_sum (truce_pawn_space ctx c) (pieces b c PAWN) + truce_pawn_front b c +
         truce_king b c + truce_harmony b c -
         sum_list (map (\<lambda>t. bb_sum (truce_vulnerability ctx opp_all_atk own_all_def c t) (pieces b c t)) (PAWN # officers)))"

definition eval_truce :: "Board \<Rightarrow> EvalContext \<Rightarrow> int" where
  "eval_truce b ctx = both_sides (truce_side b ctx) + pov (side b) 15"


section \<open>Exchanging the colours\<close>

text \<open>The constant masks are mapped to themselves, the two long diagonals to each other.\<close>

lemma mirror_BB_SQ: "on_board r c \<Longrightarrow> mirror_bb (BB_SQ (SQ r c)) = BB_SQ (SQ (7 - r) c)"
  using mirror_bb_SQ [OF on_board_SQ(2)] mirror_SQ by simp

lemma center_mirror:
  "mirror_bb center4 = center4" "mirror_bb ext_center = ext_center" "mirror_bb long_diag_1 = long_diag_2"
  unfolding center4_def ext_center_def long_diag_1_def long_diag_2_def mirror_bb_ops(2) [symmetric]
  by (simp_all add: mirror_BB_SQ on_board_def ac_simps del: BB_SQ_def SQ_def)

lemma center_and_mirror:
  "mirror_bb v AND center4 = mirror_bb (v AND center4)" "mirror_bb v AND ext_center = mirror_bb (v AND ext_center)"
  "mirror_bb v AND (center4 OR ext_center) = mirror_bb (v AND (center4 OR ext_center))"
  by (rule mirror_mask; simp only: center_mirror mirror_bb_ops(2) [symmetric])+

lemma bit_fold_or2:
  "bit (fold (\<lambda>r acc. fold (\<lambda>k acc. acc OR g r k) ys acc) xs a) n \<longleftrightarrow> bit (a :: Bitboard) n \<or> (\<exists>r \<in> set xs. \<exists>k \<in> set ys. bit (g r k) n)"
proof (induction xs arbitrary: a)
  case (Cons r xs)
  have "bit (fold (\<lambda>k acc. acc OR g r k) ys a) n \<longleftrightarrow> bit a n \<or> (\<exists>k \<in> set ys. bit (g r k) n)" for a
    by (induction ys arbitrary: a) (auto simp: bit_or_iff)
  then show ?case by (auto simp: Cons.IH)
qed simp

lemma bit_ahead_mask:
  assumes "SQ_VALID s" "SQ_VALID t"
  shows "bit (ahead_mask c s) (nat t) \<longleftrightarrow> (if c = WHITE then SQ_ROW s < SQ_ROW t else SQ_ROW t < SQ_ROW s)"
proof -
  let ?rows = "if c = WHITE then [SQ_ROW s + 1..7] else [0..SQ_ROW s - 1]"
  have ob: "on_board r k" if "r \<in> set ?rows" "k \<in> {0..7}" for r k
    using that SQ_ROW_bounds [OF assms(1)] by (auto simp: on_board_def split: if_splits)
  have "bit (BB_SQ (SQ r k)) (nat t) \<longleftrightarrow> SQ_ROW t = r \<and> SQ_COL t = k" if "r \<in> set ?rows" "k \<in> {0..7}" for r k
    using on_board_SQ [OF ob [OF that]] assms(2) SQ_of_row_col [OF assms(2)] by (auto simp: bit_BB_SQ nat_sq_eq_iff)
  then have "bit (ahead_mask c s) (nat t) \<longleftrightarrow> (\<exists>r \<in> set ?rows. \<exists>k \<in> {0..7}. SQ_ROW t = r \<and> SQ_COL t = k)"
    unfolding ahead_mask_def bit_fold_or2 BB_EMPTY_def by auto
  also have "\<dots> \<longleftrightarrow> (if c = WHITE then SQ_ROW s < SQ_ROW t else SQ_ROW t < SQ_ROW s)"
    using SQ_ROW_bounds [OF assms(2)] SQ_COL_bounds [of t] by auto
  finally show ?thesis .
qed

lemma ahead_mask_mirror:
  assumes "SQ_VALID s" "c \<in> {WHITE, BLACK}"
  shows "ahead_mask c (mirror s) = mirror_bb (ahead_mask (color_opposite c) s)"
  by (rule mirror_eqI) (use assms in \<open>auto simp: bit_ahead_mask\<close>)

lemma truce_harassers_mirror:
  assumes "SQ_VALID s" "c \<in> {WHITE, BLACK}"
  shows "truce_start_pawn_harassers (mirror_board b) c (mirror s) = truce_start_pawn_harassers b (color_opposite c) s"
proof -
  have "BB_HAS (mirror_bb v) (SQ 6 f) \<longleftrightarrow> BB_HAS v (SQ 1 f)" "BB_HAS (mirror_bb v) (SQ 1 f) \<longleftrightarrow> BB_HAS v (SQ 6 f)"
    if "0 \<le> f" "f < 8" for v f
    using BB_HAS_mirror_SQ [of 1 f v] BB_HAS_mirror_SQ [of 6 f v] that by (simp_all add: on_board_def)
  note has = this
  from assms(2) consider "c = WHITE" | "c = BLACK" by blast
  then show ?thesis
    using SQ_COL_bounds [of s] by cases (simp_all add: assms(1) truce_start_pawn_harassers_def Let_def has cong: conj_cong)
qed

lemma truce_development_mirror:
  assumes "c \<in> {WHITE, BLACK}"
  shows "truce_development (mirror_board b) c = truce_development b (color_opposite c)"
proof -
  have bk: "SQ_ROW (mirror s) \<noteq> (if c = WHITE then 0 else 7) \<longleftrightarrow> SQ_ROW s \<noteq> (if color_opposite c = WHITE then 0 else 7)" if "SQ_VALID s" for s
    using that assms by auto
  have "sum_list (map (\<lambda>t. bb_sum (\<lambda>sq. if SQ_ROW sq \<noteq> (if c = WHITE then 0 else 7) then 1 else 0) (pieces (mirror_board b) c t)) officers) =
      sum_list (map (\<lambda>t. bb_sum (\<lambda>sq. if SQ_ROW sq \<noteq> (if color_opposite c = WHITE then 0 else 7) then 1 else 0) (pieces b (color_opposite c) t)) officers)"
    by (rule officer_sum_mirror) (simp only: bk)
  moreover have "sum_list (map (\<lambda>t. bb_sum (truce_developed (mirror_board b) c t) (pieces (mirror_board b) c t)) officers) =
      sum_list (map (\<lambda>t. bb_sum (truce_developed b (color_opposite c) t) (pieces b (color_opposite c) t)) officers)"
    by (rule officer_sum_mirror) (simp only: truce_developed_def Let_def bk mirror_board_simps)
  ultimately show ?thesis unfolding truce_development_def Let_def by (simp only:)
qed

lemma truce_outpost_mirror:
  assumes "SQ_VALID s" "c \<in> {WHITE, BLACK}"
  shows "truce_outpost (mirror_board b) c (mirror s) = truce_outpost b (color_opposite c) s"
proof -
  let ?p = "if color_opposite c = WHITE then SQ_ROW s - 1 else SQ_ROW s + 1"
  have row: "(if c = WHITE then SQ_ROW (mirror s) else 7 - SQ_ROW (mirror s)) = (if color_opposite c = WHITE then SQ_ROW s else 7 - SQ_ROW s)"
    "(if c = WHITE then SQ_ROW (mirror s) - 1 else SQ_ROW (mirror s) + 1) = 7 - ?p"
    using assms by auto
  have mask: "mirror_bb v AND adjacent_files (SQ_COL s) AND mirror_bb w = mirror_bb (v AND adjacent_files (SQ_COL s) AND w)" for v w
    using file_mask_mirror(2) [of "SQ_COL s" v] SQ_COL_bounds [of s] by (simp add: and.assoc [symmetric] mirror_bb_ops)
  show ?thesis
    unfolding truce_outpost_def Let_def row mirror_col [OF assms(1)] ahead_mask_mirror [OF assms] mirror_board_simps mask mirror_bb_eq_0
      flank_mirror [OF SQ_COL_bounds] color_opposite_opposite by (rule refl)
qed

lemma truce_bishop_mirror:
  assumes "SQ_VALID s" "c \<in> {WHITE, BLACK}"
  shows "truce_bishop (mirror_board b) c (mirror s) + (if truce_h3_motif (mirror_board b) c (mirror s) then 90 else 0) =
    truce_bishop b (color_opposite c) s + (if truce_h3_motif b (color_opposite c) s then 90 else 0)"
proof -
  have d: "BB_HAS long_diag_1 (mirror s) = BB_HAS long_diag_2 s" "BB_HAS long_diag_2 (mirror s) = BB_HAS long_diag_1 s"
    using BB_HAS_mirror [OF assms(1), of long_diag_1] BB_HAS_mirror [OF mirror_valid [OF assms(1)], of long_diag_1]
    by (simp_all add: center_mirror mirror_mirror)
  have "(BB_HAS long_diag_1 (mirror s) \<or> BB_HAS long_diag_2 (mirror s)) = (BB_HAS long_diag_1 s \<or> BB_HAS long_diag_2 s)"
    unfolding d by blast
  then show ?thesis
    unfolding truce_bishop_def Let_def truce_harassers_mirror [OF assms]
    by (simp add: slider_mirror [OF assms(1)] center_and_mirror bb_popcount_mirror)
qed

lemma truce_rook_mirror:
  assumes "SQ_VALID s" "c \<in> {WHITE, BLACK}"
  shows "truce_rook (mirror_board b) c (mirror s) = truce_rook b (color_opposite c) s"
  using assms SQ_COL_bounds [of s] by (auto simp: truce_rook_def Let_def file_mask_mirror mirror_bb_eq_0)

text \<open>Two rooks on one line are the same two after the exchange; of three, the source looks at the first two only.\<close>

lemma pop_two:
  assumes "bb_popcount v = 2"
  obtains x y v' v'' where "bb_pop_lsb v = (x, v')" "bb_pop_lsb v' = (y, v'')" "set (bb_squares v) = {x, y}" "x \<noteq> y"
proof -
  obtain x v' y v'' where *: "bb_pop_lsb v = (x, v')" "bb_pop_lsb v' = (y, v'')" by (meson surj_pair)
  have "length (bb_squares v) = 2" using assms by (simp add: bb_popcount_length)
  then have "bb_squares v = [x, y]"
    using * by (subst (asm) bb_squares.simps, subst bb_squares.simps, cases "v = 0"; cases "v' = 0")
      (auto simp: bb_squares.simps [of v'] split: if_splits)
  then show ?thesis using that [OF *] distinct_bb_squares [of v] by simp
qed

lemma truce_rook_pair_mirror:
  assumes "bb_popcount (pieces b (color_opposite c) ROOK) \<le> 2"
  shows "truce_rook_pair (mirror_board b) c = truce_rook_pair b (color_opposite c)"
proof (cases "bb_popcount (pieces b (color_opposite c) ROOK) = 2")
  case True
  let ?v = "pieces b (color_opposite c) ROOK"
  obtain x y v' v'' where v: "bb_pop_lsb ?v = (x, v')" "bb_pop_lsb v' = (y, v'')" "set (bb_squares ?v) = {x, y}" "x \<noteq> y"
    by (rule pop_two [OF True])
  have "bb_popcount (mirror_bb ?v) = 2" using True by (simp add: bb_popcount_mirror)
  then obtain p q w' w'' where w: "bb_pop_lsb (mirror_bb ?v) = (p, w')" "bb_pop_lsb w' = (q, w'')"
      "set (bb_squares (mirror_bb ?v)) = {p, q}" "p \<noteq> q"
    by (rule pop_two)
  have valid: "SQ_VALID x" "SQ_VALID y" using v(3) bb_squares_valid [of _ ?v] by auto
  have "{p, q} = {mirror x, mirror y}" using v(3) w(3) by (simp add: set_bb_squares_mirror)
  then have "p = mirror x \<and> q = mirror y \<or> p = mirror y \<and> q = mirror x" by (auto simp: doubleton_eq_iff)
  then have "SQ_COL p = SQ_COL q \<or> SQ_ROW p = SQ_ROW q \<longleftrightarrow> SQ_COL x = SQ_COL y \<or> SQ_ROW x = SQ_ROW y"
    using valid by auto
  then show ?thesis using v w by (simp add: truce_rook_pair_def Let_def bb_popcount_mirror)
next
  case False
  then show ?thesis using assms by (simp add: truce_rook_pair_def Let_def bb_popcount_mirror)
qed

lemma truce_pawn_terms_mirror:
  assumes "ctx_mirror ctx ctx'" "c \<in> {WHITE, BLACK}" "SQ_VALID s"
  shows "truce_space ctx' c (mirror s) = truce_space ctx (color_opposite c) s"
    "truce_pawn_space ctx' c (mirror s) = truce_pawn_space ctx (color_opposite c) s"
proof -
  have c': "color_opposite c \<in> {WHITE, BLACK}" using assms(2) by auto
  have row: "(if c = WHITE then SQ_ROW (mirror s) else 7 - SQ_ROW (mirror s)) = (if color_opposite c = WHITE then SQ_ROW s else 7 - SQ_ROW s)"
    using assms(2,3) by auto
  show "truce_space ctx' c (mirror s) = truce_space ctx (color_opposite c) s"
    "truce_pawn_space ctx' c (mirror s) = truce_pawn_space ctx (color_opposite c) s"
    unfolding truce_space_def truce_pawn_space_def Let_def row ctx_mirrorD(7) [OF assms(1) c'] BB_HAS_mirror [OF assms(3)] by (rule refl)+
qed

lemma truce_pawn_chain_mirror: "truce_pawn_chain (mirror_board b) c = truce_pawn_chain b (color_opposite c)"
proof -
  have m: "mirror_bb v AND adjacent_files (SQ_COL s) \<noteq> 0 \<longleftrightarrow> v AND adjacent_files (SQ_COL s) \<noteq> 0" for v s
    using file_mask_mirror(2) [of "SQ_COL s" v] SQ_COL_bounds [of s] by (simp add: mirror_bb_eq_0)
  have "bb_count (\<lambda>sq. mirror_bb v AND adjacent_files (SQ_COL sq) \<noteq> 0) (mirror_bb v) = bb_count (\<lambda>sq. v AND adjacent_files (SQ_COL sq) \<noteq> 0) v"
    "bb_count (\<lambda>sq. \<not> mirror_bb v AND adjacent_files (SQ_COL sq) \<noteq> 0) (mirror_bb v) = bb_count (\<lambda>sq. \<not> v AND adjacent_files (SQ_COL sq) \<noteq> 0) v" for v
    by (rule bb_count_mirrorI, simp only: m mirror_col)+
  then show ?thesis unfolding truce_pawn_chain_def Let_def mirror_board_simps by (simp only:)
qed

lemma truce_pawn_front_mirror:
  assumes "c \<in> {WHITE, BLACK}"
  shows "truce_pawn_front (mirror_board b) c = truce_pawn_front b (color_opposite c)"
proof -
  have "advanced_file (mirror_board b) c f = advanced_file b (color_opposite c) f" for f
    unfolding advanced_file_def mirror_board_simps by (rule list_ex_mirrorI) (use assms in auto)
  then show ?thesis unfolding truce_pawn_front_def Let_def by (simp only:)
qed

lemma truce_king_mirror:
  assumes "one_king b" "c \<in> {WHITE, BLACK}"
  shows "truce_king (mirror_board b) c = truce_king b (color_opposite c)"
proof (cases "pieces b (color_opposite c) KING = 0")
  case True
  then show ?thesis by (simp add: truce_king_def mirror_bb_eq_0)
next
  case False
  have "color_opposite c \<in> {WHITE, BLACK}" using assms(2) by auto
  note k = king_lsb_mirror [OF assms(1) this False]
  show ?thesis
    using assms(2) by (simp add: truce_king_def Let_def mirror_bb_eq_0 False k pawn_shield_mirror)
qed

lemma truce_harmony_mirror:
  assumes "c \<in> {WHITE, BLACK}"
  shows "truce_harmony (mirror_board b) c = truce_harmony b (color_opposite c)"
proof -
  have "list_ex (\<lambda>sq. SQ_ROW sq \<noteq> (if c = WHITE then 0 else 7)) (bb_squares (mirror_bb v)) =
      list_ex (\<lambda>sq. SQ_ROW sq \<noteq> (if color_opposite c = WHITE then 0 else 7)) (bb_squares v)" for v
    by (rule list_ex_mirrorI) (use assms in auto)
  then show ?thesis unfolding truce_harmony_def Let_def mirror_board_simps by (simp only:)
qed

lemma truce_vulnerability_mirror:
  assumes "ctx_mirror ctx ctx'" "c \<in> {WHITE, BLACK}" "SQ_VALID s"
  shows "truce_vulnerability ctx' (mirror_bb v) (mirror_bb w) c t (mirror s) = truce_vulnerability ctx v w (color_opposite c) t s"
proof -
  have c': "color_opposite c \<in> {WHITE, BLACK}" using assms(2) by auto
  show ?thesis
    unfolding truce_vulnerability_def Let_def BB_HAS_mirror [OF assms(3)] ctx_mirrorD(7) [OF assms(1) c'] color_opposite_opposite by (rule refl)
qed

text \<open>
  What the guard on the bishop on h3 costs Black.  White has no such guard, so this is by how much the
  terms fail to treat both sides alike.
\<close>

definition truce_h3_guard :: "Board \<Rightarrow> int" where
  "truce_h3_guard b = (if BB_HAS (pieces b BLACK BISHOP) (SQ 2 7) \<and> truce_h3_motif b BLACK (SQ 2 7) then 90 else 0)"

abbreviation truce_guard :: "Board \<Rightarrow> Color \<Rightarrow> int" where
  "truce_guard b c \<equiv> if c = BLACK then truce_h3_guard b else 0"

lemma truce_guard_sum:
  "bb_sum (\<lambda>s. if truce_h3_motif b c s then 90 else 0) (pieces b c BISHOP) = truce_guard b c"
proof -
  have "truce_h3_motif b c s \<longleftrightarrow> s = SQ 2 7 \<and> truce_h3_motif b c (SQ 2 7)" for s
    by (auto simp: truce_h3_motif_def)
  moreover have "SQ_VALID (SQ 2 7)" by (simp add: SQ_def SQ_VALID_def)
  then have "SQ 2 7 \<in> set (bb_squares (pieces b c BISHOP)) \<longleftrightarrow> BB_HAS (pieces b c BISHOP) (SQ 2 7)"
    by (simp add: set_bb_squares BB_HAS_bit)
  ultimately show ?thesis
    unfolding bb_sum_set
    by (subst sum.cong [OF refl, where h = "\<lambda>s. if s = SQ 2 7 then if truce_h3_motif b c (SQ 2 7) then 90 else 0 else 0"])
      (auto simp: truce_h3_guard_def truce_h3_motif_def)
qed

lemma truce_bishops_mirror:
  assumes "c \<in> {WHITE, BLACK}"
  shows "bb_sum (truce_bishop (mirror_board b) c) (mirror_bb (pieces b (color_opposite c) BISHOP)) =
    bb_sum (truce_bishop b (color_opposite c)) (pieces b (color_opposite c) BISHOP) +
    truce_guard b (color_opposite c) - truce_guard (mirror_board b) c"
proof -
  let ?v = "pieces b (color_opposite c) BISHOP"
  have split: "bb_sum (\<lambda>s. f s + g s) v = bb_sum f v + bb_sum g v" for f g :: "Square \<Rightarrow> int" and v
    by (simp add: bb_sum_set sum.distrib)
  have "pieces (mirror_board b) c BISHOP = mirror_bb ?v" by (simp only: mirror_board_simps)
  from truce_guard_sum [of "mirror_board b" c, unfolded this] truce_guard_sum [of b "color_opposite c"]
    bb_sum_mirrorI [where f = "\<lambda>s. truce_bishop (mirror_board b) c s + (if truce_h3_motif (mirror_board b) c s then 90 else 0)"
      and g = "\<lambda>s. truce_bishop b (color_opposite c) s + (if truce_h3_motif b (color_opposite c) s then 90 else 0)" and v = ?v,
      OF truce_bishop_mirror [OF _ assms]]
  show ?thesis unfolding split by simp
qed

text \<open>Two rooks at most, because the rook pair is looked for among the first two.\<close>

definition two_rooks :: "Board \<Rightarrow> bool" where
  "two_rooks b \<longleftrightarrow> bb_popcount (pieces b WHITE ROOK) \<le> 2 \<and> bb_popcount (pieces b BLACK ROOK) \<le> 2"

lemma truce_side_mirror:
  assumes fair: "two_rooks b" and k: "one_king b" and m: "ctx_mirror ctx ctx'" and c: "c \<in> {WHITE, BLACK}"
  shows "truce_side (mirror_board b) ctx' c =
    truce_side b ctx (color_opposite c) + truce_guard b (color_opposite c) - truce_guard (mirror_board b) c"
proof -
  have c': "color_opposite c \<in> {WHITE, BLACK}" using c by auto
  have rooks: "bb_popcount (pieces b (color_opposite c) ROOK) \<le> 2" using fair c by (auto simp: two_rooks_def)
  have sums: "bb_sum (truce_outpost (mirror_board b) c) (mirror_bb v) = bb_sum (truce_outpost b (color_opposite c)) v"
    "bb_sum (truce_rook (mirror_board b) c) (mirror_bb v) = bb_sum (truce_rook b (color_opposite c)) v"
    "bb_sum (truce_pawn_space ctx' c) (mirror_bb v) = bb_sum (truce_pawn_space ctx (color_opposite c)) v"
    "bb_sum (truce_space ctx' c) (mirror_bb v) = bb_sum (truce_space ctx (color_opposite c)) v"
    "bb_sum (truce_vulnerability ctx' (mirror_bb p) (mirror_bb q) c t) (mirror_bb v) = bb_sum (truce_vulnerability ctx p q (color_opposite c) t) v" for v p q t
    by (rule bb_sum_mirrorI, simp only: truce_outpost_mirror truce_rook_mirror truce_pawn_terms_mirror [OF m] truce_vulnerability_mirror [OF m] c)+
  show ?thesis
    unfolding truce_side_def Let_def truce_center_def cover_map_mirror [OF m c] cover_map_mirror [OF m c'] color_opposite_opposite
    unfolding truce_development_mirror [OF c] mirror_board_simps center_and_mirror bb_popcount_mirror sums ctx_mirrorD(6) [OF m c]
        truce_rook_pair_mirror [OF rooks] truce_pawn_chain_mirror truce_pawn_front_mirror [OF c] truce_king_mirror [OF k c]
        truce_harmony_mirror [OF c] truce_bishops_mirror [OF c]
    by (simp only: algebra_simps)
qed

lemma eval_truce_mirror:
  assumes "two_rooks b" "one_king b" "ctx_mirror ctx ctx'" "side b \<in> {WHITE, BLACK}"
  shows "eval_truce (mirror_board b) ctx' = truce_h3_guard b + truce_h3_guard (mirror_board b) - eval_truce b ctx"
proof -
  have "both_sides (truce_side (mirror_board b) ctx') =
      truce_h3_guard b + truce_h3_guard (mirror_board b) - both_sides (truce_side b ctx)"
    using truce_side_mirror [OF assms(1,2,3), of WHITE] truce_side_mirror [OF assms(1,2,3), of BLACK]
    by (simp add: both_sides_eq)
  then show ?thesis unfolding eval_truce_def mirror_board_simps pov_opposite [OF assms(4)] by simp
qed

end
