(* ===== verification/EvalKingsBattle.thy ===== *)
theory EvalKingsBattle
  imports EvalFriendlyFire EvalSaveQueen
begin

text \<open>
  The Kings Battle terms, \<open>eval/eval_kings_battle.c\<close>.  While the pieces are locked (phase 1) the
  king hunts enemy pawns and the pawns run for promotion; once they are unlocked (phase 2) the terms
  reward development and the king's shield.
\<close>

section \<open>Helper functions\<close>

text \<open>The code that runs only when a side has a king, on the square of that king.\<close>

definition with_king :: "Board \<Rightarrow> Color \<Rightarrow> 'a \<Rightarrow> (Square \<Rightarrow> 'a) \<Rightarrow> 'a" where
  "with_king b c none f = (let kbb = pieces b c KING in if kbb \<noteq> BB_EMPTY then f (bb_lsb kbb) else none)"

definition kb_phase1_forward_rank :: "Color \<Rightarrow> Square \<Rightarrow> int" where
  "kb_phase1_forward_rank c sq = (if c = WHITE then SQ_ROW sq else 7 - SQ_ROW sq)"

definition kb_phase1_promotion_distance :: "Color \<Rightarrow> Square \<Rightarrow> int" where
  "kb_phase1_promotion_distance c sq = 7 - kb_phase1_forward_rank c sq"

definition kb_phase1_passed_pawn :: "Board \<Rightarrow> Color \<Rightarrow> Square \<Rightarrow> bool" where
  "kb_phase1_passed_pawn b c sq =
     (let opp = color_opposite c; row = SQ_ROW sq; col = SQ_COL sq;
          r_start = (if c = WHITE then row + 1 else 0);
          r_end = (if c = WHITE then 8 else row)
      in list_all (\<lambda>r. list_all (\<lambda>dc. let nc = col + dc in
             nc < 0 \<or> nc > 7 \<or> \<not> BB_HAS (pieces b opp PAWN) (SQ r nc)) [-1, 0, 1]) [r_start..r_end - 1])"

definition kb_phase1_clear_promotion_lane :: "Board \<Rightarrow> Color \<Rightarrow> Square \<Rightarrow> int" where
  "kb_phase1_clear_promotion_lane b c sq =
     (let row = SQ_ROW sq; col = SQ_COL sq;
          rows = (if c = WHITE then [row + 1..7] else rev [0..row - 1])
      in int (length (takeWhile (\<lambda>r. piece_at b (SQ r col) = PIECE_EMPTY) rows)))"

definition kb_phase1_square_attacked_by_pawn_side :: "Board \<Rightarrow> Color \<Rightarrow> Square \<Rightarrow> bool" where
  "kb_phase1_square_attacked_by_pawn_side b c sq =
     (let row = SQ_ROW sq; col = SQ_COL sq; attacker_row = (if c = WHITE then row - 1 else row + 1) in
      if attacker_row < 0 \<or> attacker_row > 7 then False
      else col > 0 \<and> BB_HAS (pieces b c PAWN) (SQ attacker_row (col - 1)) \<or>
           col < 7 \<and> BB_HAS (pieces b c PAWN) (SQ attacker_row (col + 1)))"

definition kb_phase1_king_target_safe :: "Board \<Rightarrow> Color \<Rightarrow> Square \<Rightarrow> bool" where
  "kb_phase1_king_target_safe b c sq =
     (let opp = color_opposite c in
      if BB_HAS (occupied b c) sq then False
      else if kb_phase1_square_attacked_by_pawn_side b opp sq then False
      else with_king b opp True (\<lambda>opp_king_sq. \<not> chebyshev_distance_sq opp_king_sq sq \<le> 1))"

definition kb_phase1_king_can_capture_pawn :: "Board \<Rightarrow> Color \<Rightarrow> Square \<Rightarrow> Square \<Rightarrow> bool" where
  "kb_phase1_king_can_capture_pawn b c ksq pawn_sq =
     (let opp = color_opposite c in
      if chebyshev_distance_sq ksq pawn_sq \<noteq> 1 then False
      else if \<not> BB_HAS (pieces b opp PAWN) pawn_sq then False
      else kb_phase1_king_target_safe b c pawn_sq)"

definition kb_pawn_target :: "Board \<Rightarrow> Color \<Rightarrow> Square \<Rightarrow> bool" where
  "kb_pawn_target b c sq =
     (let target = piece_at b sq in target \<noteq> PIECE_EMPTY \<and> PIECE_COLOR target \<noteq> c \<and> PIECE_TYPE target = PAWN)"

definition kb_phase1_any_pawn_capture_available :: "Board \<Rightarrow> Color \<Rightarrow> bool" where
  "kb_phase1_any_pawn_capture_available b c =
     (let step = (if c = WHITE then 1 else -1) in
      list_ex (\<lambda>sq. let row = SQ_ROW sq + step; col = SQ_COL sq in
          \<not> (row < 0 \<or> row > 7) \<and>
          (col > 0 \<and> kb_pawn_target b c (SQ row (col - 1)) \<or> col < 7 \<and> kb_pawn_target b c (SQ row (col + 1))))
        (bb_squares (pieces b c PAWN)))"

definition kb_phase1_forward_corridor_blockers :: "Board \<Rightarrow> Color \<Rightarrow> Square \<Rightarrow> int \<Rightarrow> int" where
  "kb_phase1_forward_corridor_blockers b c sq max_steps =
     (let row = SQ_ROW sq; col = SQ_COL sq; step = (if c = WHITE then 1 else -1);
          rows = takeWhile (\<lambda>nr. \<not> (nr < 0 \<or> nr > 7)) (map (\<lambda>dr. row + step * dr) [1..max_steps])
      in sum_list (map (\<lambda>nr. sum_list (map (\<lambda>dc. let nc = col + dc in
           if nc < 0 \<or> nc > 7 then 0 else if BB_HAS (occupied b c) (SQ nr nc) then 1 else 0) [-1, 0, 1])) rows))"

definition kb_phase1_forward_lane_open :: "Board \<Rightarrow> Color \<Rightarrow> Square \<Rightarrow> bool" where
  "kb_phase1_forward_lane_open b c sq =
     (let forward_row = SQ_ROW sq + (if c = WHITE then 1 else -1); col = SQ_COL sq in
      if forward_row < 0 \<or> forward_row > 7 then False else \<not> BB_HAS (occupied b c) (SQ forward_row col))"

definition kb_phase1_retreat_arc_seal_count :: "Board \<Rightarrow> Color \<Rightarrow> int" where
  "kb_phase1_retreat_arc_seal_count b c =
     (let opp = color_opposite c in
      with_king b opp 0 (\<lambda>ksq.
        let opp_rank = kb_phase1_forward_rank opp ksq;
            retreat_row = SQ_ROW ksq + (if opp = WHITE then -1 else 1)
        in if opp_rank < 3 then 0
           else if retreat_row < 0 \<or> retreat_row > 7 then 0
           else sum_list (map (\<lambda>dc. let nc = SQ_COL ksq + dc; rsq = SQ retreat_row nc in
             if nc < 0 \<or> nc > 7 then 0
             else if piece_at b rsq \<noteq> PIECE_EMPTY \<or> kb_phase1_square_attacked_by_pawn_side b c rsq then 1 else 0) [-1, 0, 1])))"

definition kb_phase1_wing_drift_penalty :: "Board \<Rightarrow> Color \<Rightarrow> Square \<Rightarrow> int" where
  "kb_phase1_wing_drift_penalty b c sq =
     (let fl = SQ_COL sq; rank = kb_phase1_forward_rank c sq in
      if fl \<noteq> 0 \<and> fl \<noteq> 1 \<and> fl \<noteq> 6 \<and> fl \<noteq> 7 then 0
      else if rank < 2 \<or> rank > 3 then 0
      else if kb_phase1_passed_pawn b c sq then 0
      else if with_king b c False (\<lambda>ksq. chebyshev_distance_sq ksq sq \<le> 2) then 0
      else if with_king b (color_opposite c) False (\<lambda>enemy_king_sq. chebyshev_distance_sq enemy_king_sq sq \<le> 2) then 0
      else (if rank = 2 then 90 else 160) + (if kb_phase1_any_pawn_capture_available b c then 30 else 0))"

definition kb_phase1_connected_wall_bonus :: "Board \<Rightarrow> Color \<Rightarrow> int" where
  "kb_phase1_connected_wall_bonus b c =
     (let opp = color_opposite c in
      with_king b opp 0 (\<lambda>ksq.
        let opp_rank = kb_phase1_forward_rank opp ksq in
        if opp_rank < 4 then 0
        else bb_sum (\<lambda>sq. let row = SQ_ROW sq; col = SQ_COL sq; rank = kb_phase1_forward_rank c sq in
          if rank < 3 \<or> col \<ge> 7 then 0
          else if \<not> BB_HAS (pieces b c PAWN) (SQ row (col + 1)) then 0
          else
            let pair_dist = chebyshev_distance_sq sq ksq;
                right_dist = chebyshev_distance_sq (SQ row (col + 1)) ksq;
                pair_dist = (if right_dist < pair_dist then right_dist else pair_dist)
            in if pair_dist \<le> 2 then 1000 else if pair_dist = 3 then 320 else 0)
          (pieces b c PAWN)))"

definition kb_phase1_forward_file_clearance :: "Board \<Rightarrow> Color \<Rightarrow> Square \<Rightarrow> int \<Rightarrow> int" where
  "kb_phase1_forward_file_clearance b c sq max_steps =
     (let row = SQ_ROW sq; col = SQ_COL sq; step = (if c = WHITE then 1 else -1) in
      int (length (takeWhile (\<lambda>i. let nr = row + step * i in
        \<not> (nr < 0 \<or> nr > 7) \<and> piece_at b (SQ nr col) = PIECE_EMPTY) [1..max_steps])))"

section \<open>Phase 1\<close>

definition kb_corridor_open :: "Board \<Rightarrow> Color \<Rightarrow> int" where
  "kb_corridor_open b c =
     sum_list (map (\<lambda>fl. if \<not> BB_HAS (pieces b c PAWN) (if c = WHITE then SQ 1 fl else SQ 6 fl) then 1 else 0) [3, 4, 5])"

definition kb_enemy_king_rank :: "Board \<Rightarrow> Color \<Rightarrow> int" where
  "kb_enemy_king_rank b c = with_king b (color_opposite c) (-1) (kb_phase1_forward_rank (color_opposite c))"

definition kb_king_advance :: "Board \<Rightarrow> Color \<Rightarrow> Square \<Rightarrow> int" where
  "kb_king_advance b c ksq =
     (let king_rank = kb_phase1_forward_rank c ksq; kcol = SQ_COL ksq; corridor_open = kb_corridor_open b c in
      if king_rank = 0 then - (if fullmove b \<le> 4 then 80 else 120) - corridor_open * 30
      else king_rank * 24 + corridor_open * 10 + (if kcol \<ge> 2 \<and> kcol \<le> 5 then 18 else 0))"

text \<open>The distance to the nearest enemy pawn; 15 when there is none.\<close>

definition kb_min_dist :: "Board \<Rightarrow> Color \<Rightarrow> Square \<Rightarrow> int" where
  "kb_min_dist b c ksq =
     fold (\<lambda>ps min_dist. let dist = chebyshev_distance_sq ps ksq in if dist < min_dist then dist else min_dist)
       (bb_squares (pieces b (color_opposite c) PAWN)) 15"

definition kb_king_proximity :: "Board \<Rightarrow> Color \<Rightarrow> Square \<Rightarrow> int" where
  "kb_king_proximity b c ksq =
     (let min_dist = kb_min_dist b c ksq;
          total_prox = bb_sum (\<lambda>ps. let dist = chebyshev_distance_sq ps ksq in if dist \<le> 7 then 7 - dist else 0)
            (pieces b (color_opposite c) PAWN)
      in (if min_dist < 15 then (7 - min_dist) * 25 else 0) + total_prox * 5 -
         (if min_dist \<ge> 4 \<and> kb_phase1_forward_rank c ksq \<le> 1 then 40 else 0))"

definition kb_capturable :: "Board \<Rightarrow> Color \<Rightarrow> Square \<Rightarrow> int" where
  "kb_capturable b c ksq =
     bb_count (\<lambda>ps. chebyshev_distance_sq ps ksq = 1 \<and> kb_phase1_king_can_capture_pawn b c ksq ps) (pieces b (color_opposite c) PAWN)"

definition kb_rank_race :: "Board \<Rightarrow> Color \<Rightarrow> Square \<Rightarrow> int" where
  "kb_rank_race b c ksq =
     (let king_rank = kb_phase1_forward_rank c ksq; enemy_king_rank = kb_enemy_king_rank b c in
      if enemy_king_rank \<ge> 0 then
        (if king_rank + 1 < enemy_king_rank then - ((enemy_king_rank - king_rank - 1) * 24)
         else if king_rank > enemy_king_rank then (king_rank - enemy_king_rank) * 10
         else 0)
      else 0)"

definition kb_approach :: "Board \<Rightarrow> Color \<Rightarrow> Square \<Rightarrow> int" where
  "kb_approach b c ksq =
     bb_sum (\<lambda>ps. let dist = chebyshev_distance_sq ps ksq in if dist = 2 then 50 else if dist = 3 then 15 else 0)
       (pieces b (color_opposite c) PAWN)"

definition kb_king_mobility :: "Board \<Rightarrow> Color \<Rightarrow> Square \<Rightarrow> int" where
  "kb_king_mobility b c ksq = bb_count (kb_phase1_king_target_safe b c) (king_attacks ksq)"

definition kb_retreat_seal :: "Board \<Rightarrow> Color \<Rightarrow> int" where
  "kb_retreat_seal b c =
     (let opp = color_opposite c; retreat_seal = kb_phase1_retreat_arc_seal_count b c in
      kb_phase1_connected_wall_bonus b c +
      (if retreat_seal = 3 then 220 else if retreat_seal = 2 then 60 else 0) +
      (if retreat_seal = 3 \<and> kb_enemy_king_rank b c \<ge> 4 then
         with_king b opp 0 (\<lambda>enemy_king_sq.
           let enemy_safe_moves = bb_count (kb_phase1_king_target_safe b opp) (king_attacks enemy_king_sq);
               enemy_capturable = bb_count (kb_phase1_king_can_capture_pawn b opp enemy_king_sq) (pieces b c PAWN)
           in if enemy_capturable = 0 then 240 + (if enemy_safe_moves \<le> 2 then 180 - enemy_safe_moves * 40 else 0) else 0)
       else 0))"

definition kb_king_hunt :: "Board \<Rightarrow> Color \<Rightarrow> int" where
  "kb_king_hunt b c =
     with_king b c 0 (\<lambda>ksq.
       kb_king_advance b c ksq + kb_king_proximity b c ksq + kb_rank_race b c ksq +
       kb_capturable b c ksq * 350 + kb_approach b c ksq + kb_king_mobility b c ksq * 6 +
       (if kb_phase1_forward_lane_open b c ksq then 18 else - 10) +
       kb_phase1_forward_file_clearance b c ksq 2 * 12 -
       kb_phase1_forward_corridor_blockers b c ksq 2 * 10 +
       kb_retreat_seal b c)"

definition kb_weak_pawn :: "Board \<Rightarrow> Color \<Rightarrow> Square \<Rightarrow> int" where
  "kb_weak_pawn b c ps =
     (let opp = color_opposite c; pcol = SQ_COL ps;
          enemy_rank = kb_phase1_forward_rank opp ps;
          def_row = (if opp = WHITE then SQ_ROW ps - 1 else SQ_ROW ps + 1);
          pawn_defended = (def_row \<ge> 0 \<and> def_row < 8 \<and>
            (pcol > 0 \<and> BB_HAS (pieces b opp PAWN) (SQ def_row (pcol - 1)) \<or>
             pcol < 7 \<and> BB_HAS (pieces b opp PAWN) (SQ def_row (pcol + 1))));
          king_defended = with_king b opp False (\<lambda>oksq. chebyshev_distance_sq ps oksq \<le> 1)
      in if \<not> pawn_defended \<and> \<not> king_defended then
           40 + with_king b c 0 (\<lambda>own_ksq. let d = chebyshev_distance_sq ps own_ksq in
             (7 - d) * 12 + (if enemy_rank \<ge> 4 \<and> d \<le> 2 then 40 + (enemy_rank - 4) * 20 else 0))
         else if \<not> pawn_defended then 15 + (if enemy_rank \<ge> 5 then 12 else 0)
         else 0)"

definition KB_PASSED :: "int list" where
  "KB_PASSED = [0, 10, 22, 40, 70, 110, 165, 0]"

definition kb_own_pawn :: "Board \<Rightarrow> Color \<Rightarrow> Square \<Rightarrow> int" where
  "kb_own_pawn b c sq =
     (let opp = color_opposite c;
          rank = (if c = WHITE then SQ_ROW sq else 7 - SQ_ROW sq);
          promo_dist = kb_phase1_promotion_distance c sq;
          clear_lane = kb_phase1_clear_promotion_lane b c sq;
          enemy_king_dist = with_king b opp 8 (chebyshev_distance_sq sq)
      in (if kb_phase1_passed_pawn b c sq then
            KB_PASSED ! nat rank + clear_lane * 14 +
            (if clear_lane \<ge> promo_dist then 50 else 0) +
            (if enemy_king_dist > promo_dist + 1 then 40 + (enemy_king_dist - promo_dist) * 12 else 0) +
            with_king b c 0 (\<lambda>ksq. let d = chebyshev_distance_sq ksq sq in if d \<le> 2 then 30 else if d \<le> 3 then 12 else 0)
          else 0) -
         with_king b opp 0 (\<lambda>oksq. let d = chebyshev_distance_sq oksq sq in if d \<le> 1 then 40 else if d = 2 then 15 else 0) -
         kb_phase1_wing_drift_penalty b c sq)"

definition kb_phase1_side :: "Board \<Rightarrow> EvalContext \<Rightarrow> Color \<Rightarrow> int" where
  "kb_phase1_side b ctx c =
     kb_king_hunt b c +
     bb_sum (kb_weak_pawn b c) (pieces b (color_opposite c) PAWN) +
     ctx_pawn_count ctx c * 15 +
     bb_sum (kb_own_pawn b c) (pieces b c PAWN)"

section \<open>Phase 2\<close>

definition kb_queen_threat :: "Board \<Rightarrow> Color \<Rightarrow> Square \<Rightarrow> int \<Rightarrow> int" where
  "kb_queen_threat b c ksq shield =
     (let qbb = pieces b (color_opposite c) QUEEN in
      if qbb \<noteq> BB_EMPTY then
        let qsq = bb_lsb qbb; queen_dist = chebyshev_distance_sq ksq qsq in
        (if queen_dist \<le> 4 then (5 - queen_dist) * 36 else 0) +
        (if shield = 0 then 42 else if shield = 1 then 16 else 0) +
        (if \<bar>SQ_COL ksq - SQ_COL qsq\<bar> \<le> 2 then 18 else 0)
      else 0)"

definition kb_phase2_side :: "Board \<Rightarrow> Color \<Rightarrow> int" where
  "kb_phase2_side b c =
     sum_list (map (\<lambda>t. bb_popcount (pieces b c t) * 18) officers) +
     (let bk = (if c = WHITE then 0 else 7) in
      sum_list (map (\<lambda>t. bb_sum (\<lambda>sq. if SQ_ROW sq = bk then - 2 else 8) (pieces b c t)) officers)) +
     with_king b c 0 (\<lambda>ksq. let shield = bb_popcount (pieces b c PAWN AND king_attacks ksq) in
       shield * 18 - kb_queen_threat b c ksq shield)"

definition kb_side :: "Board \<Rightarrow> EvalContext \<Rightarrow> Color \<Rightarrow> int" where
  "kb_side b ctx c = (if \<not> kb_unlocked b then kb_phase1_side b ctx c else kb_phase2_side b c)"

definition eval_kings_battle :: "Board \<Rightarrow> EvalContext \<Rightarrow> int" where
  "eval_kings_battle b ctx = both_sides (kb_side b ctx) + pov (side b) 12"

section \<open>Passed pawns\<close>

lemma kb_phase1_passed_pawn_passed: "kb_phase1_passed_pawn b c s \<longleftrightarrow> pawn_passed b c s"
  by (auto simp: kb_phase1_passed_pawn_def pawn_passed_def Let_def list_ex_iff list_all_iff)

section \<open>Exchanging the colours\<close>

lemma with_king_mirror:
  assumes "one_king b" "c \<in> {WHITE, BLACK}" "\<And>k. SQ_VALID k \<Longrightarrow> f (mirror k) = g k"
  shows "with_king (mirror_board b) c x f = with_king b (color_opposite c) x g"
proof (cases "pieces b (color_opposite c) KING = 0")
  case True
  then show ?thesis by (simp add: with_king_def BB_EMPTY_def mirror_bb_eq_0)
next
  case False
  have "color_opposite c \<in> {WHITE, BLACK}" using assms(2) by auto
  note k = king_lsb_mirror [OF assms(1) this False]
  show ?thesis by (simp add: with_king_def BB_EMPTY_def mirror_bb_eq_0 k assms(3))
qed

lemma kb_rank_mirror:
  assumes "SQ_VALID s" "c \<in> {WHITE, BLACK}"
  shows "kb_phase1_forward_rank c (mirror s) = kb_phase1_forward_rank (color_opposite c) s"
    "kb_phase1_promotion_distance c (mirror s) = kb_phase1_promotion_distance (color_opposite c) s"
  using assms by (auto simp: kb_phase1_forward_rank_def kb_phase1_promotion_distance_def)

lemma kb_passed_mirror:
  "SQ_VALID s \<Longrightarrow> c \<in> {WHITE, BLACK} \<Longrightarrow> kb_phase1_passed_pawn (mirror_board b) c (mirror s) = kb_phase1_passed_pawn b (color_opposite c) s"
  by (simp add: kb_phase1_passed_pawn_passed pawn_passed_mirror)

text \<open>The rows the lane loop walks, seen from the other side.\<close>

lemma rev_rows: "rev [0..k - 1] = map (\<lambda>r. 7 - r) [7 - k + 1..(7 :: int)]"
proof (rule nth_equalityI)
  show "length (rev [0..k - 1]) = length (map (\<lambda>r. 7 - r) [7 - k + 1..(7 :: int)])" by simp
  fix i assume "i < length (rev [0..k - 1])"
  then have "i < nat k" and "int (nat k - Suc i) = k - 1 - int i" by (auto simp: of_nat_diff)
  then show "rev [0..k - 1] ! i = map (\<lambda>r. 7 - r) [7 - k + 1..(7 :: int)] ! i"
    using nth_upto [of 0 "nat k - Suc i" "k - 1"] by (simp add: rev_nth)
qed

lemma takeWhile_length_map: "length (takeWhile P (map f xs)) = length (takeWhile (\<lambda>x. P (f x)) xs)"
  by (induction xs) auto

lemma kb_lane_mirror:
  assumes "wf_place b" "SQ_VALID s" "c \<in> {WHITE, BLACK}"
  shows "kb_phase1_clear_promotion_lane (mirror_board b) c (mirror s) = kb_phase1_clear_promotion_lane b (color_opposite c) s"
proof -
  let ?E = "\<lambda>b r. piece_at b (SQ r (SQ_COL s)) = PIECE_EMPTY"
  have e: "?E (mirror_board b) (7 - r) \<longleftrightarrow> ?E b r" if "0 \<le> r" "r \<le> 7" for r
    using empty_mirror_SQ [OF assms(1), of r "SQ_COL s"] SQ_COL_bounds [of s] that by (simp add: on_board_def)
  have up: "length (takeWhile (?E (mirror_board b)) [7 - SQ_ROW s + 1..7]) = length (takeWhile (?E b) (rev [0..SQ_ROW s - 1]))"
    unfolding rev_rows takeWhile_length_map
    by (intro arg_cong [of _ _ length] takeWhile_cong refl) (use e [of "7 - _"] SQ_ROW_bounds [OF assms(2)] in auto)
  have down: "length (takeWhile (?E (mirror_board b)) (rev [0..7 - SQ_ROW s - 1])) = length (takeWhile (?E b) [SQ_ROW s + 1..7])"
    unfolding rev_rows takeWhile_length_map
    by (simp, intro arg_cong [of _ _ length] takeWhile_cong refl) (use e SQ_ROW_bounds [OF assms(2)] in auto)
  from assms(3) consider "c = WHITE" | "c = BLACK" by blast
  then show ?thesis
    unfolding kb_phase1_clear_promotion_lane_def Let_def mirror_col [OF assms(2)]
    by cases (use up down assms(2) in simp_all)
qed

lemma kb_pawn_side_mirror:
  assumes "SQ_VALID s" "c \<in> {WHITE, BLACK}"
  shows "kb_phase1_square_attacked_by_pawn_side (mirror_board b) c (mirror s) = kb_phase1_square_attacked_by_pawn_side b (color_opposite c) s"
proof -
  have row: "(if c = WHITE then SQ_ROW (mirror s) - 1 else SQ_ROW (mirror s) + 1) = 7 - (if color_opposite c = WHITE then SQ_ROW s - 1 else SQ_ROW s + 1)"
    using assms by auto
  have eq: "(if p < 0 \<or> p > 7 then False else Q) \<longleftrightarrow> 0 \<le> p \<and> p < 8 \<and> Q" for p :: int and Q by auto
  show ?thesis
    unfolding kb_phase1_square_attacked_by_pawn_side_def Let_def row mirror_col [OF assms(1)] mirror_board_simps eq flank_mirror [OF SQ_COL_bounds]
    by (rule refl)
qed

lemma kb_safe_mirror:
  assumes "one_king b" "SQ_VALID s" "c \<in> {WHITE, BLACK}"
  shows "kb_phase1_king_target_safe (mirror_board b) c (mirror s) = kb_phase1_king_target_safe b (color_opposite c) s"
proof -
  have c': "color_opposite c \<in> {WHITE, BLACK}" using assms(3) by auto
  have "with_king (mirror_board b) (color_opposite c) True (\<lambda>k. \<not> chebyshev_distance_sq k (mirror s) \<le> 1) =
      with_king b (color_opposite (color_opposite c)) True (\<lambda>k. \<not> chebyshev_distance_sq k s \<le> 1)"
    by (rule with_king_mirror [OF assms(1) c']) (simp add: chebyshev_mirror assms(2))
  then show ?thesis
    unfolding kb_phase1_king_target_safe_def Let_def
    by (simp only: mirror_board_simps BB_HAS_mirror [OF assms(2)] kb_pawn_side_mirror [OF assms(2) c'])
qed

lemma kb_can_capture_mirror:
  assumes "one_king b" "SQ_VALID k" "SQ_VALID s" "c \<in> {WHITE, BLACK}"
  shows "kb_phase1_king_can_capture_pawn (mirror_board b) c (mirror k) (mirror s) = kb_phase1_king_can_capture_pawn b (color_opposite c) k s"
  unfolding kb_phase1_king_can_capture_pawn_def Let_def
  by (simp only: kb_safe_mirror [OF assms(1,3,4)] chebyshev_mirror [OF assms(2,3)] mirror_board_simps BB_HAS_mirror [OF assms(3)])

lemma kb_target_mirror:
  assumes "wf_place b" "on_board r k" "c \<in> {WHITE, BLACK}"
  shows "kb_pawn_target (mirror_board b) c (SQ (7 - r) k) = kb_pawn_target b (color_opposite c) (SQ r k)"
proof -
  have "piece_at (mirror_board b) (SQ (7 - r) k) = mirror_piece (piece_at b (SQ r k))"
    using piece_at_mirror [of "SQ r k" b] mirror_SQ [OF assms(2)] on_board_SQ(2) [OF assms(2)] by simp
  then show ?thesis
    using mirror_piece_empty [OF wf_place_piece_ok [OF assms(1) on_board_SQ(2) [OF assms(2)]]] assms(3)
    unfolding kb_pawn_target_def Let_def by (cases "PIECE_COLOR (piece_at b (SQ r k))") auto
qed

lemma kb_any_capture_mirror:
  assumes "wf_place b" "c \<in> {WHITE, BLACK}"
  shows "kb_phase1_any_pawn_capture_available (mirror_board b) c = kb_phase1_any_pawn_capture_available b (color_opposite c)"
  unfolding kb_phase1_any_pawn_capture_available_def Let_def mirror_board_simps
proof (rule list_ex_mirrorI)
  fix s assume s: "SQ_VALID s"
  have row: "SQ_ROW (mirror s) + (if c = WHITE then 1 else - 1) = 7 - (SQ_ROW s + (if color_opposite c = WHITE then 1 else - 1))"
    using assms(2) s by auto
  have "\<not> (7 - r < 0 \<or> 7 - r > 7) \<and> (0 < f \<and> kb_pawn_target (mirror_board b) c (SQ (7 - r) (f - 1)) \<or> f < 7 \<and> kb_pawn_target (mirror_board b) c (SQ (7 - r) (f + 1))) \<longleftrightarrow>
      \<not> (r < 0 \<or> r > 7) \<and> (0 < f \<and> kb_pawn_target b (color_opposite c) (SQ r (f - 1)) \<or> f < 7 \<and> kb_pawn_target b (color_opposite c) (SQ r (f + 1)))"
    if "0 \<le> f \<and> f < 8" for r f
    using kb_target_mirror [OF assms(1) _ assms(2), of r "f - 1"] kb_target_mirror [OF assms(1) _ assms(2), of r "f + 1"] that
    by (auto simp: on_board_def)
  from this [OF SQ_COL_bounds] show "(\<not> (SQ_ROW (mirror s) + (if c = WHITE then 1 else - 1) < 0 \<or> 7 < SQ_ROW (mirror s) + (if c = WHITE then 1 else - 1)) \<and>
      (0 < SQ_COL (mirror s) \<and> kb_pawn_target (mirror_board b) c (SQ (SQ_ROW (mirror s) + (if c = WHITE then 1 else - 1)) (SQ_COL (mirror s) - 1)) \<or>
       SQ_COL (mirror s) < 7 \<and> kb_pawn_target (mirror_board b) c (SQ (SQ_ROW (mirror s) + (if c = WHITE then 1 else - 1)) (SQ_COL (mirror s) + 1)))) =
    (\<not> (SQ_ROW s + (if color_opposite c = WHITE then 1 else - 1) < 0 \<or> 7 < SQ_ROW s + (if color_opposite c = WHITE then 1 else - 1)) \<and>
      (0 < SQ_COL s \<and> kb_pawn_target b (color_opposite c) (SQ (SQ_ROW s + (if color_opposite c = WHITE then 1 else - 1)) (SQ_COL s - 1)) \<or>
       SQ_COL s < 7 \<and> kb_pawn_target b (color_opposite c) (SQ (SQ_ROW s + (if color_opposite c = WHITE then 1 else - 1)) (SQ_COL s + 1))))"
    unfolding row mirror_col [OF s] .
qed

text \<open>The steps ahead of a square are mapped to the steps ahead of its image.\<close>

lemma ahead_row_mirror:
  assumes "SQ_VALID s" "c \<in> {WHITE, BLACK}"
  shows "SQ_ROW (mirror s) + (if c = WHITE then 1 else - 1) * i = 7 - (SQ_ROW s + (if color_opposite c = WHITE then 1 else - 1) * i)"
  using assms by auto

lemma kb_clearance_mirror:
  assumes "wf_place b" "SQ_VALID s" "c \<in> {WHITE, BLACK}"
  shows "kb_phase1_forward_file_clearance (mirror_board b) c (mirror s) n = kb_phase1_forward_file_clearance b (color_opposite c) s n"
proof -
  have "\<not> (7 - r < 0 \<or> 7 - r > 7) \<and> piece_at (mirror_board b) (SQ (7 - r) (SQ_COL s)) = PIECE_EMPTY \<longleftrightarrow>
      \<not> (r < 0 \<or> r > 7) \<and> piece_at b (SQ r (SQ_COL s)) = PIECE_EMPTY" for r
    using empty_mirror_SQ [OF assms(1), of r "SQ_COL s"] SQ_COL_bounds [of s] by (auto simp: on_board_def)
  then show ?thesis
    unfolding kb_phase1_forward_file_clearance_def Let_def ahead_row_mirror [OF assms(2,3)] mirror_col [OF assms(2)] by (simp only:)
qed

lemma kb_blockers_mirror:
  assumes "SQ_VALID s" "c \<in> {WHITE, BLACK}"
  shows "kb_phase1_forward_corridor_blockers (mirror_board b) c (mirror s) n = kb_phase1_forward_corridor_blockers b (color_opposite c) s n"
proof -
  let ?on = "\<lambda>nr :: int. \<not> (nr < 0 \<or> nr > 7)"
  let ?B = "\<lambda>v nr. sum_list (map (\<lambda>dc. if SQ_COL s + dc < 0 \<or> SQ_COL s + dc > 7 then 0 else if BB_HAS v (SQ nr (SQ_COL s + dc)) then 1 else 0) [-1, 0, 1]) :: int"
  have B: "?B (mirror_bb v) (7 - nr) = ?B v nr" if "?on nr" for v nr
  proof -
    have "(if k < 0 \<or> k > 7 then 0 else if BB_HAS (mirror_bb v) (SQ (7 - nr) k) then 1 else 0 :: int) =
        (if k < 0 \<or> k > 7 then 0 else if BB_HAS v (SQ nr k) then 1 else 0)" for k
      using BB_HAS_mirror_SQ [of nr k v] that by (auto simp: on_board_def)
    then show ?thesis by (simp only:)
  qed
  have steps: "takeWhile ?on (map (\<lambda>i. 7 - f i) xs) = map (\<lambda>r. 7 - r) (takeWhile ?on (map f xs))" for f and xs :: "int list"
    by (induction xs) auto
  have "sum_list (map (?B (mirror_bb v)) (takeWhile ?on (map (\<lambda>i. 7 - f i) xs))) = sum_list (map (?B v) (takeWhile ?on (map f xs)))" for v f and xs :: "int list"
    unfolding steps map_map comp_def by (intro arg_cong [of _ _ sum_list] map_cong refl B) (auto dest: set_takeWhileD)
  then show ?thesis
    unfolding kb_phase1_forward_corridor_blockers_def Let_def ahead_row_mirror [OF assms] mirror_col [OF assms(1)] mirror_board_simps by (simp only:)
qed

lemma kb_lane_open_mirror:
  assumes "SQ_VALID s" "c \<in> {WHITE, BLACK}"
  shows "kb_phase1_forward_lane_open (mirror_board b) c (mirror s) = kb_phase1_forward_lane_open b (color_opposite c) s"
proof -
  have "(if 7 - r < 0 \<or> 7 - r > 7 then False else \<not> BB_HAS (mirror_bb v) (SQ (7 - r) (SQ_COL s))) =
      (if r < 0 \<or> r > 7 then False else \<not> BB_HAS v (SQ r (SQ_COL s)))" for r v
    using BB_HAS_mirror_SQ [of r "SQ_COL s" v] SQ_COL_bounds [of s] by (auto simp: on_board_def)
  then show ?thesis
    unfolding kb_phase1_forward_lane_open_def Let_def mirror_board_simps mirror_col [OF assms(1)]
      ahead_row_mirror [OF assms, of 1, unfolded mult_1_right] by (simp only:)
qed

lemma kb_seal_count_mirror:
  assumes "wf_place b" "one_king b" "c \<in> {WHITE, BLACK}"
  shows "kb_phase1_retreat_arc_seal_count (mirror_board b) c = kb_phase1_retreat_arc_seal_count b (color_opposite c)"
  unfolding kb_phase1_retreat_arc_seal_count_def Let_def
proof (rule with_king_mirror [OF assms(2)])
  show c': "color_opposite c \<in> {WHITE, BLACK}" using assms(3) by auto
  fix k assume k: "SQ_VALID k"
  let ?c = "color_opposite c" and ?d = "color_opposite (color_opposite c)"
  let ?S = "\<lambda>b c r dc. if SQ_COL k + dc < 0 \<or> SQ_COL k + dc > 7 then 0
      else if piece_at b (SQ r (SQ_COL k + dc)) \<noteq> PIECE_EMPTY \<or> kb_phase1_square_attacked_by_pawn_side b c (SQ r (SQ_COL k + dc)) then 1 else 0 :: int"
  have row: "SQ_ROW (mirror k) + (if ?c = WHITE then - 1 else 1) = 7 - (SQ_ROW k + (if ?d = WHITE then - 1 else 1))"
    using k assms(3) by auto
  have "?S (mirror_board b) c (7 - r) dc = ?S b ?c r dc" if "0 \<le> r" "r \<le> 7" for r dc
    using that kb_pawn_side_mirror [OF on_board_SQ(2) assms(3), of r "SQ_COL k + dc" b] empty_mirror_SQ [OF assms(1), of r "SQ_COL k + dc"]
      mirror_SQ [of r "SQ_COL k + dc"] by (auto simp: on_board_def)
  then have "map (?S (mirror_board b) c (7 - r)) xs = map (?S b ?c r) xs" if "0 \<le> r" "r \<le> 7" for r xs
    using that by (intro map_cong refl)
  then have S: "(if 7 - r < 0 \<or> 7 - r > 7 then 0 else sum_list (map (?S (mirror_board b) c (7 - r)) xs)) =
      (if r < 0 \<or> r > 7 then 0 else sum_list (map (?S b ?c r) xs))" for r xs
    by (cases "0 \<le> r \<and> r \<le> 7") (simp_all only: not_less if_False, auto)
  show "(if kb_phase1_forward_rank ?c (mirror k) < 3 then 0
      else if SQ_ROW (mirror k) + (if ?c = WHITE then - 1 else 1) < 0 \<or> 7 < SQ_ROW (mirror k) + (if ?c = WHITE then - 1 else 1) then 0
      else sum_list (map (\<lambda>dc. if SQ_COL (mirror k) + dc < 0 \<or> 7 < SQ_COL (mirror k) + dc then 0
          else if piece_at (mirror_board b) (SQ (SQ_ROW (mirror k) + (if ?c = WHITE then - 1 else 1)) (SQ_COL (mirror k) + dc)) \<noteq> PIECE_EMPTY \<or>
            kb_phase1_square_attacked_by_pawn_side (mirror_board b) c (SQ (SQ_ROW (mirror k) + (if ?c = WHITE then - 1 else 1)) (SQ_COL (mirror k) + dc)) then 1 else 0) [- 1, 0, 1])) =
    (if kb_phase1_forward_rank ?d k < 3 then 0
      else if SQ_ROW k + (if ?d = WHITE then - 1 else 1) < 0 \<or> 7 < SQ_ROW k + (if ?d = WHITE then - 1 else 1) then 0
      else sum_list (map (\<lambda>dc. if SQ_COL k + dc < 0 \<or> 7 < SQ_COL k + dc then 0
          else if piece_at b (SQ (SQ_ROW k + (if ?d = WHITE then - 1 else 1)) (SQ_COL k + dc)) \<noteq> PIECE_EMPTY \<or>
            kb_phase1_square_attacked_by_pawn_side b ?c (SQ (SQ_ROW k + (if ?d = WHITE then - 1 else 1)) (SQ_COL k + dc)) then 1 else (0 :: int)) [- 1, 0, 1]))"
    unfolding row mirror_col [OF k] kb_rank_mirror [OF k c'] S by (rule refl)
qed

lemma kb_wing_drift_mirror:
  assumes "wf_place b" "one_king b" "SQ_VALID s" "c \<in> {WHITE, BLACK}"
  shows "kb_phase1_wing_drift_penalty (mirror_board b) c (mirror s) = kb_phase1_wing_drift_penalty b (color_opposite c) s"
proof -
  have near: "with_king (mirror_board b) d False (\<lambda>k. chebyshev_distance_sq k (mirror s) \<le> 2) =
      with_king b (color_opposite d) False (\<lambda>k. chebyshev_distance_sq k s \<le> 2)" if "d \<in> {WHITE, BLACK}" for d
    by (rule with_king_mirror [OF assms(2) that]) (simp add: chebyshev_mirror assms(3))
  have c': "color_opposite c \<in> {WHITE, BLACK}" using assms(4) by auto
  show ?thesis
    unfolding kb_phase1_wing_drift_penalty_def Let_def
    by (simp only: mirror_col [OF assms(3)] kb_rank_mirror [OF assms(3,4)] kb_passed_mirror [OF assms(3,4)] near [OF assms(4)] near [OF c']
        kb_any_capture_mirror [OF assms(1,4)])
qed

lemma kb_wall_mirror:
  assumes "one_king b" "c \<in> {WHITE, BLACK}"
  shows "kb_phase1_connected_wall_bonus (mirror_board b) c = kb_phase1_connected_wall_bonus b (color_opposite c)"
  unfolding kb_phase1_connected_wall_bonus_def Let_def mirror_board_simps
proof (rule with_king_mirror [OF assms(1)], goal_cases)
  case 1
  then show ?case using assms(2) by auto
next
  case (2 k)
  have c': "color_opposite c \<in> {WHITE, BLACK}" using assms(2) by auto
  have right: "SQ (SQ_ROW (mirror s)) (SQ_COL s + 1) = mirror (SQ (SQ_ROW s) (SQ_COL s + 1))" "SQ_VALID (SQ (SQ_ROW s) (SQ_COL s + 1))"
    if "SQ_VALID s" "\<not> 7 \<le> SQ_COL s" for s
    using that mirror_SQ [of "SQ_ROW s" "SQ_COL s + 1"] on_board_SQ(2) [of "SQ_ROW s" "SQ_COL s + 1"] SQ_ROW_bounds [OF that(1)] SQ_COL_bounds [of s]
    by (simp_all add: on_board_def)
  show ?case
    unfolding kb_rank_mirror [OF 2 c']
    by (intro if_cong refl bb_sum_mirrorI)
      (simp_all add: kb_rank_mirror [OF _ assms(2)] chebyshev_mirror 2 right BB_HAS_mirror del: mirror_row)
qed

lemma kb_corridor_mirror:
  assumes "c \<in> {WHITE, BLACK}"
  shows "kb_corridor_open (mirror_board b) c = kb_corridor_open b (color_opposite c)"
proof -
  have "BB_HAS (mirror_bb v) (if c = WHITE then SQ 1 f else SQ 6 f) \<longleftrightarrow> BB_HAS v (if color_opposite c = WHITE then SQ 1 f else SQ 6 f)"
    if "f \<in> set [3, 4, 5]" for v f
    using BB_HAS_mirror_SQ [of 1 f v] BB_HAS_mirror_SQ [of 6 f v] assms that by (auto simp: on_board_def)
  then show ?thesis
    unfolding kb_corridor_open_def mirror_board_simps by (intro arg_cong [of _ _ sum_list] map_cong refl) (simp only:)
qed

lemma kb_enemy_rank_mirror:
  assumes "one_king b" "c \<in> {WHITE, BLACK}"
  shows "kb_enemy_king_rank (mirror_board b) c = kb_enemy_king_rank b (color_opposite c)"
  unfolding kb_enemy_king_rank_def by (rule with_king_mirror [OF assms(1)]) (use assms(2) in \<open>auto simp: kb_rank_mirror\<close>)

lemma min_fold_Min: "fold (\<lambda>s best. let d = f s in if d < best then d else best) xs a = Min (insert a (f ` set xs))" for f :: "'a \<Rightarrow> int"
proof (induction xs arbitrary: a)
  case (Cons x xs)
  have "Min (insert (if f x < a then f x else a) (f ` set xs)) = Min (insert a (insert (f x) (f ` set xs)))"
    by (cases "xs = []") (auto simp: Min_insert min_def)
  then show ?case unfolding fold.simps comp_apply Cons.IH by (simp add: Let_def)
qed simp

lemma kb_min_dist_mirror:
  assumes "SQ_VALID k"
  shows "kb_min_dist (mirror_board b) c (mirror k) = kb_min_dist b (color_opposite c) k"
proof -
  have "(\<lambda>ps. chebyshev_distance_sq ps (mirror k)) ` set (bb_squares (mirror_bb v)) = (\<lambda>ps. chebyshev_distance_sq ps k) ` set (bb_squares v)" for v
    unfolding set_bb_squares_mirror image_image by (intro image_cong refl) (simp add: set_bb_squares chebyshev_mirror assms)
  then show ?thesis unfolding kb_min_dist_def min_fold_Min mirror_board_simps by (simp only:)
qed

lemma kb_king_terms_mirror:
  assumes "one_king b" "SQ_VALID k" "c \<in> {WHITE, BLACK}"
  shows "kb_king_advance (mirror_board b) c (mirror k) = kb_king_advance b (color_opposite c) k"
    "kb_king_proximity (mirror_board b) c (mirror k) = kb_king_proximity b (color_opposite c) k"
    "kb_rank_race (mirror_board b) c (mirror k) = kb_rank_race b (color_opposite c) k"
    "kb_capturable (mirror_board b) c (mirror k) = kb_capturable b (color_opposite c) k"
    "kb_approach (mirror_board b) c (mirror k) = kb_approach b (color_opposite c) k"
    "kb_king_mobility (mirror_board b) c (mirror k) = kb_king_mobility b (color_opposite c) k"
proof -
  note r = kb_rank_mirror [OF assms(2,3)]
  show "kb_king_advance (mirror_board b) c (mirror k) = kb_king_advance b (color_opposite c) k"
    unfolding kb_king_advance_def Let_def by (simp only: r mirror_col [OF assms(2)] kb_corridor_mirror [OF assms(3)] mirror_board_simps)
  show "kb_rank_race (mirror_board b) c (mirror k) = kb_rank_race b (color_opposite c) k"
    unfolding kb_rank_race_def Let_def by (simp only: r kb_enemy_rank_mirror [OF assms(1,3)])
  have "bb_sum (\<lambda>ps. if chebyshev_distance_sq ps (mirror k) \<le> 7 then 7 - chebyshev_distance_sq ps (mirror k) else 0) (mirror_bb v) =
      bb_sum (\<lambda>ps. if chebyshev_distance_sq ps k \<le> 7 then 7 - chebyshev_distance_sq ps k else 0) v" for v
    by (rule bb_sum_mirrorI) (simp add: chebyshev_mirror assms(2))
  then show "kb_king_proximity (mirror_board b) c (mirror k) = kb_king_proximity b (color_opposite c) k"
    unfolding kb_king_proximity_def Let_def by (simp only: r kb_min_dist_mirror [OF assms(2)] mirror_board_simps)
  show "kb_capturable (mirror_board b) c (mirror k) = kb_capturable b (color_opposite c) k"
    unfolding kb_capturable_def mirror_board_simps
    by (rule bb_count_mirrorI) (simp add: chebyshev_mirror assms(2) kb_can_capture_mirror [OF assms(1,2) _ assms(3)])
  show "kb_approach (mirror_board b) c (mirror k) = kb_approach b (color_opposite c) k"
    unfolding kb_approach_def mirror_board_simps by (rule bb_sum_mirrorI) (simp add: chebyshev_mirror assms(2))
  show "kb_king_mobility (mirror_board b) c (mirror k) = kb_king_mobility b (color_opposite c) k"
    unfolding kb_king_mobility_def king_attacks_mirror [OF assms(2)]
    by (rule bb_count_mirrorI) (rule kb_safe_mirror [OF assms(1) _ assms(3)])
qed

lemma kb_retreat_seal_mirror:
  assumes "wf_place b" "one_king b" "c \<in> {WHITE, BLACK}"
  shows "kb_retreat_seal (mirror_board b) c = kb_retreat_seal b (color_opposite c)"
proof -
  have c': "color_opposite c \<in> {WHITE, BLACK}" using assms(3) by auto
  let ?f = "\<lambda>b opp v k. let enemy_safe_moves = bb_count (kb_phase1_king_target_safe b opp) (king_attacks k);
      enemy_capturable = bb_count (kb_phase1_king_can_capture_pawn b opp k) v
    in if enemy_capturable = 0 then 240 + (if enemy_safe_moves \<le> 2 then 180 - enemy_safe_moves * 40 else 0) else 0 :: int"
  have "?f (mirror_board b) (color_opposite c) (mirror_bb v) (mirror k) = ?f b c v k" if "SQ_VALID k" for v k
  proof -
    have "bb_count (kb_phase1_king_target_safe (mirror_board b) (color_opposite c)) (king_attacks (mirror k)) =
        bb_count (kb_phase1_king_target_safe b c) (king_attacks k)"
      unfolding king_attacks_mirror [OF that]
      by (rule bb_count_mirrorI) (simp add: kb_safe_mirror [OF assms(2) _ c'])
    moreover have "bb_count (kb_phase1_king_can_capture_pawn (mirror_board b) (color_opposite c) (mirror k)) (mirror_bb v) =
        bb_count (kb_phase1_king_can_capture_pawn b c k) v"
      by (rule bb_count_mirrorI) (simp add: kb_can_capture_mirror [OF assms(2) that _ c'])
    ultimately show ?thesis by (simp only:)
  qed
  then have "with_king (mirror_board b) (color_opposite c) 0 (?f (mirror_board b) (color_opposite c) (mirror_bb v)) =
      with_king b (color_opposite (color_opposite c)) 0 (?f b c v)" for v
    by (rule with_king_mirror [OF assms(2) c'])
  then show ?thesis
    unfolding kb_retreat_seal_def Let_def [of "color_opposite _"] Let_def [of "kb_phase1_retreat_arc_seal_count _ _"]
    by (simp only: kb_wall_mirror [OF assms(2,3)] kb_seal_count_mirror [OF assms] kb_enemy_rank_mirror [OF assms(2,3)] mirror_board_simps
        color_opposite_opposite)
qed

lemma kb_hunt_mirror:
  assumes "wf_place b" "one_king b" "c \<in> {WHITE, BLACK}"
  shows "kb_king_hunt (mirror_board b) c = kb_king_hunt b (color_opposite c)"
  unfolding kb_king_hunt_def
  by (rule with_king_mirror [OF assms(2,3)])
    (simp only: kb_king_terms_mirror [OF assms(2) _ assms(3)] kb_lane_open_mirror [OF _ assms(3)] kb_clearance_mirror [OF assms(1) _ assms(3)]
      kb_blockers_mirror [OF _ assms(3)] kb_retreat_seal_mirror [OF assms])

lemma kb_weak_pawn_mirror:
  assumes "one_king b" "SQ_VALID s" "c \<in> {WHITE, BLACK}"
  shows "kb_weak_pawn (mirror_board b) c (mirror s) = kb_weak_pawn b (color_opposite c) s"
proof -
  let ?c = "color_opposite c" and ?d = "color_opposite (color_opposite c)"
  have c': "?c \<in> {WHITE, BLACK}" using assms(3) by auto
  have row: "(if ?c = WHITE then SQ_ROW (mirror s) - 1 else SQ_ROW (mirror s) + 1) = 7 - (if ?d = WHITE then SQ_ROW s - 1 else SQ_ROW s + 1)"
    using assms(2,3) by auto
  have kd: "with_king (mirror_board b) ?c False (\<lambda>k. chebyshev_distance_sq (mirror s) k \<le> 1) = with_king b ?d False (\<lambda>k. chebyshev_distance_sq s k \<le> 1)"
    by (rule with_king_mirror [OF assms(1) c']) (simp add: chebyshev_mirror assms(2))
  have own: "with_king (mirror_board b) c 0 (\<lambda>k. (7 - chebyshev_distance_sq (mirror s) k) * 12 + (if r \<ge> 4 \<and> chebyshev_distance_sq (mirror s) k \<le> 2 then 40 + (r - 4) * 20 else 0)) =
      with_king b ?c 0 (\<lambda>k. (7 - chebyshev_distance_sq s k) * 12 + (if r \<ge> 4 \<and> chebyshev_distance_sq s k \<le> 2 then 40 + (r - 4) * 20 else 0))" for r :: int
    by (rule with_king_mirror [OF assms(1,3)]) (simp add: chebyshev_mirror assms(2))
  show ?thesis
    unfolding kb_weak_pawn_def Let_def kb_rank_mirror [OF assms(2) c'] row mirror_col [OF assms(2)] mirror_board_simps flank_mirror [OF SQ_COL_bounds] kd own
    by (rule refl)
qed

lemma kb_own_pawn_mirror:
  assumes "wf_place b" "one_king b" "SQ_VALID s" "c \<in> {WHITE, BLACK}"
  shows "kb_own_pawn (mirror_board b) c (mirror s) = kb_own_pawn b (color_opposite c) s"
proof -
  let ?c = "color_opposite c" and ?d = "color_opposite (color_opposite c)"
  have c': "?c \<in> {WHITE, BLACK}" using assms(4) by auto
  have row: "(if c = WHITE then SQ_ROW (mirror s) else 7 - SQ_ROW (mirror s)) = (if ?c = WHITE then SQ_ROW s else 7 - SQ_ROW s)"
    using assms(3,4) by auto
  have dist: "with_king (mirror_board b) ?c 8 (chebyshev_distance_sq (mirror s)) = with_king b ?d 8 (chebyshev_distance_sq s)"
    by (rule with_king_mirror [OF assms(2) c']) (simp add: chebyshev_mirror assms(3))
  have near: "with_king (mirror_board b) e 0 (\<lambda>k. g (chebyshev_distance_sq k (mirror s))) = with_king b (color_opposite e) 0 (\<lambda>k. g (chebyshev_distance_sq k s))"
    if "e \<in> {WHITE, BLACK}" for e and g :: "int \<Rightarrow> int"
    by (rule with_king_mirror [OF assms(2) that]) (simp add: chebyshev_mirror assms(3))
  have "with_king (mirror_board b) c 0 (\<lambda>k. if chebyshev_distance_sq k (mirror s) \<le> 2 then 30 else if chebyshev_distance_sq k (mirror s) \<le> 3 then 12 else 0) =
      with_king b ?c 0 (\<lambda>k. if chebyshev_distance_sq k s \<le> 2 then 30 else if chebyshev_distance_sq k s \<le> 3 then 12 else (0 :: int))"
    "with_king (mirror_board b) ?c 0 (\<lambda>k. if chebyshev_distance_sq k (mirror s) \<le> 1 then 40 else if chebyshev_distance_sq k (mirror s) = 2 then 15 else 0) =
      with_king b ?d 0 (\<lambda>k. if chebyshev_distance_sq k s \<le> 1 then 40 else if chebyshev_distance_sq k s = 2 then 15 else (0 :: int))"
    by (rule near [OF assms(4), of "\<lambda>d. if d \<le> 2 then 30 else if d \<le> 3 then 12 else 0"])
      (rule near [OF c', of "\<lambda>d. if d \<le> 1 then 40 else if d = 2 then 15 else 0"])
  then show ?thesis
    unfolding kb_own_pawn_def Let_def row
    by (simp only: kb_rank_mirror [OF assms(3,4)] kb_lane_mirror [OF assms(1,3,4)] dist kb_passed_mirror [OF assms(3,4)] kb_wing_drift_mirror [OF assms])
qed

lemma kb_phase1_side_mirror:
  assumes "wf_place b" "one_king b" "ctx_mirror ctx ctx'" "c \<in> {WHITE, BLACK}"
  shows "kb_phase1_side (mirror_board b) ctx' c = kb_phase1_side b ctx (color_opposite c)"
proof -
  have "bb_sum (kb_weak_pawn (mirror_board b) c) (mirror_bb v) = bb_sum (kb_weak_pawn b (color_opposite c)) v"
    "bb_sum (kb_own_pawn (mirror_board b) c) (mirror_bb v) = bb_sum (kb_own_pawn b (color_opposite c)) v" for v
    by (rule bb_sum_mirrorI, rule kb_weak_pawn_mirror [OF assms(2) _ assms(4)], assumption)
      (rule bb_sum_mirrorI, rule kb_own_pawn_mirror [OF assms(1,2) _ assms(4)], assumption)
  then show ?thesis
    unfolding kb_phase1_side_def by (simp only: kb_hunt_mirror [OF assms(1,2,4)] ctx_mirrorD(5) [OF assms(3,4)] mirror_board_simps)
qed

lemma kb_queen_threat_mirror:
  assumes "one_queen b" "SQ_VALID k" "c \<in> {WHITE, BLACK}"
  shows "kb_queen_threat (mirror_board b) c (mirror k) n = kb_queen_threat b (color_opposite c) k n"
proof (cases "pieces b c QUEEN = 0")
  case True
  then show ?thesis by (simp add: kb_queen_threat_def BB_EMPTY_def mirror_bb_eq_0)
next
  case False
  note q = queen_lsb_mirror [OF assms(1,3) False]
  show ?thesis
    by (simp add: kb_queen_threat_def Let_def BB_EMPTY_def mirror_bb_eq_0 q chebyshev_mirror [OF assms(2) q(2)] assms(2))
qed

lemma kb_phase2_side_mirror:
  assumes "one_king b" "one_queen b" "c \<in> {WHITE, BLACK}"
  shows "kb_phase2_side (mirror_board b) c = kb_phase2_side b (color_opposite c)"
proof -
  have home: "sum_list (map (\<lambda>t. bb_sum (\<lambda>sq. if SQ_ROW sq = (if c = WHITE then 0 else 7) then - 2 else 8) (pieces (mirror_board b) c t)) officers) =
      sum_list (map (\<lambda>t. bb_sum (\<lambda>sq. if SQ_ROW sq = (if color_opposite c = WHITE then 0 else 7) then - 2 else 8) (pieces b (color_opposite c) t)) officers)"
    by (rule officer_sum_mirror) (use assms(3) in auto)
  have king: "with_king (mirror_board b) c 0 (\<lambda>k. bb_popcount (mirror_bb v AND king_attacks k) * 18 - kb_queen_threat (mirror_board b) c k (bb_popcount (mirror_bb v AND king_attacks k))) =
      with_king b (color_opposite c) 0 (\<lambda>k. bb_popcount (v AND king_attacks k) * 18 - kb_queen_threat b (color_opposite c) k (bb_popcount (v AND king_attacks k)))" for v
    by (rule with_king_mirror [OF assms(1,3)])
      (simp add: king_attacks_mirror mirror_bb_ops bb_popcount_mirror kb_queen_threat_mirror [OF assms(2) _ assms(3)])
  show ?thesis
    unfolding kb_phase2_side_def Let_def home by (simp only: mirror_board_simps king bb_popcount_mirror)
qed

lemma eval_kings_battle_mirror:
  assumes "wf_place b" "one_king b" "one_queen b" "ctx_mirror ctx ctx'" "side b \<in> {WHITE, BLACK}"
  shows "eval_kings_battle (mirror_board b) ctx' = - eval_kings_battle b ctx"
proof -
  have "both_sides (kb_side (mirror_board b) ctx') = - both_sides (kb_side b ctx)"
    by (rule both_sides_mirrorI) (simp add: kb_side_def kb_phase1_side_mirror [OF assms(1,2,4)] kb_phase2_side_mirror [OF assms(2,3)])
  then show ?thesis unfolding eval_kings_battle_def mirror_board_simps pov_opposite [OF assms(5)] by simp
qed

end
