(* ===== verification/Evaluate.thy ===== *)
theory Evaluate
  imports MakeMove EvalMercenary EvalSuccession EvalHeir EvalTruce EvalKingsBattle
begin

text \<open>
  The dispatcher \<open>evaluate.c\<close>: the common first stage, the terms of the variant being played, the
  common last stage, and the sign that turns the score to the side to move.
\<close>

section \<open>The dispatcher\<close>

definition eval_variant :: "Board \<Rightarrow> EvalContext \<Rightarrow> int" where
  "eval_variant b ctx =
     (case game_mod b of
        MOD_MERCENARY \<Rightarrow> eval_mercenary b ctx
      | MOD_HEIR \<Rightarrow> eval_heir b ctx
      | MOD_FRIENDLY_FIRE \<Rightarrow> eval_friendly_fire b ctx
      | MOD_TRUCE \<Rightarrow> if truce_active b then eval_truce b ctx else 0
      | MOD_KINGS_BATTLE \<Rightarrow> eval_kings_battle b ctx
      | MOD_SAVE_QUEEN \<Rightarrow> eval_save_queen b ctx
      | MOD_SUCCESSION \<Rightarrow> eval_succession b ctx
      | MOD_CLASSIC \<Rightarrow> 0)"

definition evaluate :: "Board \<Rightarrow> int" where
  "evaluate b =
     (let ctx = eval_common_init b;
          ctx = ctx \<lparr> ctx_score := ctx_score ctx + eval_variant b ctx \<rparr>;
          ctx = ctx \<lparr> ctx_score := ctx_score ctx + eval_common_finish b ctx \<rparr>
      in if side b = WHITE then ctx_score ctx else - ctx_score ctx)"

section \<open>Colour symmetry\<close>

text \<open>
  The positions on which the score can be compared with that of the mirror image.  Some terms of
  four variants read the first queen of a side and one of Truce its first two rooks; with more of them the
  \<open>first\<close> is another piece after the exchange.
\<close>

definition fair_position :: "Board \<Rightarrow> bool" where
  "fair_position b \<longleftrightarrow> wf_place b \<and> one_king b \<and> side b \<noteq> COLOR_NONE \<and>
     (case game_mod b of
        MOD_SUCCESSION \<Rightarrow> False
      | MOD_TRUCE \<Rightarrow> truce_active b \<longrightarrow> two_rooks b
      | MOD_CLASSIC \<Rightarrow> True | MOD_FRIENDLY_FIRE \<Rightarrow> True
      | _ \<Rightarrow> one_queen b)"

text \<open>What the score of White gains from the guard that the Truce terms have for Black alone.\<close>

definition colour_bias :: "Board \<Rightarrow> int" where
  "colour_bias b =
     (if game_mod b = MOD_TRUCE \<and> truce_active b then truce_h3_guard b + truce_h3_guard (mirror_board b) else 0)"

lemma heir_contexts_init:
  assumes "one_king b" "one_queen b"
  shows "heir_contexts b (eval_common_init b) (eval_common_init (mirror_board b))"
  using assms bb_lsb_bit [of "pieces b WHITE KING"] bb_lsb_bit [of "pieces b BLACK KING"]
  by (auto simp: heir_contexts_def eval_common_init_mirror init_squares_mirror one_queen_def one_king_def ctx_squares)

lemma eval_variant_mirror:
  assumes "fair_position b"
  shows "eval_variant (mirror_board b) (eval_common_init (mirror_board b)) = colour_bias b - eval_variant b (eval_common_init b)"
proof -
  have f: "wf_place b" "one_king b" "side b \<in> {WHITE, BLACK}"
    using assms by (auto simp: fair_position_def intro: Color.exhaust [of "side b"])
  note m = eval_common_init_mirror(2) [of b]
  have k: "squares_mirror ctx_king_sq (eval_common_init b) (eval_common_init (mirror_board b))"
    using init_squares_mirror(1) [OF f(2)] .
  have q: "squares_mirror ctx_queen_sq (eval_common_init b) (eval_common_init (mirror_board b))" if "one_queen b"
    using init_squares_mirror(2) [OF f(2)] that by (simp add: one_queen_def)
  show ?thesis
  proof (cases "game_mod b")
    case MOD_MERCENARY
    then have "one_queen b" using assms by (simp add: fair_position_def)
    with MOD_MERCENARY show ?thesis using eval_mercenary_mirror [OF f(2) m k q f(3)] by (simp add: eval_variant_def colour_bias_def)
  next
    case MOD_HEIR
    then have "one_queen b" using assms by (simp add: fair_position_def)
    with MOD_HEIR show ?thesis using eval_heir_mirror [OF heir_contexts_init f(3)] f(2) by (simp add: eval_variant_def colour_bias_def)
  next
    case MOD_TRUCE
    then have "truce_active b \<Longrightarrow> two_rooks b" using assms by (simp add: fair_position_def)
    with MOD_TRUCE show ?thesis using eval_truce_mirror [OF _ f(2) m f(3)] by (simp add: eval_variant_def colour_bias_def)
  next
    case MOD_KINGS_BATTLE
    then have "one_queen b" using assms by (simp add: fair_position_def)
    with MOD_KINGS_BATTLE show ?thesis using eval_kings_battle_mirror [OF f(1,2) _ m f(3)] by (simp add: eval_variant_def colour_bias_def)
  next
    case MOD_SAVE_QUEEN
    then have "one_queen b" using assms by (simp add: fair_position_def)
    with MOD_SAVE_QUEEN show ?thesis using eval_save_queen_mirror [OF f(1,2) _ f(3)] by (simp add: eval_variant_def colour_bias_def)
  qed (use assms eval_friendly_fire_mirror [OF f(2) m f(3)] in \<open>auto simp: eval_variant_def colour_bias_def fair_position_def\<close>)
qed

lemma evaluate_bias:
  assumes "fair_position b"
  shows "evaluate (mirror_board b) = evaluate b - pov (side b) (colour_bias b)"
proof -
  have f: "one_king b" "side b \<in> {WHITE, BLACK}"
    using assms by (auto simp: fair_position_def intro: Color.exhaust [of "side b"])
  have fin: "eval_common_finish (mirror_board b) (eval_common_init (mirror_board b) \<lparr> ctx_score := x \<rparr>) =
      - eval_common_finish b (eval_common_init b \<lparr> ctx_score := y \<rparr>)" for x y
    by (rule eval_common_finish_mirror [OF f(1) _ f(2)]) (use eval_common_init_mirror(2) [of b] in \<open>simp add: ctx_mirror_def\<close>)
  show ?thesis
    using f(2) fin [of "- ctx_score (eval_common_init b) + (colour_bias b - eval_variant b (eval_common_init b))"
      "ctx_score (eval_common_init b) + eval_variant b (eval_common_init b)"]
    by (auto simp: evaluate_def Let_def pov_def eval_common_init_mirror(1) eval_variant_mirror [OF assms])
qed

text \<open>
  (C9) Colour symmetry of the score, and exactly where it fails.  Take a consistent position of any variant
  but Succession with at most one king per side; in Mercenary, Heir, King's Battle and Save the Queen with at
  most one queen per side, during a truce with at most two rooks per side.  Exchanging the
  colours and turning the board leaves the score of the side to move unchanged in every variant, except
  during a truce, where it changes by the 90 points of the guard against the bishop on h3 that the source has
  for Black alone: once if the position itself shows the motif and once if its mirror image does.
\<close>

theorem evaluate_mirror:
  assumes "wf_place b" "one_king b" "side b \<noteq> COLOR_NONE" "game_mod b \<noteq> MOD_SUCCESSION"
    and "game_mod b \<in> {MOD_MERCENARY, MOD_HEIR, MOD_KINGS_BATTLE, MOD_SAVE_QUEEN} \<longrightarrow> one_queen b"
    and "game_mod b = MOD_TRUCE \<and> truce_active b \<longrightarrow> two_rooks b"
  shows "evaluate (mirror_board b) = evaluate b -
    (if game_mod b = MOD_TRUCE \<and> truce_active b
     then pov (side b) (truce_h3_guard b + truce_h3_guard (mirror_board b)) else 0)"
proof -
  have "fair_position b" using assms by (cases "game_mod b") (simp_all add: fair_position_def)
  then show ?thesis using evaluate_bias by (simp add: colour_bias_def pov_def)
qed

theorem evaluate_mirror_witness:
  "evaluate (mirror_board (duel \<lparr> game_mod := MOD_KINGS_BATTLE \<rparr>)) = evaluate (duel \<lparr> game_mod := MOD_KINGS_BATTLE \<rparr>) \<and>
   evaluate (mirror_board (duel \<lparr> game_mod := MOD_TRUCE, truce_active := True \<rparr>)) =
     evaluate (duel \<lparr> game_mod := MOD_TRUCE, truce_active := True \<rparr>)"
proof -
  let ?kb = "duel \<lparr> game_mod := MOD_KINGS_BATTLE \<rparr>" and ?tr = "duel \<lparr> game_mod := MOD_TRUCE, truce_active := True \<rparr>"
  have wf: "wf_place ?kb" "wf_place ?tr" using duel_wf by (simp_all add: wf_place_def)
  have k: "one_king ?kb" "one_queen ?kb" "one_king ?tr" "two_rooks ?tr" by code_simp+
  have g: "truce_h3_guard ?tr = 0" "truce_h3_guard (mirror_board ?tr) = 0" by code_simp+
  have s: "side ?kb \<noteq> COLOR_NONE" "side ?tr \<noteq> COLOR_NONE" by (simp_all add: duel_def board_clear_def)
  show ?thesis
    using evaluate_mirror [OF wf(1) k(1) s(1)] evaluate_mirror [OF wf(2) k(3) s(2)] k(2,4) g by (simp add: pov_def)
qed

section \<open>What the score depends on\<close>

text \<open>The definitions that read the board, to unfold when a field is irrelevant.\<close>

lemmas attack_terms = kb_phase1_def [abs_def] effective_queens_def [abs_def] board_square_attacked_def [abs_def] heir_check_applies_def [abs_def]

lemmas common_terms =
  pawn_attack_map_def [abs_def] piece_value_def [abs_def] piece_pst_def [abs_def] piece_mobility_def [abs_def]
  init_piece_def [abs_def] init_scan_def [abs_def] eval_common_init_def [abs_def] pawn_structure_def [abs_def]
  pawn_passed_def [abs_def] passed_score_def [abs_def] rook_file_bonus_def [abs_def] pawn_shield_def [abs_def]
  zone_attackers_def [abs_def] king_safety_def [abs_def] merc_exposed_def [abs_def] pawn_threats_def [abs_def]
  eval_common_finish_def [abs_def]

lemmas mercenary_terms =
  merc_adjacent_pawn_shield_def [abs_def] queen_ring_hits_def [abs_def] merc_queen_infiltration_bonus_def [abs_def]
  merc_enemy_queen_infiltration_penalty_def [abs_def] merc_proximity_def [abs_def] merc_connectivity_def [abs_def]
  merc_space_def [abs_def] developed_minors_def [abs_def] merc_king_shield_def [abs_def] merc_endgame_def [abs_def]
  eval_mercenary_def [abs_def]

lemmas friendly_fire_terms =
  cover_map_def [abs_def] ff_vulnerability_def [abs_def] ff_open_lines_def [abs_def] ff_king_shelter_def [abs_def]
  ff_side_def [abs_def] eval_friendly_fire_def [abs_def]

lemmas save_queen_terms =
  stq_clear_path_def [abs_def] stq_prisoner_def [abs_def] stq_escaped_def [abs_def] stq_blockade_def [abs_def]
  stq_side_def [abs_def] eval_save_queen_def [abs_def]

lemmas succession_terms =
  succ_queen_def [abs_def] succ_passed_def [abs_def] succ_pawn_def [abs_def] succ_king_def [abs_def]
  succ_race_def [abs_def] succ_side_def [abs_def] eval_succession_def [abs_def]

lemmas heir_terms =
  heir_is_passed_pawn_def [abs_def] heir_promotion_square_safe_def [abs_def] heir_king_hot_squares_def [abs_def]
  heir_developed_minor_count_def [abs_def] heir_f_pawn_block_penalty_def [abs_def] heir_strategic_scale_def [abs_def]
  heir_soft_king_scale_def [abs_def] heir_pawn_def [abs_def] heir_safe_recovery_def [abs_def]
  heir_best_advance_def [abs_def] heir_best_passed_def [abs_def] heir_pawns_def [abs_def] heir_king_def [abs_def]
  heir_target_def [abs_def] heir_race_def [abs_def] officer_attacks_def [abs_def] heir_officer_def [abs_def]
  heir_queen_sortie_def [abs_def] heir_development_def [abs_def] heir_side_def [abs_def] eval_heir_def [abs_def]

lemmas truce_terms =
  truce_start_pawn_harassers_def [abs_def] truce_developed_def [abs_def] truce_development_def [abs_def]
  truce_center_def [abs_def] truce_outpost_def [abs_def] truce_h3_motif_def [abs_def] truce_bishop_def [abs_def]
  truce_rook_def [abs_def] truce_rook_pair_def [abs_def] truce_pawn_chain_def [abs_def] advanced_file_def [abs_def]
  truce_pawn_front_def [abs_def] truce_king_def [abs_def] truce_harmony_def [abs_def] truce_side_def [abs_def]
  eval_truce_def [abs_def]

lemmas kings_battle_terms =
  with_king_def [abs_def] kb_phase1_passed_pawn_def [abs_def] kb_phase1_clear_promotion_lane_def [abs_def]
  kb_phase1_square_attacked_by_pawn_side_def [abs_def] kb_phase1_king_target_safe_def [abs_def]
  kb_phase1_king_can_capture_pawn_def [abs_def] kb_pawn_target_def [abs_def]
  kb_phase1_any_pawn_capture_available_def [abs_def] kb_phase1_forward_corridor_blockers_def [abs_def]
  kb_phase1_forward_lane_open_def [abs_def] kb_phase1_retreat_arc_seal_count_def [abs_def]
  kb_phase1_wing_drift_penalty_def [abs_def] kb_phase1_connected_wall_bonus_def [abs_def]
  kb_phase1_forward_file_clearance_def [abs_def] kb_corridor_open_def [abs_def] kb_enemy_king_rank_def [abs_def]
  kb_king_advance_def [abs_def] kb_min_dist_def [abs_def] kb_king_proximity_def [abs_def] kb_capturable_def [abs_def]
  kb_rank_race_def [abs_def] kb_approach_def [abs_def] kb_king_mobility_def [abs_def] kb_retreat_seal_def [abs_def]
  kb_king_hunt_def [abs_def] kb_weak_pawn_def [abs_def] kb_own_pawn_def [abs_def] kb_phase1_side_def [abs_def]
  kb_queen_threat_def [abs_def] kb_phase2_side_def [abs_def] kb_side_def [abs_def] eval_kings_battle_def [abs_def]

lemmas board_terms = attack_terms common_terms mercenary_terms friendly_fire_terms save_queen_terms succession_terms heir_terms truce_terms kings_battle_terms eval_variant_def evaluate_def

text \<open>
  Castling rights, the en-passant square, the halfmove clock, the hash, the undo history and the
  variants' bookkeeping that no term reads have no influence on the score.
\<close>

lemma evaluate_frame:
  "evaluate (b \<lparr> castling := r, ep_square := e, halfmove := n, truce_frozen := f, kb_idle_kings := k, hash := z, history := h, ply := p \<rparr>) =
   evaluate b"
  by (cases b) (simp only: Board.update_convs Board.select_convs board_terms)

section \<open>Pawns\<close>

text \<open>
  (C30) The four implementations of the passed-pawn test, which walk squares, files or the enemy
  pawns, agree: a pawn is passed exactly when no enemy pawn stands on a row ahead of it on its own
  or a neighbouring file.
\<close>

theorem passed_tests_agree:
  assumes "SQ_VALID s"
  shows "(pawn_passed b c s \<longleftrightarrow>
      \<not> (\<exists>t. SQ_VALID t \<and> BB_HAS (pieces b (color_opposite c) PAWN) t \<and> \<bar>SQ_COL t - SQ_COL s\<bar> \<le> 1 \<and>
          (if c = WHITE then SQ_ROW s < SQ_ROW t else SQ_ROW t < SQ_ROW s))) \<and>
    (succ_passed b c s \<longleftrightarrow> pawn_passed b c s) \<and>
    (heir_is_passed_pawn b c s \<longleftrightarrow> pawn_passed b c s) \<and>
    (kb_phase1_passed_pawn b c s \<longleftrightarrow> pawn_passed b c s)"
  unfolding BB_HAS_bit
  by (intro conjI pawn_passed_iff succ_passed_pawn_passed heir_is_passed_pawn_passed kb_phase1_passed_pawn_passed assms)

theorem passed_tests_agree_witness:
  "\<not> pawn_passed duel WHITE 28 \<and> \<not> succ_passed duel WHITE 28 \<and> \<not> heir_is_passed_pawn duel WHITE 28 \<and>
   \<not> kb_phase1_passed_pawn duel WHITE 28"
proof -
  have "SQ_VALID 28" "\<not> pawn_passed duel WHITE 28" by code_simp+
  then show ?thesis using passed_tests_agree [of 28 duel WHITE] by blast
qed

text \<open>
  (C31) The pawn attack map, built by two shifts of all pawns at once with the edge files masked out,
  holds exactly the squares some pawn attacks: one row ahead on a neighbouring file, with no wrap
  around the board's edge; in Mercenary, any neighbouring square.
\<close>

theorem pawn_attack_map_exact:
  assumes "SQ_VALID t" "c \<in> {WHITE, BLACK}"
  shows "BB_HAS (pawn_attack_map b c) t \<longleftrightarrow>
    (\<exists>s. SQ_VALID s \<and> BB_HAS (pieces b c PAWN) s \<and>
      (if is_merc b then s \<noteq> t \<and> \<bar>SQ_ROW t - SQ_ROW s\<bar> \<le> 1 \<and> \<bar>SQ_COL t - SQ_COL s\<bar> \<le> 1
       else SQ_ROW t - SQ_ROW s = (if c = WHITE then 1 else -1) \<and> \<bar>SQ_COL t - SQ_COL s\<bar> = 1))"
proof (cases "is_merc b")
  case True
  then show ?thesis
    using assms(1) by (auto simp: BB_HAS_bit pawn_attack_map_def bb_union_bit set_bb_squares bit_king_attacks king_step_def)
next
  case False
  then show ?thesis
    using bit_pawn_attack_map [OF False assms] by (simp add: BB_HAS_bit pawn_step_def)
qed

theorem pawn_attack_map_exact_witness:
  "BB_HAS (pawn_attack_map duel WHITE) 35"
proof -
  have "SQ_VALID 35" "SQ_VALID 28 \<and> BB_HAS (pieces duel WHITE PAWN) 28 \<and> SQ_ROW 35 - SQ_ROW 28 = 1 \<and> \<bar>SQ_COL 35 - SQ_COL 28\<bar> = 1"
    "\<not> is_merc duel" by code_simp+
  then show ?thesis using pawn_attack_map_exact [of 35 WHITE duel] by (simp del: SQ_VALID_def) blast
qed

section \<open>Succession\<close>

text \<open>
  (C32) In Succession the centralisation of a queen is measured from the fourth row for both colours,
  so the evaluation favours a side: a queen that is not attacked is worth 4 more on a white row up
  to the fourth, and 4 less beyond it, than its mirror image is worth to the other side.
\<close>

theorem succession_queen_bias:
  assumes "SQ_VALID q" "c \<in> {WHITE, BLACK}" "\<not> board_square_attacked b q (color_opposite c)"
  shows "succ_queen b (color_opposite c) q - succ_queen (mirror_board b) c (mirror q) = (if SQ_ROW q \<le> 3 then 4 else - 4)"
  using succ_queen_center [OF assms(1,3)] board_square_attacked_mirror [OF assms(1,2)] assms(2,3) by simp

theorem succession_queen_bias_witness:
  "succ_queen (board_place board_clear 3 WHITE QUEEN) BLACK 3 -
   succ_queen (mirror_board (board_place board_clear 3 WHITE QUEEN)) WHITE 59 = 4"
proof -
  have "SQ_VALID 3" "\<not> board_square_attacked (board_place board_clear 3 WHITE QUEEN) 3 BLACK" "mirror 3 = 59" "SQ_ROW 3 \<le> 3" by code_simp+
  then show ?thesis using succession_queen_bias [of 3 WHITE "board_place board_clear 3 WHITE QUEEN"] by simp
qed

end
