(* ===== verification/HeurTypes.thy ===== *)
theory HeurTypes
  imports EvalTypes MakeMove
begin

text \<open>
  What the move heuristics of \<open>search/heuristics_*.c\<close> and \<open>search.c\<close> share.  Each of these files
  scores one move on the board before it is made.  A term \<open>if (c) score += k\<close> is
  \<open>score + bonus_if c k\<close>, and the three-fold test that a move neither captures nor promotes is
  \<open>quiet\<close>.
\<close>

definition bonus_if :: "bool \<Rightarrow> int \<Rightarrow> int" where
  "bonus_if c k = (if c then k else 0)"

definition quiet :: "Move \<Rightarrow> bool" where
  "quiet m \<longleftrightarrow> \<not> MOVE_IS_CAPTURE m \<and> \<not> MOVE_IS_EP m \<and> \<not> MOVE_IS_PROMO m"

definition back_rank_of :: "Color \<Rightarrow> int" where
  "back_rank_of c = (if c = WHITE then 0 else 7)"

definition forward_step :: "Color \<Rightarrow> int" where
  "forward_step c = (if c = WHITE then 1 else - 1)"

definition minors :: "Board \<Rightarrow> Color \<Rightarrow> Bitboard" where
  "minors b c = pieces b c KNIGHT OR pieces b c BISHOP"

text \<open>The loop that counts the minor pieces still on their back rank.\<close>

definition home_minors :: "Board \<Rightarrow> Color \<Rightarrow> int" where
  "home_minors b c = bb_count (\<lambda>sq. SQ_ROW sq = back_rank_of c) (minors b c)"

definition leaves_back_rank :: "Color \<Rightarrow> Move \<Rightarrow> bool" where
  "leaves_back_rank c m \<longleftrightarrow>
     SQ_ROW (MOVE_FROM m) = back_rank_of c \<and> SQ_ROW (MOVE_TO m) \<noteq> back_rank_of c"

definition center_files :: "Square \<Rightarrow> bool" where
  "center_files sq \<longleftrightarrow> 2 \<le> SQ_COL sq \<and> SQ_COL sq \<le> 5"

definition central :: "Square \<Rightarrow> bool" where
  "central sq \<longleftrightarrow> 2 \<le> SQ_ROW sq \<and> SQ_ROW sq \<le> 5 \<and> center_files sq"

definition queen_rays :: "Square \<Rightarrow> Bitboard \<Rightarrow> Bitboard" where
  "queen_rays sq occ = bishop_attacks_calc sq occ OR rook_attacks_calc sq occ"

text \<open>The castling rights of one side.\<close>

definition castle_mask_of :: "Color \<Rightarrow> u8" where
  "castle_mask_of c = (if c = WHITE then CASTLE_WK OR CASTLE_WQ else CASTLE_BK OR CASTLE_BQ)"

lemma bonus_if_simps [simp]: "bonus_if True k = k" "bonus_if False k = 0"
  by (simp_all add: bonus_if_def)

lemma bonus_if_nonneg: "0 \<le> k \<Longrightarrow> 0 \<le> bonus_if c k"
  by (simp add: bonus_if_def)

lemma bb_count_nonneg: "0 \<le> bb_count P bb"
  by (auto simp: bb_count_def bb_sum_def intro!: sum_list_nonneg)

lemma home_minors_nonneg: "0 \<le> home_minors b c"
  by (simp add: home_minors_def bb_count_nonneg)

end
