(* ===== verification/HeurHeir.thy ===== *)
theory HeurHeir
  imports HeurTypes
begin

text \<open>
  The Heir heuristics of the search, \<open>search/heuristics_heir.c  Functions whose name the evaluation module of
  the variant has too carry the prefix \<open>search_\<close>.
\<close>: penalties and bonuses for single
  moves, and the tests that decide which positions and moves the search must not prune.
\<close>

section \<open>Helpers\<close>

definition heir_pawn_advance :: "Color \<Rightarrow> Square \<Rightarrow> int" where
  "heir_pawn_advance c sq =
     (let advance = (if c = WHITE then SQ_ROW sq - 1 else 6 - SQ_ROW sq) in
      if advance < 0 then 0 else if advance > 5 then 5 else advance)"

definition heir_square_attacked_by_enemy_pawn :: "Board \<Rightarrow> Square \<Rightarrow> Color \<Rightarrow> bool" where
  "heir_square_attacked_by_enemy_pawn b sq c =
     (if color_opposite c = WHITE then pawn_attacks BLACK sq AND pieces b WHITE PAWN \<noteq> 0
      else pawn_attacks WHITE sq AND pieces b BLACK PAWN \<noteq> 0)"

definition heir_has_quiet_flank_pawn_push :: "Board \<Rightarrow> Color \<Rightarrow> bool" where
  "heir_has_quiet_flank_pawn_push b c =
     (let occ = occupied b WHITE OR occupied b BLACK in
      list_ex (\<lambda>from. let file = SQ_COL from; to_rank = SQ_ROW from + forward_step c in
          (file \<le> 1 \<or> file \<ge> 6) \<and> \<not> (to_rank < 0 \<or> to_rank > 7) \<and> \<not> BB_HAS occ (SQ to_rank file))
        (bb_squares (pieces b c PAWN)))"

definition search_heir_developed_minor_count :: "Board \<Rightarrow> Color \<Rightarrow> int" where
  "search_heir_developed_minor_count b c = bb_count (\<lambda>sq. SQ_ROW sq \<noteq> back_rank_of c) (minors b c)"

definition heir_king_home :: "Color \<Rightarrow> Square" where
  "heir_king_home c = (if c = WHITE then SQ 0 4 else SQ 7 4)"


section \<open>Tests\<close>

definition search_heir_position_volatile :: "Board \<Rightarrow> bool" where
  "search_heir_position_volatile b =
     list_ex (\<lambda>c. pieces b c KING = BB_EMPTY \<or> bb_popcount (pieces b c PAWN) \<le> 2 \<or>
         list_ex (\<lambda>sq. heir_pawn_advance c sq \<ge> 4) (bb_squares (pieces b c PAWN))) colors"

definition search_heir_critical_move :: "Board \<Rightarrow> Move \<Rightarrow> bool" where
  "search_heir_critical_move b m =
     (if game_mod b \<noteq> MOD_HEIR then False
      else if MOVE_IS_PROMO m \<or> MOVE_CAPTURED m = KING then True
      else if MOVE_PIECE m = KING then True
      else MOVE_PIECE m = PAWN \<and> heir_pawn_advance (side b) (MOVE_TO m) \<ge> 4)"

definition search_heir_king_under_direct_fire :: "Board \<Rightarrow> bool" where
  "search_heir_king_under_direct_fire b =
     (if game_mod b \<noteq> MOD_HEIR then False
      else if pieces b (side b) KING = BB_EMPTY then False
      else board_square_attacked b (bb_lsb (pieces b (side b) KING)) (color_opposite (side b)))"

definition search_heir_tactical_capture :: "Board \<Rightarrow> Move \<Rightarrow> int \<Rightarrow> bool" where
  "search_heir_tactical_capture b m see =
     (if game_mod b \<noteq> MOD_HEIR then False
      else if \<not> (MOVE_IS_CAPTURE m \<or> MOVE_IS_EP m) then False
      else if see < 0 then False
      else if MOVE_CAPTURED m \<ge> KNIGHT then True
      else MOVE_CAPTURED m = PAWN \<and> central (MOVE_TO m))"

definition search_heir_is_tactical_capture_candidate :: "Board \<Rightarrow> Move \<Rightarrow> bool" where
  "search_heir_is_tactical_capture_candidate b m =
     (if game_mod b \<noteq> MOD_HEIR then False
      else if \<not> (MOVE_IS_CAPTURE m \<or> MOVE_IS_EP m) then False
      else if MOVE_PIECE m = ROOK then True
      else if MOVE_IS_PROMO m then True
      else if MOVE_CAPTURED m \<ge> KNIGHT then True
      else if MOVE_CAPTURED m = PAWN \<and> central (MOVE_TO m) then True
      else MOVE_PIECE m = PAWN \<and> heir_pawn_advance (side b) (MOVE_TO m) \<ge> 4)"


section \<open>Scores of single moves\<close>

definition search_heir_f_pawn_block_move_penalty :: "Board \<Rightarrow> Move \<Rightarrow> int" where
  "search_heir_f_pawn_block_move_penalty b m =
     (if game_mod b \<noteq> MOD_HEIR \<or> MOVE_PIECE m \<noteq> KNIGHT then 0
      else let us = side b;
          home_from = (if us = WHITE then SQ 0 6 else SQ 7 6);
          block_sq = (if us = WHITE then SQ 2 5 else SQ 5 5);
          home_f = (if us = WHITE then SQ 1 5 else SQ 6 5);
          spear_sq = (if us = WHITE then SQ 4 4 else SQ 3 4);
          anchor_sq = (if us = WHITE then SQ 3 3 else SQ 4 3) in
        if fullmove b > 12 then 0
        else if MOVE_FROM m \<noteq> home_from \<or> MOVE_TO m \<noteq> block_sq then 0
        else if \<not> BB_HAS (pieces b us PAWN) home_f then 0
        else if \<not> BB_HAS (pieces b us PAWN) spear_sq then 0
        else 70 + bonus_if (BB_HAS (pieces b us PAWN) anchor_sq) 30)"

definition search_heir_early_queen_sortie_penalty :: "Board \<Rightarrow> Move \<Rightarrow> int" where
  "search_heir_early_queen_sortie_penalty b m =
     (if game_mod b \<noteq> MOD_HEIR \<or> MOVE_PIECE m \<noteq> QUEEN then 0
      else let us = side b; opp = color_opposite us;
          minor_total = bb_popcount (minors b us);
          minor_developed = search_heir_developed_minor_count b us;
          undeveloped = minor_total - minor_developed in
        if fullmove b > 12 then 0
        else if \<not> leaves_back_rank us m then 0
        else if bb_popcount (pieces b us PAWN) < 4 \<or> bb_popcount (pieces b opp PAWN) < 4 then 0
        else if undeveloped \<le> 0 then 0
        else let penalty = 120 + undeveloped * 30 in
          if minor_developed = 0 then penalty + 40
          else if minor_developed = 1 then penalty + 20
          else penalty)"

definition search_heir_risky_bishop_pawn_grab_penalty :: "Board \<Rightarrow> Move \<Rightarrow> int" where
  "search_heir_risky_bishop_pawn_grab_penalty b m =
     (if game_mod b \<noteq> MOD_HEIR then 0
      else if MOVE_PIECE m \<noteq> BISHOP then 0
      else if \<not> MOVE_IS_CAPTURE m \<or> MOVE_CAPTURED m \<noteq> PAWN then 0
      else if fullmove b > 22 then 0
      else let us = side b; opp = color_opposite us;
          king_on_home = BB_HAS (pieces b us KING) (heir_king_home us);
          can_castle = (castling b AND castle_mask_of us \<noteq> 0) in
        if \<not> king_on_home \<and> \<not> can_castle then 0
        else if \<not> central (MOVE_TO m) then 0
        else if \<not> board_square_attacked b (MOVE_TO m) opp then 0
        else let from = MOVE_FROM m in
          240 + bonus_if (us = WHITE \<and> (from = SQ 1 1 \<or> from = SQ 1 6) \<or>
                          us = BLACK \<and> (from = SQ 6 1 \<or> from = SQ 6 6)) 80)"

definition search_heir_flank_pawn_drift_penalty :: "Board \<Rightarrow> Move \<Rightarrow> int" where
  "search_heir_flank_pawn_drift_penalty b m =
     (if game_mod b \<noteq> MOD_HEIR \<or> MOVE_PIECE m \<noteq> PAWN then 0
      else if \<not> quiet m then 0
      else if pieces b WHITE KING \<noteq> BB_EMPTY \<or> pieces b BLACK KING \<noteq> BB_EMPTY then 0
      else let file = SQ_COL (MOVE_TO m) in
        if file \<noteq> 0 \<and> file \<noteq> 7 then 0
        else if heir_pawn_advance (side b) (MOVE_TO m) > 2 then 0
        else let us = side b; heavy_minors = pieces b us ROOK OR pieces b us BISHOP OR pieces b us QUEEN in
          if heavy_minors = BB_EMPTY then 0
          else if pieces b us BISHOP \<noteq> BB_EMPTY then 210 else 170)"

definition search_heir_risky_center_pawn_push_penalty :: "Board \<Rightarrow> Move \<Rightarrow> int" where
  "search_heir_risky_center_pawn_push_penalty b m =
     (if game_mod b \<noteq> MOD_HEIR \<or> MOVE_PIECE m \<noteq> PAWN then 0
      else if \<not> quiet m then 0
      else let us = side b in
        if \<not> BB_HAS (pieces b us KING) (heir_king_home us) then 0
        else let file = SQ_COL (MOVE_TO m) in
          if file < 4 \<or> file > 6 then 0
          else let from_rank = rel_row us (MOVE_FROM m); to_rank = rel_row us (MOVE_TO m) in
            if to_rank < 2 \<or> to_rank > 4 then 0
            else if to_rank < from_rank then 0
            else if \<not> heir_square_attacked_by_enemy_pawn b (MOVE_TO m) us then 0
            else 240 + bonus_if (file = 5) 80 + bonus_if (from_rank \<le> 1) 30)"

definition search_heir_simplified_center_pawn_push_penalty :: "Board \<Rightarrow> Move \<Rightarrow> int" where
  "search_heir_simplified_center_pawn_push_penalty b m =
     (if game_mod b \<noteq> MOD_HEIR \<or> MOVE_PIECE m \<noteq> PAWN then 0
      else if \<not> quiet m then 0
      else if fullmove b < 16 then 0
      else let to = MOVE_TO m; file = SQ_COL to in
        if file < 3 \<or> file > 4 then 0
        else if bb_popcount (occupied b WHITE OR occupied b BLACK) > 16 then 0
        else if pieces b WHITE ROOK = BB_EMPTY \<or> pieces b BLACK ROOK = BB_EMPTY then 0
        else let us = side b in
          if \<not> heir_has_quiet_flank_pawn_push b us then 0
          else if \<not> board_square_attacked b to (color_opposite us) then 0
          else 320 + bonus_if (SQ_COL (MOVE_FROM m) \<ge> 3 \<and> SQ_COL (MOVE_FROM m) \<le> 4) 40)"

definition search_heir_pawn_harass_score :: "Board \<Rightarrow> Move \<Rightarrow> int" where
  "search_heir_pawn_harass_score b m =
     (if game_mod b \<noteq> MOD_HEIR \<or> MOVE_PIECE m \<noteq> PAWN then 0
      else if \<not> quiet m then 0
      else let us = side b; opp = color_opposite us;
          hits = pawn_attacks us (MOVE_TO m) AND minors b opp in
        if hits = BB_EMPTY then 0
        else 160 + bonus_if (fullmove b \<le> 20) 50
          + bonus_if (SQ_COL (MOVE_FROM m) \<ge> 4 \<and> SQ_COL (MOVE_FROM m) \<le> 6) 40
          + bonus_if (BB_HAS (pieces b us KING) (heir_king_home us) \<or> castling b AND castle_mask_of us \<noteq> 0) 40
          + bonus_if (hits AND pieces b opp BISHOP \<noteq> BB_EMPTY) 40)"

text \<open>The loop returns at the first square of the king's ring that keeps off the edge and is safe.\<close>

definition search_heir_passive_king_edge_retreat_penalty :: "Board \<Rightarrow> Move \<Rightarrow> int" where
  "search_heir_passive_king_edge_retreat_penalty b m =
     (if game_mod b \<noteq> MOD_HEIR \<or> MOVE_PIECE m \<noteq> KING then 0
      else if \<not> quiet m then 0
      else if fullmove b < 20 then 0
      else let us = side b; opp = color_opposite us in
        if board_in_check b us then 0
        else let from = MOVE_FROM m; to = MOVE_TO m; from_file = SQ_COL from; to_file = SQ_COL to in
          if from_file = 0 \<or> from_file = 7 then 0
          else if to_file \<noteq> 0 \<and> to_file \<noteq> 7 then 0
          else if list_ex (\<lambda>alt. \<not> (alt = to) \<and> \<not> (SQ_COL alt = 0 \<or> SQ_COL alt = 7) \<and>
                    \<not> BB_HAS (occupied b us) alt \<and> \<not> board_square_attacked b alt opp)
                 (bb_squares (king_attacks from)) then 180
          else 0)"

end
