(* ===== verification/HeurTruce.thy ===== *)
theory HeurTruce
  imports HeurTypes
begin

text \<open>
  The Truce heuristics of the search, \<open>search/heuristics_truce.c\<close>: development, early queen moves
  and pawn moves while the truce holds, and one king motif after it.
\<close>

definition search_truce_undeveloped_minor_count :: "Board \<Rightarrow> Color \<Rightarrow> int" where
  "search_truce_undeveloped_minor_count b c =
     (if game_mod b \<noteq> MOD_TRUCE \<or> \<not> truce_active b then 0 else home_minors b c)"

text \<open>The shell of Black's pawns and White's bishop that three opening motifs test.\<close>

definition truce_e3_shell :: "Board \<Rightarrow> bool" where
  "truce_e3_shell b \<longleftrightarrow> BB_HAS (pieces b BLACK PAWN) (SQ 6 2) \<and> BB_HAS (pieces b BLACK PAWN) (SQ 4 3) \<and>
     BB_HAS (pieces b WHITE BISHOP) (SQ 4 1)"

definition truce_bishop_score :: "Board \<Rightarrow> Move \<Rightarrow> Color \<Rightarrow> int" where
  "truce_bishop_score b m c =
     (let from_sq = MOVE_FROM m; to_sq = MOVE_TO m; to_rank = rel_row c to_sq;
          undeveloped = search_truce_undeveloped_minor_count b c;
          wing_file = (SQ_COL to_sq \<le> 1 \<or> SQ_COL to_sq \<ge> 6)
      in (if to_rank \<ge> 2 then 16 else - 20)
       - bonus_if (fullmove b \<le> 8 \<and> wing_file \<and> undeveloped \<ge> 2) 38
       - bonus_if (wing_file \<and> to_rank \<ge> 4) 10
       - bonus_if (c = BLACK \<and> fullmove b \<le> 8 \<and> from_sq = SQ 7 2 \<and> to_sq = SQ 2 7 \<and>
           BB_HAS (pieces b WHITE PAWN) (SQ 2 6) \<and> BB_HAS (pieces b WHITE PAWN) (SQ 1 7)) 120
       - bonus_if (c = BLACK \<and> fullmove b \<le> 6 \<and> from_sq = SQ 7 2 \<and> to_sq = SQ 4 5 \<and> truce_e3_shell b) 90
       - bonus_if (c = BLACK \<and> fullmove b \<le> 6 \<and> from_sq = SQ 7 2 \<and> to_sq = SQ 5 4 \<and> truce_e3_shell b) 70)"

definition search_truce_minor_development_score :: "Board \<Rightarrow> Move \<Rightarrow> Color \<Rightarrow> int" where
  "search_truce_minor_development_score b m c =
     (if game_mod b \<noteq> MOD_TRUCE \<or> \<not> truce_active b \<or> \<not> quiet m then 0
      else let piece = MOVE_PIECE m; from_sq = MOVE_FROM m; to_sq = MOVE_TO m;
          to_rank = rel_row c to_sq;
          undeveloped = search_truce_undeveloped_minor_count b c in
        if piece \<noteq> KNIGHT \<and> piece \<noteq> BISHOP then 0
        else if \<not> leaves_back_rank c m then 0
        else (if piece = KNIGHT then 54 else 38)
          + bonus_if (undeveloped \<ge> 2) 14
          + bonus_if (undeveloped \<ge> 3) 8
          + bonus_if (center_files to_sq) 8
          + bonus_if (to_rank \<ge> 2) 4
          + (if piece = BISHOP then truce_bishop_score b m c else 0)
          - bonus_if (piece = KNIGHT \<and> c = BLACK \<and> fullmove b \<le> 6 \<and> from_sq = SQ 7 1 \<and> to_sq = SQ 5 0 \<and>
              truce_e3_shell b) 72)"

definition truce_king_motif :: "Board \<Rightarrow> Move \<Rightarrow> Color \<Rightarrow> bool" where
  "truce_king_motif b m c \<longleftrightarrow>
     game_mod b = MOD_TRUCE \<and> \<not> truce_active b \<and> MOVE_PIECE m = KING \<and> \<not> MOVE_IS_CASTLE m \<and> quiet m \<and>
     c = WHITE \<and> fullmove b \<le> 22 \<and> MOVE_FROM m = SQ 0 7 \<and> MOVE_TO m = SQ 1 6 \<and>
     BB_HAS (pieces b BLACK KNIGHT) (SQ 5 5) \<and> BB_HAS (pieces b BLACK QUEEN) (SQ 5 4) \<and>
     BB_HAS (pieces b WHITE PAWN) (SQ 3 6) \<and> BB_HAS (pieces b WHITE KNIGHT) (SQ 2 5)"

definition search_truce_early_queen_sortie_penalty :: "Board \<Rightarrow> Move \<Rightarrow> Color \<Rightarrow> int" where
  "search_truce_early_queen_sortie_penalty b m c =
     (if truce_king_motif b m c then 220
      else if game_mod b \<noteq> MOD_TRUCE \<or> \<not> truce_active b \<or> MOVE_PIECE m \<noteq> QUEEN \<or> \<not> quiet m then 0
      else let undeveloped = search_truce_undeveloped_minor_count b c in
        if fullmove b > 8 then 0
        else if \<not> leaves_back_rank c m then 0
        else if undeveloped \<le> 1 then 0
        else 90 + undeveloped * 22)"

text \<open>
  The two squares a pawn on \<open>sq\<close> would attack; \<open>P\<close> is tested on each that is on the board.
\<close>

definition pawn_hits :: "(Square \<Rightarrow> int) \<Rightarrow> Color \<Rightarrow> Square \<Rightarrow> int" where
  "pawn_hits f c sq =
     (let attack_row = SQ_ROW sq + forward_step c; file = SQ_COL sq in
      if attack_row \<ge> 0 \<and> attack_row < 8 then
        (if file > 0 then f (SQ attack_row (file - 1)) else 0) + (if file < 7 then f (SQ attack_row (file + 1)) else 0)
      else 0)"

definition search_truce_quiet_pawn_score :: "Board \<Rightarrow> Move \<Rightarrow> Color \<Rightarrow> int" where
  "search_truce_quiet_pawn_score b m c =
     (if game_mod b \<noteq> MOD_TRUCE \<or> \<not> truce_active b \<or> MOVE_PIECE m \<noteq> PAWN \<or> \<not> quiet m then 0
      else let from_sq = MOVE_FROM m; to_sq = MOVE_TO m; to_rank = rel_row c to_sq in
        if rel_row c from_sq \<noteq> 1 then 0
        else 28 + (if to_rank \<ge> 3 then 18 else 8)
          + bonus_if (center_files to_sq) 12
          + pawn_hits (\<lambda>s. bonus_if (BB_HAS (pieces b (color_opposite c) BISHOP) s) 36) c to_sq
          + bonus_if (c = BLACK \<and> fullmove b \<le> 6 \<and> from_sq = SQ 6 2 \<and> to_sq = SQ 5 2 \<and>
              BB_HAS (pieces b BLACK PAWN) (SQ 4 3) \<and> BB_HAS (pieces b WHITE BISHOP) (SQ 4 1)) 92)"

end
