(* ===== verification/HeurMercenary.thy ===== *)
theory HeurMercenary
  imports HeurTypes
begin

text \<open>
  The Mercenary heuristics of the search, \<open>search/heuristics_mercenary.c\<close>.
\<close>

definition merc_undeveloped_minor_count :: "Board \<Rightarrow> Color \<Rightarrow> int" where
  "merc_undeveloped_minor_count b c = home_minors b c"

definition search_merc_minor_development_score :: "Board \<Rightarrow> Move \<Rightarrow> Color \<Rightarrow> int" where
  "search_merc_minor_development_score b m c =
     (if game_mod b \<noteq> MOD_MERCENARY \<or> \<not> quiet m then 0
      else let piece = MOVE_PIECE m in
        if piece \<noteq> KNIGHT \<and> piece \<noteq> BISHOP then 0
        else if \<not> leaves_back_rank c m then 0
        else let to_sq = MOVE_TO m; to_rank = rel_row c to_sq;
            undeveloped = merc_undeveloped_minor_count b c
          in (if piece = KNIGHT then 52 else 36)
            + bonus_if (undeveloped \<ge> 2) 16
            + bonus_if (undeveloped \<ge> 3) 10
            + bonus_if (center_files to_sq) 10
            + bonus_if (to_rank \<ge> 2 \<and> to_rank \<le> 4) 6
            + bonus_if (piece = KNIGHT \<and> to_rank \<ge> 2 \<and> to_rank \<le> 4 \<and> center_files to_sq) 14
            + bonus_if (piece = BISHOP \<and> to_rank \<ge> 2) 12)"

definition search_merc_early_queen_sortie_penalty :: "Board \<Rightarrow> Move \<Rightarrow> Color \<Rightarrow> int" where
  "search_merc_early_queen_sortie_penalty b m c =
     (if game_mod b \<noteq> MOD_MERCENARY \<or> MOVE_PIECE m \<noteq> QUEEN \<or> \<not> quiet m then 0
      else if \<not> leaves_back_rank c m then 0
      else if fullmove b > 10 then 0
      else let undeveloped = merc_undeveloped_minor_count b c in
        if undeveloped \<le> 1 then 0 else 80 + undeveloped * 24)"

definition MERC_APPROACH :: "int list" where
  "MERC_APPROACH = [0, 16, 8, 3]"

definition search_merc_quiet_pawn_score :: "Board \<Rightarrow> Move \<Rightarrow> Color \<Rightarrow> int" where
  "search_merc_quiet_pawn_score b m c =
     (if game_mod b \<noteq> MOD_MERCENARY \<or> MOVE_PIECE m \<noteq> PAWN \<or> \<not> quiet m then 0
      else let to_sq = MOVE_TO m; to_rank = rel_row c to_sq;
          enemy_king_bb = pieces b (color_opposite c) KING;
          proximity = (if enemy_king_bb \<noteq> 0 then
              let dist = chebyshev_distance_sq to_sq (bb_lsb enemy_king_bb) in
              if dist \<le> 3 then MERC_APPROACH ! nat dist else 0
            else 0);
          neighbor_count = bb_popcount (king_attacks to_sq AND pieces b c PAWN)
        in proximity
          + bonus_if (center_files to_sq \<and> to_rank \<ge> 2 \<and> to_rank \<le> 5) 6
          + bonus_if (neighbor_count \<ge> 1) 4
          + bonus_if (neighbor_count \<ge> 2) 4
          + bonus_if (to_rank \<ge> 4) 4)"

definition search_merc_king_safety_score :: "Board \<Rightarrow> Move \<Rightarrow> Color \<Rightarrow> int" where
  "search_merc_king_safety_score b m c =
     (if game_mod b \<noteq> MOD_MERCENARY then 0
      else if MOVE_PIECE m \<noteq> KING then 0
      else if MOVE_IS_CAPTURE m \<or> MOVE_IS_EP m then 0
      else if fullmove b \<le> 12 then
        let from_sq = MOVE_FROM m; to_sq = MOVE_TO m;
            from_shield = bb_popcount (king_attacks from_sq AND pieces b c PAWN);
            to_shield = bb_popcount (king_attacks to_sq AND pieces b c PAWN);
            from_rank = rel_row c from_sq; to_rank = rel_row c to_sq
        in - bonus_if (to_shield < from_shield) ((from_shield - to_shield) * 18)
           - bonus_if (from_rank \<le> 1 \<and> to_rank \<ge> 2 \<and> fullmove b \<le> 8) 30
           + bonus_if (to_shield > from_shield) ((to_shield - from_shield) * 8)
      else 0)"

end
