(* ===== verification/HeurFriendlyFire.thy ===== *)
theory HeurFriendlyFire
  imports HeurTruce
begin

text \<open>
  The Friendly Fire heuristics of the search, \<open>search/heuristics_friendly_fire.c\<close>: captures of own
  pieces, development, pressure on the enemy king, the guard of the own king and the squares that
  enemy pawns challenge.
\<close>

section \<open>Helpers\<close>

definition ff_undeveloped_minor_count :: "Board \<Rightarrow> Color \<Rightarrow> int" where
  "ff_undeveloped_minor_count b c = (if game_mod b \<noteq> MOD_FRIENDLY_FIRE then 0 else home_minors b c)"

definition ff_pawn_shield_count :: "Board \<Rightarrow> Color \<Rightarrow> Square \<Rightarrow> int" where
  "ff_pawn_shield_count b c ksq =
     (let row = SQ_ROW ksq; col = SQ_COL ksq; next_row = row + forward_step c in
      if next_row < 0 \<or> next_row > 7 then 0
      else sum_list (map (\<lambda>dc. let nc = col + dc in
          if nc < 0 \<or> nc > 7 then 0 else bonus_if (BB_HAS (pieces b c PAWN) (SQ next_row nc)) 1) [-1, 0, 1]))"

definition ff_center_file_distance :: "Square \<Rightarrow> int" where
  "ff_center_file_distance sq =
     (let file = SQ_COL sq; d3 = \<bar>file - 3\<bar>; d4 = \<bar>file - 4\<bar> in if d3 < d4 then d3 else d4)"

definition ff_is_flank_file :: "int \<Rightarrow> bool" where
  "ff_is_flank_file file \<longleftrightarrow> file \<le> 1 \<or> file \<ge> 6"

definition ff_side_pawn_activity :: "Board \<Rightarrow> Color \<Rightarrow> int" where
  "ff_side_pawn_activity b c =
     bb_count (\<lambda>sq. (SQ_COL sq \<le> 2 \<or> SQ_COL sq \<ge> 5) \<and> rel_row c sq \<noteq> 1) (pieces b c PAWN)"

definition ff_guard_piece_attacks :: "PieceType \<Rightarrow> Square \<Rightarrow> Bitboard \<Rightarrow> Bitboard" where
  "ff_guard_piece_attacks piece sq occ =
     (if piece = BISHOP then bishop_attacks_calc sq occ
      else if piece = QUEEN then queen_rays sq occ
      else BB_EMPTY)"

definition ff_pressure_piece_attacks :: "PieceType \<Rightarrow> Square \<Rightarrow> Bitboard \<Rightarrow> Bitboard" where
  "ff_pressure_piece_attacks piece sq occ =
     (if piece = KNIGHT then knight_attacks sq
      else if piece = BISHOP then bishop_attacks_calc sq occ
      else if piece = QUEEN then queen_rays sq occ
      else BB_EMPTY)"

definition ff_pressure_pawn_bonus :: "Color \<Rightarrow> Square \<Rightarrow> Square \<Rightarrow> bool \<Rightarrow> int" where
  "ff_pressure_pawn_bonus c pawn_sq ksq has_king_sq =
     (let forward_rank = rel_row c pawn_sq in
      14 + bonus_if (forward_rank \<le> 1) 12 + bonus_if (forward_rank \<le> 2) 6
       + bonus_if (has_king_sq \<and> \<bar>SQ_COL pawn_sq - SQ_COL ksq\<bar> \<le> 1) 10)"

definition ff_piece_challenge_penalty :: "PieceType \<Rightarrow> bool \<Rightarrow> int" where
  "ff_piece_challenge_penalty piece immediate =
     (case piece of
        KNIGHT \<Rightarrow> if immediate then 140 else 54
      | BISHOP \<Rightarrow> if immediate then 112 else 42
      | QUEEN \<Rightarrow> if immediate then 64 else 24
      | _ \<Rightarrow> 0)"

definition ff_piece_harass_bonus :: "Piece \<Rightarrow> int" where
  "ff_piece_harass_bonus piece =
     (if piece = PIECE_EMPTY then 0
      else case PIECE_TYPE piece of QUEEN \<Rightarrow> 60 | ROOK \<Rightarrow> 52 | BISHOP \<Rightarrow> 44 | KNIGHT \<Rightarrow> 44 | _ \<Rightarrow> 0)"

definition ff_self_capture_prep_target_bonus :: "Piece \<Rightarrow> int" where
  "ff_self_capture_prep_target_bonus piece =
     (if piece = PIECE_EMPTY then 0
      else case PIECE_TYPE piece of
        KING \<Rightarrow> 108 | QUEEN \<Rightarrow> 72 | ROOK \<Rightarrow> 58 | BISHOP \<Rightarrow> 44 | KNIGHT \<Rightarrow> 44 | _ \<Rightarrow> 0)"

text \<open>
  The ray walk of \<open>ff_self_capture_prep_ray_score\<close>.  The blocker seen so far is its type and step;
  at most seven steps stay on the board, so eight rounds always reach the end of the ray.
\<close>

definition ff_prep_value :: "Piece \<Rightarrow> PieceType \<Rightarrow> int \<Rightarrow> int \<Rightarrow> int" where
  "ff_prep_value piece blocker_type blocker_step step =
     (let bonus = ff_self_capture_prep_target_bonus piece in
      if bonus \<le> 0 then 0
      else bonus + (if blocker_type = PAWN then 36
                    else if blocker_type = KNIGHT \<or> blocker_type = BISHOP then 14 else 0)
        + bonus_if (blocker_step \<le> 2) 18 + bonus_if (step - blocker_step \<le> 3) 14)"

fun ff_prep_ray :: "nat \<Rightarrow> Board \<Rightarrow> Bitboard \<Rightarrow> Square \<Rightarrow> Color \<Rightarrow> int \<Rightarrow> int \<Rightarrow>
    int \<Rightarrow> int \<Rightarrow> int \<Rightarrow> (PieceType \<times> int) option \<Rightarrow> int" where
  "ff_prep_ray 0 b occ from_sq c dr dc row col step blocker = 0"
| "ff_prep_ray (Suc n) b occ from_sq c dr dc row col step blocker =
     (let row = row + dr; col = col + dc; step = step + 1 in
      if row < 0 \<or> row > 7 \<or> col < 0 \<or> col > 7 then 0
      else let sq = SQ row col; piece = piece_at b sq in
        if \<not> BB_HAS occ sq \<or> sq = from_sq then ff_prep_ray n b occ from_sq c dr dc row col step blocker
        else if piece = PIECE_EMPTY then ff_prep_ray n b occ from_sq c dr dc row col step blocker
        else case blocker of
          None \<Rightarrow>
            if PIECE_COLOR piece = c \<and> PIECE_TYPE piece \<noteq> KING \<and> BB_HAS (ff_moved b) sq
            then ff_prep_ray n b occ from_sq c dr dc row col step (Some (PIECE_TYPE piece, step))
            else 0
        | Some (blocker_type, blocker_step) \<Rightarrow>
            if PIECE_COLOR piece = c then 0
            else ff_prep_value piece blocker_type blocker_step step)"

definition ff_self_capture_prep_ray_score :: "Board \<Rightarrow> Square \<Rightarrow> Square \<Rightarrow> Color \<Rightarrow> int \<Rightarrow> int \<Rightarrow> int" where
  "ff_self_capture_prep_ray_score b from_sq to_sq c dr dc =
     (let occ = all_bb b AND NOT (BB_SQ from_sq) OR BB_SQ to_sq in
      ff_prep_ray 8 b occ from_sq c dr dc (SQ_ROW to_sq) (SQ_COL to_sq) 0 None)"


section \<open>Captures of own pieces\<close>

definition search_ff_is_own_capture :: "Board \<Rightarrow> Move \<Rightarrow> bool" where
  "search_ff_is_own_capture b m =
     (if game_mod b \<noteq> MOD_FRIENDLY_FIRE then False
      else if \<not> (MOVE_IS_CAPTURE m \<or> MOVE_IS_EP m) then False
      else if MOVE_IS_EP m then False
      else let from_piece = piece_at b (MOVE_FROM m); to_piece = piece_at b (MOVE_TO m) in
        if from_piece = PIECE_EMPTY \<or> to_piece = PIECE_EMPTY then False
        else PIECE_COLOR from_piece = PIECE_COLOR to_piece)"

definition ff_capture_attacks :: "Board \<Rightarrow> PieceType \<Rightarrow> Square \<Rightarrow> Square \<Rightarrow> Color \<Rightarrow> Bitboard" where
  "ff_capture_attacks b mover from_sq to_sq c =
     (let occ = all_bb b XOR BB_SQ from_sq;
          attacks = BB_EMPTY;
          attacks = (if mover = BISHOP \<or> mover = QUEEN then attacks OR bishop_attacks_calc to_sq occ else attacks);
          attacks = (if mover = ROOK \<or> mover = QUEEN then attacks OR rook_attacks_calc to_sq occ else attacks);
          attacks = (if mover = KNIGHT then attacks OR knight_attacks to_sq else attacks);
          attacks = (if mover = KING then attacks OR king_attacks to_sq else attacks);
          attack_row = SQ_ROW to_sq + forward_step c; file = SQ_COL to_sq
      in if mover = PAWN \<and> attack_row \<ge> 0 \<and> attack_row < 8 then
           let attacks = (if file > 0 then attacks OR BB_SQ (SQ attack_row (file - 1)) else attacks)
           in if file < 7 then attacks OR BB_SQ (SQ attack_row (file + 1)) else attacks
         else attacks)"

definition ff_mover_bonus :: "Move \<Rightarrow> Color \<Rightarrow> int" where
  "ff_mover_bonus m c =
     (let mover = MOVE_PIECE m; to_rank = rel_row c (MOVE_TO m) in
      if mover = QUEEN then 40
      else if mover = ROOK \<or> mover = BISHOP then 28
      else if mover = KNIGHT then 18
      else if mover = KING then 8
      else if mover = PAWN \<and> MOVE_CAPTURED m = PAWN then
        60 + bonus_if (to_rank \<ge> 3) 50 + bonus_if (to_rank \<ge> 4) 30
         + bonus_if (SQ_COL (MOVE_FROM m) = 0 \<or> SQ_COL (MOVE_FROM m) = 7) 24
      else 0)"

definition search_ff_self_capture_score :: "Board \<Rightarrow> Move \<Rightarrow> Color \<Rightarrow> int" where
  "search_ff_self_capture_score b m c =
     (if \<not> search_ff_is_own_capture b m then 0
      else let mover = MOVE_PIECE m; captured = MOVE_CAPTURED m; from_sq = MOVE_FROM m; to_sq = MOVE_TO m in
        if captured \<noteq> PAWN \<and> captured \<noteq> KNIGHT \<and> captured \<noteq> BISHOP then 0
        else let attacks = ff_capture_attacks b mover from_sq to_sq c;
            enemy_king = pieces b (color_opposite c) KING;
            enemy_queen = pieces b (color_opposite c) QUEEN
          in (if captured = PAWN then 90 else 18)
            + ff_mover_bonus m c
            + bonus_if (central to_sq) 70
            + (if enemy_king \<noteq> BB_EMPTY then
                 let ksq = bb_lsb enemy_king; dist = chebyshev_distance_sq to_sq ksq in
                 bonus_if (BB_HAS attacks ksq) 96 + (if dist \<le> 2 then 44 else if dist = 3 then 18 else 0)
               else 0)
            + (if enemy_queen \<noteq> BB_EMPTY then bonus_if (BB_HAS attacks (bb_lsb enemy_queen)) 36 else 0))"


section \<open>Quiet moves\<close>

definition search_ff_minor_development_score :: "Board \<Rightarrow> Move \<Rightarrow> Color \<Rightarrow> int" where
  "search_ff_minor_development_score b m c =
     (if game_mod b \<noteq> MOD_FRIENDLY_FIRE \<or> \<not> quiet m then 0
      else let piece = MOVE_PIECE m in
        if piece \<noteq> KNIGHT \<and> piece \<noteq> BISHOP then 0
        else if \<not> leaves_back_rank c m then 0
        else let undeveloped = ff_undeveloped_minor_count b c; to_rank = rel_row c (MOVE_TO m) in
          (if piece = KNIGHT then 56 else 46)
          + bonus_if (undeveloped \<ge> 2) 14
          + bonus_if (undeveloped \<ge> 3) 8
          + bonus_if (center_files (MOVE_TO m)) 12
          + bonus_if (to_rank \<ge> 2) 8
          + bonus_if (piece = BISHOP \<and> to_rank \<ge> 1) 8)"

definition search_ff_early_queen_sortie_penalty :: "Board \<Rightarrow> Move \<Rightarrow> Color \<Rightarrow> int" where
  "search_ff_early_queen_sortie_penalty b m c =
     (if game_mod b \<noteq> MOD_FRIENDLY_FIRE \<or> MOVE_PIECE m \<noteq> QUEEN \<or> \<not> quiet m then 0
      else let from_sq = MOVE_FROM m; to_sq = MOVE_TO m in
        if fullmove b > 12 then 0
        else if c = WHITE \<and> castling b AND (CASTLE_WK OR CASTLE_WQ) = 0 then 0
        else if c = BLACK \<and> castling b AND (CASTLE_BK OR CASTLE_BQ) = 0 then 0
        else if \<not> leaves_back_rank c m then 0
        else let undeveloped = ff_undeveloped_minor_count b c in
          if undeveloped \<le> 1 then 0
          else let penalty = 84 + undeveloped * 22;
              king_bb = pieces b c KING;
              penalty = (if king_bb \<noteq> BB_EMPTY then
                  let ksq = bb_lsb king_bb; to_rank = rel_row c to_sq in
                  penalty
                  + bonus_if (SQ_ROW ksq = back_rank_of c \<and> SQ_COL ksq \<ge> 3 \<and> SQ_COL ksq \<le> 4) 24
                  - (if to_rank \<le> 2 \<and> chebyshev_distance_sq to_sq ksq \<le> 2
                     then 32 + bonus_if (board_square_attacked b from_sq (color_opposite c)) 24 else 0)
                else penalty)
            in if penalty < 0 then 0 else penalty)"

text \<open>The three parts of \<open>search_ff_quiet_pawn_score\<close>: pawns on their home rank, pawns close to
  promotion, and attacked enemy pieces.\<close>

definition ff_home_pawn_score :: "Board \<Rightarrow> Move \<Rightarrow> Color \<Rightarrow> int" where
  "ff_home_pawn_score b m c =
     (let to_rank = rel_row c (MOVE_TO m); file = SQ_COL (MOVE_TO m);
          side_pawn_activity = ff_side_pawn_activity b c;
          undeveloped = ff_undeveloped_minor_count b c;
          king_bb = pieces b c KING
      in 22 + (if to_rank \<ge> 3 then 18 else 8)
       + bonus_if (file \<ge> 2 \<and> file \<le> 5) 12
       + (if file = 3 \<or> file = 4 then
            30 + bonus_if (undeveloped \<ge> 2) 18 + bonus_if (side_pawn_activity > 0) (34 + side_pawn_activity * 10)
          else bonus_if ((file = 2 \<or> file = 5) \<and> side_pawn_activity > 0) (22 + side_pawn_activity * 6))
       + bonus_if (king_bb \<noteq> BB_EMPTY \<and>
           (c = WHITE \<and> bb_lsb king_bb = SQ 0 4 \<or> c = BLACK \<and> bb_lsb king_bb = SQ 7 4) \<and>
           (file = 3 \<or> file = 4)) 16
       + (if side_pawn_activity > 0 then
            bonus_if (file = 4 \<and> BB_HAS (pieces b c BISHOP) (if c = WHITE then SQ 0 5 else SQ 7 5)) 18
            + bonus_if (file = 3 \<and> BB_HAS (pieces b c BISHOP) (if c = WHITE then SQ 0 2 else SQ 7 2)) 16
          else 0))"

definition ff_far_pawn_score :: "Board \<Rightarrow> Move \<Rightarrow> Color \<Rightarrow> int" where
  "ff_far_pawn_score b m c =
     (let to_sq = MOVE_TO m; to_rank = rel_row c to_sq; file = SQ_COL to_sq;
          push_row = SQ_ROW to_sq + forward_step c;
          enemy_king_bb = pieces b (color_opposite c) KING
      in 26 + (to_rank - 4) * 18 + bonus_if (to_rank \<ge> 6) 44 + bonus_if (file \<ge> 2 \<and> file \<le> 5) 10
       + (if enemy_king_bb \<noteq> BB_EMPTY then
            let ksq = bb_lsb enemy_king_bb in
            bonus_if (chebyshev_distance_sq to_sq ksq \<le> 3) 16 + bonus_if (\<bar>file - SQ_COL ksq\<bar> \<le> 1) 14
          else 0)
       + bonus_if (push_row \<ge> 0 \<and> push_row < 8 \<and> \<not> BB_HAS (all_bb b) (SQ push_row file)) 18)"

definition search_ff_quiet_pawn_score :: "Board \<Rightarrow> Move \<Rightarrow> Color \<Rightarrow> int" where
  "search_ff_quiet_pawn_score b m c =
     (if game_mod b \<noteq> MOD_FRIENDLY_FIRE \<or> MOVE_PIECE m \<noteq> PAWN \<or> \<not> quiet m then 0
      else if fullmove b > 16 then 0
      else let from_sq = MOVE_FROM m; to_sq = MOVE_TO m;
          from_rank = rel_row c from_sq; to_rank = rel_row c to_sq; file = SQ_COL to_sq;
          side_pawn_activity = ff_side_pawn_activity b c
        in (if from_rank = 1 then ff_home_pawn_score b m c else 0)
          + (if (file = 1 \<or> file = 6) \<and> from_rank \<ge> 3 \<and> to_rank = from_rank + 1
             then 72 + bonus_if (to_rank \<ge> 4) 18 + bonus_if (side_pawn_activity > 0) 12 else 0)
          + (if to_rank \<ge> 5 \<and> to_rank = from_rank + 1 then ff_far_pawn_score b m c else 0)
          + pawn_hits (\<lambda>s. let piece = piece_at b s in
              if piece \<noteq> PIECE_EMPTY \<and> PIECE_COLOR piece = color_opposite c
              then ff_piece_harass_bonus piece else 0) c to_sq)"

definition search_ff_quiet_pressure_score :: "Board \<Rightarrow> Move \<Rightarrow> Color \<Rightarrow> int" where
  "search_ff_quiet_pressure_score b m c =
     (if game_mod b \<noteq> MOD_FRIENDLY_FIRE \<or> \<not> quiet m then 0
      else let piece = MOVE_PIECE m in
        if piece \<noteq> KNIGHT \<and> piece \<noteq> BISHOP \<and> piece \<noteq> QUEEN then 0
        else if piece = QUEEN \<and> search_ff_early_queen_sortie_penalty b m c > 0 then 0
        else let from_sq = MOVE_FROM m; to_sq = MOVE_TO m; opp = color_opposite c;
            occ = (all_bb b XOR BB_SQ from_sq) OR BB_SQ to_sq;
            attacks = ff_pressure_piece_attacks piece to_sq occ;
            enemy_king_bb = pieces b opp KING;
            has_enemy_king = (enemy_king_bb \<noteq> BB_EMPTY);
            ksq = (if has_enemy_king then bb_lsb enemy_king_bb else SQ 0 4);
            zone_hits = bb_popcount (attacks AND (king_attacks ksq OR BB_SQ ksq));
            king_score = (if has_enemy_king then
                bonus_if (zone_hits > 0)
                  (if piece = KNIGHT then zone_hits * 18 else if piece = BISHOP then zone_hits * 14 else zone_hits * 10)
                + bonus_if (BB_HAS attacks ksq) (if piece = QUEEN then 28 else 40)
              else 0);
            queen_hit = (attacks AND pieces b opp QUEEN \<noteq> 0);
            rook_hits = bb_popcount (attacks AND pieces b opp ROOK);
            minor_hits = bb_popcount (attacks AND (pieces b opp BISHOP OR pieces b opp KNIGHT));
            pawns = attacks AND pieces b opp PAWN;
            target_hits = bonus_if queen_hit 1 + rook_hits + minor_hits;
            pawn_hits = bb_count (\<lambda>_. True) pawns
          in king_score + bonus_if queen_hit 68 + rook_hits * 50 + minor_hits * 36
            + bb_sum (\<lambda>pawn_sq. ff_pressure_pawn_bonus opp pawn_sq ksq has_enemy_king) pawns
            + (if piece = KNIGHT then
                 bonus_if (rel_row c to_sq \<ge> 4) 16 + bonus_if (target_hits + pawn_hits \<ge> 2) 18
                 + bonus_if (ff_is_flank_file (SQ_COL to_sq) \<and> pawn_hits > 0) 10
               else if piece = BISHOP then bonus_if (target_hits + pawn_hits \<ge> 2) 12
               else bonus_if (target_hits > 0) 12))"

definition ff_king_move_score :: "Board \<Rightarrow> Move \<Rightarrow> Color \<Rightarrow> int" where
  "ff_king_move_score b m c =
     (let from_sq = MOVE_FROM m; to_sq = MOVE_TO m; home_rank = back_rank_of c;
          undeveloped = ff_undeveloped_minor_count b c
      in - (if \<not> MOVE_IS_CASTLE m \<and> fullmove b \<le> 24 \<and> castling b AND castle_mask_of c \<noteq> 0 then
              208 + bonus_if (SQ_ROW from_sq = home_rank \<and> SQ_ROW to_sq = home_rank \<and>
                \<bar>SQ_COL to_sq - SQ_COL from_sq\<bar> = 1) 56
            else 0)
       + bonus_if (MOVE_IS_CASTLE m) 220
       + bonus_if (SQ_ROW from_sq = home_rank \<and> SQ_ROW to_sq = home_rank \<and>
           (SQ_COL to_sq \<le> 2 \<or> SQ_COL to_sq \<ge> 5)) 96
       + bonus_if (c = WHITE \<and> SQ_ROW to_sq \<le> 1 \<or> c = BLACK \<and> SQ_ROW to_sq \<ge> 6)
           (ff_pawn_shield_count b c to_sq * 20)
       + bonus_if (ff_center_file_distance to_sq > ff_center_file_distance from_sq) 28
       - bonus_if (SQ_ROW from_sq = home_rank \<and> undeveloped > 0 \<and>
           \<not> (SQ_ROW to_sq = home_rank \<and> (SQ_COL to_sq \<le> 2 \<or> SQ_COL to_sq \<ge> 5)) \<and>
           (SQ_ROW to_sq \<noteq> home_rank \<or> SQ_COL to_sq \<ge> 3 \<and> SQ_COL to_sq \<le> 4)) 90)"

definition search_ff_king_safety_score :: "ZobState \<Rightarrow> Board \<Rightarrow> Move \<Rightarrow> Color \<Rightarrow> int" where
  "search_ff_king_safety_score Z b m c =
     (if game_mod b \<noteq> MOD_FRIENDLY_FIRE \<or> MOVE_PIECE m \<noteq> KING \<or> \<not> quiet m then 0
      else let from_sq = MOVE_FROM m; to_sq = MOVE_TO m;
          enemy_queen = pieces b (color_opposite c) QUEEN;
          queen_score = (if enemy_queen \<noteq> BB_EMPTY then
              let queen = bb_lsb enemy_queen;
                  cur_ray = queen_rays queen (all_bb b);
                  occ_after = (all_bb b XOR BB_SQ from_sq) OR BB_SQ to_sq;
                  next_ray = queen_rays queen occ_after
              in bonus_if (BB_HAS cur_ray from_sq \<and> \<not> BB_HAS next_ray to_sq) 44
                 - bonus_if (\<not> BB_HAS cur_ray from_sq \<and> BB_HAS next_ray to_sq) 32
            else 0);
          next = board_make_move Z b m;
          next_king_sq = bb_lsb (pieces next c KING);
          from_hot = board_square_attacked b from_sq (color_opposite c);
          to_hot = board_square_attacked next next_king_sq (color_opposite c)
        in ff_king_move_score b m c + queen_score
          + bonus_if (from_hot \<and> \<not> to_hot) 64 - bonus_if (\<not> from_hot \<and> to_hot) 96)"

definition search_ff_king_zone_guard_score :: "Board \<Rightarrow> Move \<Rightarrow> Color \<Rightarrow> int" where
  "search_ff_king_zone_guard_score b m c =
     (if game_mod b \<noteq> MOD_FRIENDLY_FIRE \<or> \<not> quiet m then 0
      else let piece = MOVE_PIECE m in
        if piece \<noteq> BISHOP \<and> piece \<noteq> QUEEN then 0
        else let king_bb = pieces b c KING in
          if king_bb = BB_EMPTY then 0
          else let ksq = bb_lsb king_bb; from_sq = MOVE_FROM m; to_sq = MOVE_TO m;
              from_dist = chebyshev_distance_sq from_sq ksq;
              to_dist = chebyshev_distance_sq to_sq ksq;
              shield = ff_pawn_shield_count b c ksq in
            if piece = QUEEN \<and> SQ_ROW from_sq = back_rank_of c \<and> (rel_row c to_sq > 2 \<or> to_dist > 2) then 0
            else if fullmove b > 18 \<and> shield \<ge> 2 \<and> to_dist \<ge> from_dist then 0
            else let occ_before = all_bb b XOR BB_SQ from_sq;
                occ_after = occ_before OR BB_SQ to_sq;
                king_zone = king_attacks ksq OR BB_SQ ksq;
                before_cover = bb_popcount (ff_guard_piece_attacks piece from_sq occ_before AND king_zone);
                after_cover = bb_popcount (ff_guard_piece_attacks piece to_sq occ_after AND king_zone);
                score = bonus_if (after_cover > before_cover) ((after_cover - before_cover) * 44)
                  + bonus_if (to_dist < from_dist \<and> to_dist \<le> 3) ((from_dist - to_dist) * 26)
                  + bonus_if (BB_HAS king_zone to_sq) 24
                  + bonus_if (piece = BISHOP \<and> to_dist \<le> 1) 26
                  + bonus_if (piece = QUEEN \<and> to_dist \<le> 2) 20
                  + bonus_if (shield \<le> 1 \<and> to_dist \<le> 2) 18
              in if piece = QUEEN \<and> SQ_ROW from_sq = back_rank_of c
                 then cdiv score 2 + bonus_if (board_square_attacked b from_sq (color_opposite c)) 16
                 else score)"

definition search_ff_self_capture_prep_score :: "Board \<Rightarrow> Move \<Rightarrow> Color \<Rightarrow> int" where
  "search_ff_self_capture_prep_score b m c =
     (if game_mod b \<noteq> MOD_FRIENDLY_FIRE \<or> \<not> quiet m then 0
      else let piece = MOVE_PIECE m in
        if piece \<noteq> BISHOP \<and> piece \<noteq> QUEEN then 0
        else if piece = QUEEN \<and> search_ff_early_queen_sortie_penalty b m c > 0 then 0
        else fold (\<lambda>(dr, dc) score.
            let ray_score = ff_self_capture_prep_ray_score b (MOVE_FROM m) (MOVE_TO m) c dr dc in
            if ray_score > score then ray_score else score)
          ([(1, 1), (1, -1), (-1, 1), (-1, -1)] @ (if piece = QUEEN then [(1, 0), (-1, 0), (0, 1), (0, -1)] else []))
          0)"

text \<open>Whether a pawn that stands on \<open>(row, file)\<close> attacks \<open>to_sq\<close> when its attacks fall on \<open>attack_row\<close>.\<close>

definition ff_pawn_reaches :: "int \<Rightarrow> int \<Rightarrow> Square \<Rightarrow> bool" where
  "ff_pawn_reaches attack_row file to_sq \<longleftrightarrow>
     file > 0 \<and> SQ attack_row (file - 1) = to_sq \<or> file < 7 \<and> SQ attack_row (file + 1) = to_sq"

definition search_ff_pawn_challenge_penalty :: "Board \<Rightarrow> Move \<Rightarrow> Color \<Rightarrow> int" where
  "search_ff_pawn_challenge_penalty b m c =
     (if game_mod b \<noteq> MOD_FRIENDLY_FIRE \<or> \<not> quiet m then 0
      else let piece = MOVE_PIECE m in
        if piece \<noteq> KNIGHT \<and> piece \<noteq> BISHOP \<and> piece \<noteq> QUEEN then 0
        else let from_sq = MOVE_FROM m; to_sq = MOVE_TO m; opp = color_opposite c;
            occ = (all_bb b XOR BB_SQ from_sq) OR BB_SQ to_sq in
          bb_best 0 (\<lambda>pawn_sq. let file = SQ_COL pawn_sq; row = SQ_ROW pawn_sq; step = forward_step opp in
              if row + step \<ge> 0 \<and> row + step < 8 \<and> ff_pawn_reaches (row + step) file to_sq
              then ff_piece_challenge_penalty piece True
              else if row + step < 0 \<or> row + step > 7 then 0
              else if BB_HAS occ (SQ (row + step) file) then 0
              else let attack_row = row + step + step in
                if attack_row < 0 \<or> attack_row > 7 then 0
                else if ff_pawn_reaches attack_row file to_sq then ff_piece_challenge_penalty piece False
                else 0)
            (pieces b opp PAWN))"

text \<open>One pawn of \<open>search_ff_flank_pawn_harass_penalty\<close>: it may hit now and after a push.\<close>

definition ff_harass_by :: "Board \<Rightarrow> PieceType \<Rightarrow> Square \<Rightarrow> Color \<Rightarrow> Square \<Rightarrow> int \<Rightarrow> int" where
  "ff_harass_by b piece to_sq opp pawn_sq penalty =
     (let file = SQ_COL pawn_sq; rank = rel_row opp pawn_sq in
      if \<not> ff_is_flank_file file \<or> rank < 3 then penalty
      else let push_row = SQ_ROW pawn_sq + forward_step opp;
          current = (if piece = KNIGHT then 44 else if piece = BISHOP then 30 else 18);
          projected = (if piece = KNIGHT then 84 else if piece = BISHOP then 56 else 36);
          penalty = (if push_row \<ge> 0 \<and> push_row < 8 \<and> ff_pawn_reaches push_row file to_sq \<and> current > penalty
                     then current else penalty) in
        if push_row < 0 \<or> push_row > 7 then penalty
        else if BB_HAS (all_bb b) (SQ push_row file) then penalty
        else let attack_row = push_row + forward_step opp in
          if attack_row < 0 \<or> attack_row > 7 then penalty
          else if ff_pawn_reaches attack_row file to_sq \<and> projected > penalty then projected
          else penalty)"

definition search_ff_flank_pawn_harass_penalty :: "Board \<Rightarrow> Move \<Rightarrow> Color \<Rightarrow> int" where
  "search_ff_flank_pawn_harass_penalty b m c =
     (if game_mod b \<noteq> MOD_FRIENDLY_FIRE \<or> \<not> quiet m then 0
      else let piece = MOVE_PIECE m in
        if piece \<noteq> KNIGHT \<and> piece \<noteq> BISHOP \<and> piece \<noteq> QUEEN then 0
        else let opp = color_opposite c;
            penalty = fold (ff_harass_by b piece (MOVE_TO m) opp) (bb_squares (pieces b opp PAWN)) 0
          in if piece = QUEEN then cdiv penalty 2 else penalty)"


section \<open>The ray walk ends\<close>

text \<open>
  From any square of the board eight steps in a direction leave it, so the rounds that
  \<open>ff_self_capture_prep_ray_score\<close> allows suffice: more of them give the same score.
\<close>

lemma ff_prep_ray_more:
  assumes "dr \<in> {-1, 0, 1}" "dc \<in> {-1, 0, 1}" "(dr, dc) \<noteq> (0, 0)"
    and "0 \<le> row" "row \<le> 7" "0 \<le> col" "col \<le> 7"
    and "dr = 1 \<Longrightarrow> 8 \<le> int n + row" "dr = -1 \<Longrightarrow> row < int n"
    and "dr = 0 \<Longrightarrow> dc = 1 \<Longrightarrow> 8 \<le> int n + col" "dr = 0 \<Longrightarrow> dc = -1 \<Longrightarrow> col < int n"
  shows "ff_prep_ray (n + k) b occ from_sq c dr dc row col step blocker =
    ff_prep_ray n b occ from_sq c dr dc row col step blocker"
  using assms
proof (induction n arbitrary: row col step blocker)
  case 0
  then show ?case by auto
next
  case (Suc n)
  have "ff_prep_ray (n + k) b occ from_sq c dr dc (row + dr) (col + dc) (step + 1) bl =
      ff_prep_ray n b occ from_sq c dr dc (row + dr) (col + dc) (step + 1) bl"
    if "\<not> (row + dr < 0 \<or> row + dr > 7 \<or> col + dc < 0 \<or> col + dc > 7)" for bl
    using that Suc.prems by (intro Suc.IH) auto
  then show ?case by (auto simp: Let_def split: option.split)
qed

end
