(* ===== verification/HeurKingsBattle.thy ===== *)
theory HeurKingsBattle
  imports HeurTypes
begin

text \<open>
  The King's Battle heuristics of the search, \<open>search/heuristics_kings_battle.c  Functions whose name the evaluation module of
  the variant has too carry the prefix \<open>search_\<close>.
\<close>: king activation and
  the pawn race before the first blood, development, king shelter and queen pressure after it, and
  the opening variety at full skill.
\<close>

section \<open>Helpers of the first phase\<close>

definition search_kb_phase1_forward_rank :: "Color \<Rightarrow> Square \<Rightarrow> int" where
  "search_kb_phase1_forward_rank c sq = (if c = WHITE then SQ_ROW sq else 7 - SQ_ROW sq)"

definition search_kb_phase1_promotion_distance :: "Color \<Rightarrow> Square \<Rightarrow> int" where
  "search_kb_phase1_promotion_distance c sq = 7 - search_kb_phase1_forward_rank c sq"

definition kb_phase1_min_enemy_pawn_distance :: "Board \<Rightarrow> Color \<Rightarrow> Square \<Rightarrow> int" where
  "kb_phase1_min_enemy_pawn_distance b c sq =
     (let min_dist = fold (\<lambda>ps min_dist.
            let dist = chebyshev_distance_sq ps sq in if dist < min_dist then dist else min_dist)
          (bb_squares (pieces b (color_opposite c) PAWN)) 15
      in if min_dist = 15 then 0 else min_dist)"

definition kb_phase1_enemy_king_distance :: "Board \<Rightarrow> Color \<Rightarrow> Square \<Rightarrow> int" where
  "kb_phase1_enemy_king_distance b c sq =
     (let opp_king = pieces b (color_opposite c) KING in
      if opp_king = BB_EMPTY then 8 else chebyshev_distance_sq sq (bb_lsb opp_king))"

definition kb_phase1_pawn_king_pressure :: "Board \<Rightarrow> Color \<Rightarrow> Square \<Rightarrow> int" where
  "kb_phase1_pawn_king_pressure b c sq =
     (let opp_king = pieces b (color_opposite c) KING in
      if opp_king = BB_EMPTY then 0
      else let ksq = bb_lsb opp_king; attack_row = SQ_ROW sq + forward_step c;
          dist = chebyshev_distance_sq sq ksq
        in bonus_if (attack_row \<ge> 0 \<and> attack_row < 8 \<and> SQ_ROW ksq = attack_row \<and>
             \<bar>SQ_COL ksq - SQ_COL sq\<bar> = 1) 120
           + (if dist \<le> 1 then 35 else if dist = 2 then 18 else 0))"

definition search_kb_phase1_forward_lane_open :: "Board \<Rightarrow> Color \<Rightarrow> Square \<Rightarrow> bool" where
  "search_kb_phase1_forward_lane_open b c sq =
     (let forward_row = SQ_ROW sq + forward_step c in
      if forward_row < 0 \<or> forward_row > 7 then False
      else \<not> BB_HAS (occupied b c) (SQ forward_row (SQ_COL sq)))"

text \<open>
  The rows \<open>dr = 1 .. max_steps\<close> ahead of a square; the loops stop at the edge of the board.
\<close>

definition rows_ahead :: "Color \<Rightarrow> int \<Rightarrow> int \<Rightarrow> int list" where
  "rows_ahead c row max_steps =
     takeWhile (\<lambda>nr. \<not> (nr < 0 \<or> nr > 7)) (map (\<lambda>dr. row + forward_step c * dr) [1..max_steps])"

definition search_kb_phase1_forward_corridor_blockers :: "Board \<Rightarrow> Color \<Rightarrow> Square \<Rightarrow> int \<Rightarrow> int" where
  "search_kb_phase1_forward_corridor_blockers b c sq max_steps =
     sum_list (map (\<lambda>nr. sum_list (map (\<lambda>dc. let nc = SQ_COL sq + dc in
         if nc < 0 \<or> nc > 7 then 0 else bonus_if (BB_HAS (occupied b c) (SQ nr nc)) 1) [-1, 0, 1]))
       (rows_ahead c (SQ_ROW sq) max_steps))"

definition kb_phase1_passed_destination :: "Board \<Rightarrow> Color \<Rightarrow> Square \<Rightarrow> bool" where
  "kb_phase1_passed_destination b c sq =
     (let opp = color_opposite c; row = SQ_ROW sq; col = SQ_COL sq;
          start = (if c = WHITE then row + 1 else 0);
          stop = (if c = WHITE then 8 else row)
      in \<not> list_ex (\<lambda>r. list_ex (\<lambda>dc. let nc = col + dc in
            \<not> (nc < 0 \<or> nc > 7) \<and> BB_HAS (pieces b opp PAWN) (SQ r nc)) [-1, 0, 1]) [start..stop - 1])"

definition kb_phase1_retreat_arc_move_score :: "Board \<Rightarrow> Color \<Rightarrow> Square \<Rightarrow> int" where
  "kb_phase1_retreat_arc_move_score b c sq =
     (let opp = color_opposite c; opp_king = pieces b opp KING in
      if opp_king = BB_EMPTY then 0
      else let ksq = bb_lsb opp_king;
          opp_rank = search_kb_phase1_forward_rank opp ksq;
          retreat_row = SQ_ROW ksq + (if opp = WHITE then - 1 else 1);
          attack_row = SQ_ROW sq + forward_step c in
        if opp_rank < 3 then 0
        else if retreat_row < 0 \<or> retreat_row > 7 then 0
        else let arc = filter (\<lambda>nc. \<not> (nc < 0 \<or> nc > 7)) (map (\<lambda>dc. SQ_COL ksq + dc) [-1, 0, 1]);
            attacks = (\<lambda>nc. attack_row = retreat_row \<and> \<bar>SQ_COL sq - nc\<bar> = 1);
            newly_attacked = int (length (filter attacks arc));
            sealed = int (length (filter (\<lambda>nc. attacks nc \<or> piece_at b (SQ retreat_row nc) \<noteq> PIECE_EMPTY) arc)) in
          if newly_attacked = 0 then 0
          else if sealed = 3 then 280 + newly_attacked * 24
          else if sealed = 2 then 120 + newly_attacked * 18
          else newly_attacked * 28)"

definition search_kb_phase1_any_pawn_capture_available :: "Board \<Rightarrow> Color \<Rightarrow> bool" where
  "search_kb_phase1_any_pawn_capture_available b c =
     (let enemy_pawn = (\<lambda>s. let target = piece_at b s in
            target \<noteq> PIECE_EMPTY \<and> PIECE_COLOR target \<noteq> c \<and> PIECE_TYPE target = PAWN) in
      list_ex (\<lambda>sq. let row = SQ_ROW sq + forward_step c; col = SQ_COL sq in
          \<not> (row < 0 \<or> row > 7) \<and>
          (col > 0 \<and> enemy_pawn (SQ row (col - 1)) \<or> col < 7 \<and> enemy_pawn (SQ row (col + 1))))
        (bb_squares (pieces b c PAWN)))"

definition kb_phase1_wing_drift_move_penalty :: "Board \<Rightarrow> Color \<Rightarrow> Move \<Rightarrow> int" where
  "kb_phase1_wing_drift_move_penalty b c m =
     (let to_sq = MOVE_TO m; file = SQ_COL to_sq;
          from_rank = search_kb_phase1_forward_rank c (MOVE_FROM m);
          to_rank = search_kb_phase1_forward_rank c to_sq;
          near = (\<lambda>king_bb. king_bb \<noteq> BB_EMPTY \<and> chebyshev_distance_sq (bb_lsb king_bb) to_sq \<le> 2) in
      if file \<noteq> 0 \<and> file \<noteq> 1 \<and> file \<noteq> 6 \<and> file \<noteq> 7 then 0
      else if from_rank \<noteq> 1 \<or> to_rank < 2 \<or> to_rank > 3 then 0
      else if kb_phase1_passed_destination b c to_sq then 0
      else if kb_phase1_pawn_king_pressure b c to_sq \<ge> 70 then 0
      else if near (pieces b c KING) then 0
      else if near (pieces b (color_opposite c) KING) then 0
      else (if to_rank = 2 then 100 else 170)
        + bonus_if (search_kb_phase1_any_pawn_capture_available b c) 30)"

definition kb_phase1_connected_wall_move_score :: "Board \<Rightarrow> Color \<Rightarrow> Square \<Rightarrow> int" where
  "kb_phase1_connected_wall_move_score b c sq =
     (let opp = color_opposite c; opp_king = pieces b opp KING; row = SQ_ROW sq; col = SQ_COL sq;
          rank = search_kb_phase1_forward_rank c sq in
      if opp_king = BB_EMPTY then 0
      else if rank < 3 then 0
      else let ksq = bb_lsb opp_king;
          opp_rank = search_kb_phase1_forward_rank opp ksq in
        if opp_rank < 4 then 0
        else let pair = (\<lambda>nb. let nb_dist = chebyshev_distance_sq (SQ row nb) ksq;
                  self_dist = chebyshev_distance_sq sq ksq
                in if nb_dist < self_dist then nb_dist else self_dist);
            left = (if col > 0 \<and> BB_HAS (pieces b c PAWN) (SQ row (col - 1)) then Some (pair (col - 1)) else None);
            best = (if col < 7 \<and> BB_HAS (pieces b c PAWN) (SQ row (col + 1)) then
                let this_pair = pair (col + 1) in
                case left of None \<Rightarrow> Some this_pair
                | Some pair_dist \<Rightarrow> Some (if this_pair < pair_dist then this_pair else pair_dist)
              else left)
          in case best of None \<Rightarrow> 0
             | Some pair_dist \<Rightarrow> if pair_dist \<le> 2 then 760 else if pair_dist = 3 then 280 else 0)"

definition search_kb_phase1_forward_file_clearance :: "Board \<Rightarrow> Color \<Rightarrow> Square \<Rightarrow> int \<Rightarrow> int" where
  "search_kb_phase1_forward_file_clearance b c sq max_steps =
     int (length (takeWhile (\<lambda>nr. piece_at b (SQ nr (SQ_COL sq)) = PIECE_EMPTY)
       (rows_ahead c (SQ_ROW sq) max_steps)))"

definition search_kb_phase1_clear_promotion_lane :: "Board \<Rightarrow> Color \<Rightarrow> Square \<Rightarrow> int" where
  "search_kb_phase1_clear_promotion_lane b c sq =
     (let row = SQ_ROW sq; lane = (if c = WHITE then [row + 1..7] else rev [0..row - 1]) in
      int (length (takeWhile (\<lambda>r. piece_at b (SQ r (SQ_COL sq)) = PIECE_EMPTY) lane)))"

definition kb_phase1_has_secondary_pawn_capture :: "Board \<Rightarrow> Color \<Rightarrow> Move \<Rightarrow> bool" where
  "kb_phase1_has_secondary_pawn_capture b c m =
     (if \<not> (MOVE_PIECE m = PAWN \<and> MOVE_IS_CAPTURE m \<and> MOVE_CAPTURED m = PAWN) then False
      else let from_sq = MOVE_FROM m; to_sq = MOVE_TO m;
          target_row = SQ_ROW to_sq - forward_step c;
          helper = (\<lambda>alt. alt \<noteq> from_sq \<and> BB_HAS (pieces b c PAWN) alt) in
        if target_row < 0 \<or> target_row > 7 then False
        else SQ_COL to_sq > 0 \<and> helper (SQ target_row (SQ_COL to_sq - 1)) \<or>
             SQ_COL to_sq < 7 \<and> helper (SQ target_row (SQ_COL to_sq + 1)))"


section \<open>Opening variety\<close>

definition search_kb_full_skill_variety_enabled :: "Board \<Rightarrow> bool" where
  "search_kb_full_skill_variety_enabled b \<longleftrightarrow>
     game_mod b = MOD_KINGS_BATTLE \<and> \<not> kb_unlocked b \<and> fullmove b \<le> 4 \<and>
     BB_HAS (pieces b WHITE KING) (SQ 0 4) \<and> BB_HAS (pieces b BLACK KING) (SQ 7 4)"

definition search_kb_full_skill_variety_margin :: "Board \<Rightarrow> int" where
  "search_kb_full_skill_variety_margin b = (if search_kb_full_skill_variety_enabled b then 20 else 0)"

definition search_kb_full_skill_tiebreak_band :: "Board \<Rightarrow> int" where
  "search_kb_full_skill_tiebreak_band b = (if search_kb_full_skill_variety_enabled b then 15 else 0)"


section \<open>Scores after the first blood\<close>

definition search_kb_unlocked_development_score :: "Board \<Rightarrow> Move \<Rightarrow> Color \<Rightarrow> int" where
  "search_kb_unlocked_development_score b m c =
     (if game_mod b \<noteq> MOD_KINGS_BATTLE \<or> \<not> kb_unlocked b \<or> \<not> quiet m then 0
      else let piece = MOVE_PIECE m; to_sq = MOVE_TO m in
        if piece \<noteq> KNIGHT \<and> piece \<noteq> BISHOP then 0
        else if \<not> leaves_back_rank c m then 0
        else (if piece = KNIGHT then 58 else 52) + bonus_if (center_files to_sq) 10
          + bonus_if (rel_row c to_sq \<ge> 2) 8)"

definition search_kb_unlocked_king_shelter_score :: "Board \<Rightarrow> Move \<Rightarrow> Color \<Rightarrow> int" where
  "search_kb_unlocked_king_shelter_score b m c =
     (if game_mod b \<noteq> MOD_KINGS_BATTLE \<or> \<not> kb_unlocked b \<or> MOVE_PIECE m \<noteq> PAWN \<or> \<not> quiet m then 0
      else let king_bb = pieces b c KING; queen_bb = pieces b (color_opposite c) QUEEN in
        if king_bb = BB_EMPTY \<or> queen_bb = BB_EMPTY then 0
        else let ksq = bb_lsb king_bb; from_sq = MOVE_FROM m; to_sq = MOVE_TO m; queen = bb_lsb queen_bb;
            from_dist = chebyshev_distance_sq from_sq ksq;
            to_dist = chebyshev_distance_sq to_sq ksq;
            queen_dist = chebyshev_distance_sq queen ksq in
          if queen_dist > 4 \<and> from_dist > 2 \<and> to_dist > 1 then 0
          else (if to_dist \<le> 1 then 120 else bonus_if (to_dist = 2 \<and> from_dist > 2) 50)
            + bonus_if (from_dist \<le> 1) 35
            + (if queen_dist \<le> 2 then 60 else bonus_if (queen_dist \<le> 4) 30)
            + bonus_if (BB_HAS (queen_rays queen (all_bb b)) ksq) 70
            + bonus_if (\<bar>SQ_COL to_sq - SQ_COL ksq\<bar> \<le> 1) 18
            + bonus_if (c = WHITE \<and> SQ_ROW to_sq \<le> SQ_ROW ksq \<or> c = BLACK \<and> SQ_ROW to_sq \<ge> SQ_ROW ksq) 12)"

definition search_kb_unlocked_queen_pressure_score :: "Board \<Rightarrow> Move \<Rightarrow> Color \<Rightarrow> int" where
  "search_kb_unlocked_queen_pressure_score b m c =
     (if game_mod b \<noteq> MOD_KINGS_BATTLE \<or> \<not> kb_unlocked b \<or> MOVE_PIECE m \<noteq> QUEEN \<or> MOVE_IS_EP m \<or> MOVE_IS_PROMO m then 0
      else let enemy_king = pieces b (color_opposite c) KING in
        if enemy_king = BB_EMPTY then 0
        else let ksq = bb_lsb enemy_king;
            from_dist = chebyshev_distance_sq (MOVE_FROM m) ksq;
            to_dist = chebyshev_distance_sq (MOVE_TO m) ksq
          in bonus_if (to_dist \<le> 2) 110
            + bonus_if (to_dist < from_dist) ((from_dist - to_dist) * 34)
            + bonus_if (to_dist + 1 < from_dist) 28
            - bonus_if (to_dist > from_dist + 1) ((to_dist - from_dist) * 40))"

definition kb_unlocked_local_pawn_shield :: "Board \<Rightarrow> Color \<Rightarrow> Square \<Rightarrow> int" where
  "kb_unlocked_local_pawn_shield b c sq = bb_popcount (pieces b c PAWN AND king_attacks sq)"

definition search_kb_unlocked_king_safety_score :: "Board \<Rightarrow> Move \<Rightarrow> Color \<Rightarrow> int" where
  "search_kb_unlocked_king_safety_score b m c =
     (if game_mod b \<noteq> MOD_KINGS_BATTLE \<or> \<not> kb_unlocked b \<or> MOVE_PIECE m \<noteq> KING \<or> MOVE_IS_EP m \<or> MOVE_IS_PROMO m then 0
      else let enemy_queen = pieces b (color_opposite c) QUEEN in
        if enemy_queen = BB_EMPTY then 0
        else let queen = bb_lsb enemy_queen; from_sq = MOVE_FROM m; to_sq = MOVE_TO m;
            from_dist = chebyshev_distance_sq from_sq queen;
            to_dist = chebyshev_distance_sq to_sq queen;
            from_shield = kb_unlocked_local_pawn_shield b c from_sq;
            to_shield = kb_unlocked_local_pawn_shield b c to_sq;
            queen_ray = queen_rays queen (all_bb b)
          in 40
            + (if to_dist > from_dist then (to_dist - from_dist) * 28
               else if to_dist < from_dist then - ((from_dist - to_dist) * 34) else 0)
            + (if to_shield > from_shield then (to_shield - from_shield) * 26
               else if to_shield < from_shield then - ((from_shield - to_shield) * 30) else 0)
            + (if BB_HAS queen_ray from_sq \<and> \<not> BB_HAS queen_ray to_sq then 52
               else if \<not> BB_HAS queen_ray from_sq \<and> BB_HAS queen_ray to_sq then - 58 else 0))"


section \<open>Scores before the first blood\<close>

definition kb_lane_score :: "Board \<Rightarrow> Color \<Rightarrow> Square \<Rightarrow> Square \<Rightarrow> int" where
  "kb_lane_score b c from_sq to_sq =
     (let from_open = search_kb_phase1_forward_lane_open b c from_sq;
          to_open = search_kb_phase1_forward_lane_open b c to_sq;
          from_clear = search_kb_phase1_forward_file_clearance b c from_sq 2;
          to_clear = search_kb_phase1_forward_file_clearance b c to_sq 2;
          from_blockers = search_kb_phase1_forward_corridor_blockers b c from_sq 2;
          to_blockers = search_kb_phase1_forward_corridor_blockers b c to_sq 2
      in (if to_open \<and> \<not> from_open then 45 else if \<not> to_open \<and> from_open then - 35 else 0)
       + (if to_clear > from_clear then (to_clear - from_clear) * 40
          else if to_clear < from_clear then - ((from_clear - to_clear) * 30) else 0)
       + bonus_if (search_kb_phase1_forward_rank c from_sq = search_kb_phase1_forward_rank c to_sq \<and>
           from_clear = 0 \<and> to_clear \<ge> 2) 120
       + (if to_blockers < from_blockers then (from_blockers - to_blockers) * 24
          else if to_blockers > from_blockers then - ((to_blockers - from_blockers) * 18) else 0))"

definition search_kb_phase1_king_activation_score :: "Board \<Rightarrow> Move \<Rightarrow> Color \<Rightarrow> int" where
  "search_kb_phase1_king_activation_score b m c =
     (if game_mod b \<noteq> MOD_KINGS_BATTLE \<or> kb_unlocked b \<or> MOVE_PIECE m \<noteq> KING \<or> MOVE_IS_PROMO m \<or> MOVE_IS_EP m then 0
      else let from_sq = MOVE_FROM m; to_sq = MOVE_TO m;
          from_rank = search_kb_phase1_forward_rank c from_sq;
          to_rank = search_kb_phase1_forward_rank c to_sq;
          from_dist = kb_phase1_min_enemy_pawn_distance b c from_sq;
          to_dist = kb_phase1_min_enemy_pawn_distance b c to_sq;
          enemy_king = pieces b (color_opposite c) KING;
          enemy_king_rank = (if enemy_king \<noteq> BB_EMPTY
            then search_kb_phase1_forward_rank (color_opposite c) (bb_lsb enemy_king) else - 1);
          capturable = bb_count (\<lambda>ps. chebyshev_distance_sq ps to_sq = 1) (pieces b (color_opposite c) PAWN)
        in bonus_if (to_rank > from_rank) ((to_rank - from_rank) * 140)
          - bonus_if (to_rank < from_rank) ((from_rank - to_rank) * 170)
          + bonus_if (from_rank = 0 \<and> to_rank > 0) 120
          + bonus_if (center_files to_sq) 40
          + (if to_dist > 0 \<and> from_dist > 0 \<and> to_dist < from_dist then (from_dist - to_dist) * 60
             else if to_dist > 0 \<and> from_dist > 0 \<and> to_dist > from_dist then - ((to_dist - from_dist) * 80) else 0)
          + (if enemy_king_rank \<ge> 0 then
               if to_rank + 1 < enemy_king_rank then - ((enemy_king_rank - to_rank - 1) * 44)
               else if to_rank > enemy_king_rank then (to_rank - enemy_king_rank) * 18 else 0
             else 0)
          + capturable * 80
          + kb_lane_score b c from_sq to_sq
          + bonus_if (MOVE_IS_CAPTURE m \<and> MOVE_CAPTURED m = PAWN) 800)"

definition kb_pawn_capture_score :: "Board \<Rightarrow> Move \<Rightarrow> Color \<Rightarrow> int" where
  "kb_pawn_capture_score b m c =
     (let to_sq = MOVE_TO m; from_rank = search_kb_phase1_forward_rank c (MOVE_FROM m);
          to_rank = search_kb_phase1_forward_rank c to_sq;
          enemy_progress = search_kb_phase1_forward_rank (color_opposite c) to_sq
      in 80 + to_rank * 22
       + (if MOVE_CAPTURED m = PAWN then
            110 + bonus_if (enemy_progress \<ge> 3) (110 + (enemy_progress - 2) * 28)
            + bonus_if (kb_phase1_has_secondary_pawn_capture b c m) 260
          else 40)
       + bonus_if (from_rank \<ge> 3 \<and> to_rank > from_rank) 60)"

definition kb_passed_pawn_score :: "Board \<Rightarrow> Color \<Rightarrow> Square \<Rightarrow> int" where
  "kb_passed_pawn_score b c to_sq =
     (let to_rank = search_kb_phase1_forward_rank c to_sq;
          clear_lane = search_kb_phase1_clear_promotion_lane b c to_sq;
          promo_dist = search_kb_phase1_promotion_distance c to_sq;
          enemy_king_dist = kb_phase1_enemy_king_distance b c to_sq
      in 90 + to_rank * 28 + clear_lane * 20 + bonus_if (clear_lane \<ge> promo_dist) 90
       + (if enemy_king_dist > promo_dist + 1 then 70 + (enemy_king_dist - promo_dist) * 18
          else if enemy_king_dist \<le> 1 then - 70
          else if enemy_king_dist = 2 then - 30 else 0))"

definition search_kb_phase1_pawn_race_score :: "Board \<Rightarrow> Move \<Rightarrow> Color \<Rightarrow> int" where
  "search_kb_phase1_pawn_race_score b m c =
     (if game_mod b \<noteq> MOD_KINGS_BATTLE \<or> kb_unlocked b \<or> MOVE_PIECE m \<noteq> PAWN \<or> MOVE_IS_PROMO m \<or> MOVE_IS_EP m then 0
      else let from_sq = MOVE_FROM m; to_sq = MOVE_TO m;
          from_rank = search_kb_phase1_forward_rank c from_sq;
          to_rank = search_kb_phase1_forward_rank c to_sq
        in (to_rank - from_rank) * 32
          + bonus_if (to_rank \<ge> 3) ((to_rank - 2) * 26)
          + bonus_if (center_files to_sq) 18
          + kb_phase1_pawn_king_pressure b c to_sq
          + bonus_if (\<not> MOVE_IS_CAPTURE m \<and> from_rank = 1 \<and> center_files from_sq)
              (18 + bonus_if (SQ_COL from_sq = 3 \<or> SQ_COL from_sq = 4) 34)
          - bonus_if (\<not> MOVE_IS_CAPTURE m \<and> from_rank = 1 \<and> to_rank \<le> 2 \<and>
              search_kb_phase1_any_pawn_capture_available b c) 420
          + kb_phase1_retreat_arc_move_score b c to_sq
          + kb_phase1_connected_wall_move_score b c to_sq
          + (if MOVE_IS_CAPTURE m then kb_pawn_capture_score b m c else 0)
          + (if kb_phase1_passed_destination b c to_sq then kb_passed_pawn_score b c to_sq else 0)
          - kb_phase1_wing_drift_move_penalty b c m)"


section \<open>Tests of the bridge\<close>

definition search_kb_unlocked_is_queen_pressure_move :: "Board \<Rightarrow> Move \<Rightarrow> Color \<Rightarrow> bool" where
  "search_kb_unlocked_is_queen_pressure_move b m c =
     (if game_mod b \<noteq> MOD_KINGS_BATTLE \<or> \<not> kb_unlocked b \<or> MOVE_PIECE m \<noteq> QUEEN \<or> MOVE_IS_EP m \<or> MOVE_IS_PROMO m then False
      else if pieces b (color_opposite c) KING = BB_EMPTY then False
      else let enemy_king = bb_lsb (pieces b (color_opposite c) KING);
          from_dist = chebyshev_distance_sq (MOVE_FROM m) enemy_king;
          to_dist = chebyshev_distance_sq (MOVE_TO m) enemy_king
        in to_dist \<le> 2 \<or> to_dist + 1 < from_dist)"

definition search_kb_unlocked_is_king_safety_move :: "Board \<Rightarrow> Move \<Rightarrow> Color \<Rightarrow> bool" where
  "search_kb_unlocked_is_king_safety_move b m c \<longleftrightarrow>
     game_mod b = MOD_KINGS_BATTLE \<and> kb_unlocked b \<and> MOVE_PIECE m = KING \<and> \<not> MOVE_IS_EP m \<and>
     \<not> MOVE_IS_PROMO m \<and> pieces b (color_opposite c) QUEEN \<noteq> BB_EMPTY"

definition search_kb_unlocked_is_shelter_move :: "Board \<Rightarrow> Move \<Rightarrow> Color \<Rightarrow> bool" where
  "search_kb_unlocked_is_shelter_move b m c =
     (if game_mod b \<noteq> MOD_KINGS_BATTLE \<or> \<not> kb_unlocked b \<or> MOVE_PIECE m \<noteq> PAWN \<or> \<not> quiet m then False
      else if pieces b c KING = BB_EMPTY \<or> pieces b (color_opposite c) QUEEN = BB_EMPTY then False
      else chebyshev_distance_sq (MOVE_TO m) (bb_lsb (pieces b c KING)) \<le> 1)"

definition search_kb_unlocked_is_development_move :: "Board \<Rightarrow> Move \<Rightarrow> Color \<Rightarrow> bool" where
  "search_kb_unlocked_is_development_move b m c =
     (let piece = MOVE_PIECE m in
      if game_mod b \<noteq> MOD_KINGS_BATTLE \<or> \<not> kb_unlocked b \<or> \<not> quiet m then False
      else if piece \<noteq> KNIGHT \<and> piece \<noteq> BISHOP then False
      else leaves_back_rank c m)"

end
