(* ===== verification/SearchState.thy ===== *)
theory SearchState
  imports BoardState
begin

text \<open>
  The statics of \<open>search.c\<close> and the operations that only touch them: the random numbers, the
  transposition table, killers, history and countermoves, the clock test and \<open>search_reset\<close>.
  The statics are the record \<open>SearchState\<close>, which the search passes on.

  The system clock \<open>time_ms_now\<close> is the parameter \<open>now\<close>: \<open>now n\<close> is the value of the \<open>n\<close>-th reading,
  and \<open>s_clock\<close> counts the readings.  An array is a function of its index; \<open>s_root\<close> holds the
  first \<open>s_root_count\<close> entries of \<open>s_root_moves\<close> and \<open>s_root_scores\<close>.
\<close>

section \<open>Constants\<close>

definition INFINITY_SCORE :: int where "INFINITY_SCORE = 999999"
definition MATE_SCORE :: int where "MATE_SCORE = 100000"
definition MAX_PLY :: int where "MAX_PLY = 64"
definition MAX_QPLY :: int where "MAX_QPLY = 8"
definition MAX_NODES :: int where "MAX_NODES = 20000000"

definition is_mate :: "int \<Rightarrow> bool" where
  "is_mate s \<longleftrightarrow> s > MATE_SCORE - 500 \<or> s < - MATE_SCORE + 500"


section \<open>State\<close>

datatype TTFlag = TT_EXACT | TT_LOWER | TT_UPPER

record TTEntry =
  tt_key :: u64
  tt_depth :: int
  tt_score :: int
  tt_flag :: TTFlag
  tt_best_move :: Move

record TTable =
  tt_entries :: "(nat \<Rightarrow> TTEntry) option"
  tt_count :: int
  tt_mask :: int

record SearchState =
  s_rng :: u64
  s_search_nonce :: u64
  s_killers :: "int \<Rightarrow> Move \<times> Move"
  s_history :: "Color \<Rightarrow> Square \<Rightarrow> Square \<Rightarrow> int"
  s_countermoves :: "Color \<Rightarrow> PieceType \<Rightarrow> Square \<Rightarrow> Move"
  s_tt :: TTable
  s_nodes :: int
  s_stopped :: bool
  s_deadline_ms :: int
  s_skill_level :: int
  s_prev_skill :: int
  s_eval_stack :: "int \<Rightarrow> int"
  s_root :: "(Move \<times> int) list"
  s_clock :: nat

text \<open>An entry of all zero bytes, and the statics at program start.\<close>

definition zero_entry :: TTEntry where
  "zero_entry = \<lparr> tt_key = 0, tt_depth = 0, tt_score = 0, tt_flag = TT_EXACT, tt_best_move = MOVE_NONE \<rparr>"

definition search_static :: SearchState where
  "search_static =
     \<lparr> s_rng = 0, s_search_nonce = 0, s_killers = (\<lambda>_. (MOVE_NONE, MOVE_NONE)), s_history = (\<lambda>_ _ _. 0),
       s_countermoves = (\<lambda>_ _ _. MOVE_NONE),
       s_tt = \<lparr> tt_entries = None, tt_count = 0, tt_mask = 0 \<rparr>,
       s_nodes = 0, s_stopped = False, s_deadline_ms = 0, s_skill_level = 0, s_prev_skill = - 1,
       s_eval_stack = (\<lambda>_. 0), s_root = [], s_clock = 0 \<rparr>"


section \<open>Random numbers\<close>

definition rng_next :: "SearchState \<Rightarrow> u64 \<times> SearchState" where
  "rng_next s =
     (let x = s_rng s; x = x XOR push_bit 13 x; x = x XOR drop_bit 7 x; x = x XOR push_bit 17 x
      in (x, s \<lparr> s_rng := x \<rparr>))"

definition rng_range :: "int \<Rightarrow> SearchState \<Rightarrow> int \<times> SearchState" where
  "rng_range limit s =
     (if limit \<le> 1 then (0, s)
      else let (x, s) = rng_next s;
          x = x XOR drop_bit 33 x;
          x = x * 0xff51afd7ed558ccd;
          x = x XOR drop_bit 33 x;
          x = x * 0xc4ceb9fe1a85ec53;
          x = x XOR drop_bit 33 x
        in (uint (x mod word_of_int limit), s))"


section \<open>Transposition table\<close>

text \<open>
  The loop that doubles \<open>n\<close> from 1 while it fits; the guard on \<open>n\<close> always holds there.
\<close>

function tt_grow :: "int \<Rightarrow> int \<Rightarrow> int" where
  "tt_grow count n = (if 0 < n \<and> n * 2 \<le> count then tt_grow count (n * 2) else n)"
  by pat_completeness auto

termination
  by (relation "measure (\<lambda>(count, n). nat (count - n))") auto

declare tt_grow.simps [simp del]

text \<open>The size of an entry: an eight byte key and four fields of four bytes.\<close>

definition sizeof_TTEntry :: int where "sizeof_TTEntry = 24"

definition tt_alloc :: "int \<Rightarrow> TTable" where
  "tt_alloc size_mb =
     (let count = cdiv (size_mb * 1024 * 1024) sizeof_TTEntry; n = tt_grow count 1
      in \<lparr> tt_entries = Some (\<lambda>_. zero_entry), tt_count = n, tt_mask = n - 1 \<rparr>)"

definition tt_free :: "TTable \<Rightarrow> TTable" where
  "tt_free tt = tt \<lparr> tt_entries := None, tt_count := 0 \<rparr>"

definition tt_clear :: "TTable \<Rightarrow> TTable" where
  "tt_clear tt =
     (case tt_entries tt of None \<Rightarrow> tt
      | Some es \<Rightarrow> tt \<lparr> tt_entries := Some (\<lambda>i. if int i < tt_count tt then zero_entry else es i) \<rparr>)"

definition tt_index :: "TTable \<Rightarrow> u64 \<Rightarrow> nat" where
  "tt_index tt key = unat (key AND word_of_int (tt_mask tt))"

definition tt_slot :: "TTable \<Rightarrow> u64 \<Rightarrow> TTEntry" where
  "tt_slot tt key = (case tt_entries tt of None \<Rightarrow> zero_entry | Some es \<Rightarrow> es (tt_index tt key))"

definition tt_probe :: "TTable \<Rightarrow> u64 \<Rightarrow> TTEntry option" where
  "tt_probe tt key = (let e = tt_slot tt key in if tt_key e = key then Some e else None)"

definition tt_replaces :: "TTEntry \<Rightarrow> u64 \<Rightarrow> int \<Rightarrow> bool" where
  "tt_replaces e key depth \<longleftrightarrow> tt_key e = key \<or> depth \<ge> tt_depth e \<or> tt_best_move e = MOVE_NONE"

definition tt_store :: "TTable \<Rightarrow> u64 \<Rightarrow> int \<Rightarrow> int \<Rightarrow> TTFlag \<Rightarrow> Move \<Rightarrow> TTable" where
  "tt_store tt key depth score flag best =
     (let e = tt_slot tt key in
      if tt_replaces e key depth then
        tt \<lparr> tt_entries := map_option (\<lambda>es. es(tt_index tt key :=
          \<lparr> tt_key = key, tt_depth = depth, tt_score = score, tt_flag = flag, tt_best_move = best \<rparr>)) (tt_entries tt) \<rparr>
      else tt)"


section \<open>Killers, history and countermoves\<close>

definition record_killer :: "Move \<Rightarrow> int \<Rightarrow> SearchState \<Rightarrow> SearchState" where
  "record_killer m at s =
     (if at \<ge> MAX_PLY then s
      else if m \<noteq> fst (s_killers s at) then s \<lparr> s_killers := (s_killers s)(at := (m, fst (s_killers s at))) \<rparr>
      else s)"

definition history_gravity :: "int \<Rightarrow> int \<Rightarrow> int" where
  "history_gravity entry bonus = entry + (bonus - cdiv (entry * \<bar>bonus\<bar>) 16384)"

definition update_history :: "Color \<Rightarrow> Move \<Rightarrow> int \<Rightarrow> SearchState \<Rightarrow> SearchState" where
  "update_history c m bonus s =
     s \<lparr> s_history := (s_history s)(c := (s_history s c)(MOVE_FROM m := (s_history s c (MOVE_FROM m))(MOVE_TO m :=
        history_gravity (s_history s c (MOVE_FROM m) (MOVE_TO m)) bonus))) \<rparr>"

definition record_history :: "Color \<Rightarrow> Move \<Rightarrow> int \<Rightarrow> SearchState \<Rightarrow> SearchState" where
  "record_history c m depth s = update_history c m (depth * depth) s"

definition penalize_quiets :: "Color \<Rightarrow> Move list \<Rightarrow> int \<Rightarrow> SearchState \<Rightarrow> SearchState" where
  "penalize_quiets c quiets depth s =
     (let pen = - (depth * depth) in fold (\<lambda>m s. update_history c m pen s) quiets s)"


section \<open>Clock and reset\<close>

definition check_time :: "(nat \<Rightarrow> int) \<Rightarrow> SearchState \<Rightarrow> SearchState" where
  "check_time now s =
     (if s_nodes s AND 4095 = 0 then
        if s_nodes s > MAX_NODES then s \<lparr> s_stopped := True \<rparr>
        else let t = now (s_clock s); s = s \<lparr> s_clock := s_clock s + 1 \<rparr> in
          if t \<ge> s_deadline_ms s then s \<lparr> s_stopped := True \<rparr> else s
      else s)"

definition search_reset :: "bool \<Rightarrow> SearchState \<Rightarrow> SearchState" where
  "search_reset clear_tt s =
     (let s = (if clear_tt \<and> tt_entries (s_tt s) \<noteq> None then s \<lparr> s_tt := tt_clear (s_tt s) \<rparr> else s)
      in s \<lparr> s_nodes := 0, s_stopped := False, s_deadline_ms := 0, s_root := [],
           s_killers := (\<lambda>_. (MOVE_NONE, MOVE_NONE)), s_history := (\<lambda>_ _ _. 0),
           s_countermoves := (\<lambda>_ _ _. MOVE_NONE), s_eval_stack := (\<lambda>_. 0) \<rparr>)"


section \<open>The table\<close>

lemma tt_grow_power: "0 < n \<Longrightarrow> \<exists>k. tt_grow count n = n * 2 ^ k"
proof (induction count n rule: tt_grow.induct)
  case (1 count n)
  show ?case
  proof (cases "n * 2 \<le> count")
    case True
    with 1 obtain k where "tt_grow count (n * 2) = n * 2 * 2 ^ k" by auto
    then have "tt_grow count n = n * 2 ^ Suc k" using True 1(2) by (subst tt_grow.simps) simp
    then show ?thesis by blast
  next
    case False
    then show ?thesis by (intro exI [of _ 0]) (simp add: tt_grow.simps)
  qed
qed

lemma tt_grow_bounds: "0 < n \<Longrightarrow> count < tt_grow count n * 2 \<and> (n \<le> count \<longrightarrow> tt_grow count n \<le> count)"
proof (induction count n rule: tt_grow.induct)
  case (1 count n)
  show ?case
  proof (cases "n * 2 \<le> count")
    case True
    then have "tt_grow count n = tt_grow count (n * 2)" using 1(2) by (subst tt_grow.simps) simp
    with 1 True show ?thesis by simp
  next
    case False
    then have "tt_grow count n = n" by (subst tt_grow.simps) simp
    with False show ?thesis by simp
  qed
qed

lemma tt_index_less:
  assumes "tt_mask tt = 2 ^ k - 1" "k \<le> 64"
  shows "int (tt_index tt key) < 2 ^ k"
proof -
  have "key AND word_of_int (2 ^ k - 1) = take_bit k key"
    by (simp add: take_bit_eq_mask mask_eq_exp_minus_1)
  then have "tt_index tt key = take_bit k (unat key)"
    using assms by (simp add: tt_index_def unsigned_take_bit_eq)
  then have "tt_index tt key < 2 ^ k" by (simp add: take_bit_nat_less_exp)
  then show ?thesis by (metis of_nat_less_numeral_power_cancel_iff)
qed

lemma tt_store_index [simp]: "tt_index (tt_store tt key d sc f m) k = tt_index tt k"
  by (simp add: tt_index_def tt_store_def Let_def)

lemma tt_store_allocated [simp]: "tt_entries (tt_store tt key d sc f m) = None \<longleftrightarrow> tt_entries tt = None"
  by (simp add: tt_store_def Let_def)

text \<open>
  (C26) The table allocated for any size from 0 to 2047 megabytes has a power of two of entries, fits
  the requested memory (when it is not 0) while a table of twice as many entries would not, and the masked key of every probe and store is an index inside the table.
\<close>

theorem tt_alloc_index_bound:
  assumes "0 \<le> size_mb" "size_mb < 2048"
  shows "(\<exists>k \<le> 31. tt_count (tt_alloc size_mb) = 2 ^ k) \<and>
    (size_mb > 0 \<longrightarrow> tt_count (tt_alloc size_mb) * sizeof_TTEntry \<le> size_mb * 1024 * 1024 \<and>
       size_mb * 1024 * 1024 < tt_count (tt_alloc size_mb) * 2 * sizeof_TTEntry) \<and>
    int (tt_index (tt_alloc size_mb) key) < tt_count (tt_alloc size_mb)"
proof -
  define c where "c = size_mb * 1024 * 1024 div 24"
  have cd: "cdiv (size_mb * 1024 * 1024) sizeof_TTEntry = c" using assms(1) by (simp add: c_def sizeof_TTEntry_def)
  have cb: "c * 24 \<le> size_mb * 1024 * 1024" "size_mb * 1024 * 1024 < c * 24 + 24" "c < 2 ^ 31"
    using assms by (simp_all add: c_def)
  obtain k where k: "tt_grow c 1 = 2 ^ k" using tt_grow_power [of 1 c] by auto
  have le: "tt_grow c 1 \<le> max c 1"
    using tt_grow_bounds [of 1 c] by (cases "1 \<le> c") (simp_all add: tt_grow.simps)
  have gt: "c < tt_grow c 1 * 2" using tt_grow_bounds [of 1 c] by simp
  have "(2 :: int) ^ k \<le> 2 ^ 31" using le cb(3) unfolding k by simp
  then have k31: "k \<le> 31" by (subst (asm) power_increasing_iff) simp_all
  have t: "tt_count (tt_alloc size_mb) = 2 ^ k" "tt_mask (tt_alloc size_mb) = 2 ^ k - 1"
    unfolding tt_alloc_def Let_def cd k by simp_all
  have "1 \<le> c" if "size_mb > 0" using that cb(2) by linarith
  then have "size_mb > 0 \<Longrightarrow> 2 ^ k \<le> c" using le k by simp
  then have "size_mb > 0 \<longrightarrow> 2 ^ k * sizeof_TTEntry \<le> size_mb * 1024 * 1024 \<and>
      size_mb * 1024 * 1024 < 2 ^ k * 2 * sizeof_TTEntry"
    using cb gt unfolding k sizeof_TTEntry_def by auto
  moreover have "int (tt_index (tt_alloc size_mb) key) < 2 ^ k"
    using tt_index_less [OF t(2)] k31 by simp
  ultimately show ?thesis using k31 unfolding t(1) by blast
qed

theorem tt_alloc_index_bound_witness:
  "int (tt_index (tt_alloc 16) 0xffffffffffffffff) < tt_count (tt_alloc 16)"
  using tt_alloc_index_bound [of 16 "0xffffffffffffffff"] by simp

text \<open>
  (C25) What a probe finds after a store: the stored entry under its own key whenever the slot was
  replaced, which happens exactly for an equal key, an entry at most as deep or one without a
  best move; otherwise the table is unchanged.  Another key is lost only when it sat in the
  replaced slot.
\<close>

theorem tt_probe_store:
  assumes "tt_entries tt \<noteq> None" "tt' = tt_store tt key depth score flag best"
  shows "if tt_replaces (tt_slot tt key) key depth then
      tt_probe tt' key =
        Some \<lparr> tt_key = key, tt_depth = depth, tt_score = score, tt_flag = flag, tt_best_move = best \<rparr> \<and>
      (key' \<noteq> key \<longrightarrow> tt_probe tt' key' =
        (if tt_index tt key' = tt_index tt key then None else tt_probe tt key'))
    else tt' = tt \<and> tt_probe tt' key = None"
proof -
  obtain es where es: "tt_entries tt = Some es" using assms(1) by blast
  define i where "i = tt_index tt"
  have slot: "tt_slot tt k = es (i k)" for k by (simp add: tt_slot_def es i_def)
  show ?thesis
  proof (cases "tt_replaces (tt_slot tt key) key depth")
    case True
    then have "tt' = tt \<lparr> tt_entries := Some (es(i key :=
        \<lparr> tt_key = key, tt_depth = depth, tt_score = score, tt_flag = flag, tt_best_move = best \<rparr>)) \<rparr>"
      unfolding assms(2) tt_store_def Let_def i_def es by simp
    moreover have "tt_index tt' k = i k" for k unfolding assms(2) i_def by simp
    ultimately have "tt_slot tt' k = (es(i key :=
        \<lparr> tt_key = key, tt_depth = depth, tt_score = score, tt_flag = flag, tt_best_move = best \<rparr>)) (i k)" for k
      by (simp add: tt_slot_def)
    then show ?thesis using True by (simp add: tt_probe_def slot i_def)
  next
    case False
    then show ?thesis by (simp add: assms(2) tt_store_def tt_probe_def tt_replaces_def Let_def)
  qed
qed

theorem tt_probe_store_witness:
  "tt_probe (tt_store (tt_alloc 1) 5 3 17 TT_EXACT 99) 5 =
     Some \<lparr> tt_key = 5, tt_depth = 3, tt_score = 17, tt_flag = TT_EXACT, tt_best_move = 99 \<rparr> \<and>
   tt_probe (tt_store (tt_alloc 1) 5 3 17 TT_EXACT 99) 6 = None"
proof -
  have a: "tt_entries (tt_alloc 1) \<noteq> None" "tt_slot (tt_alloc 1) k = zero_entry" for k
    by (simp_all add: tt_alloc_def tt_slot_def Let_def)
  then have r: "tt_replaces (tt_slot (tt_alloc 1) 5) 5 3" "tt_probe (tt_alloc 1) 6 = None"
    by (simp_all add: tt_replaces_def zero_entry_def tt_probe_def)
  have "tt_probe (tt_store (tt_alloc 1) 5 3 17 TT_EXACT 99) 5 =
      Some \<lparr> tt_key = 5, tt_depth = 3, tt_score = 17, tt_flag = TT_EXACT, tt_best_move = 99 \<rparr>"
    "tt_probe (tt_store (tt_alloc 1) 5 3 17 TT_EXACT 99) 6 = None"
    using tt_probe_store [OF a(1) refl, of 5 3 17 TT_EXACT 99 6] r by (simp_all split: if_splits)
  then show ?thesis by blast
qed


section \<open>Random numbers and history\<close>

lemma rng_range_bounds:
  assumes "limit < 2 ^ 31"
  shows "0 \<le> fst (rng_range limit s)" "fst (rng_range limit s) < (if limit \<le> 1 then 1 else limit)"
proof -
  have "uint ((x :: u64) mod word_of_int limit) < limit" if "1 < limit" for x
  proof -
    have "uint (word_of_int limit :: u64) = limit"
      using that assms by (simp add: uint_word_of_int take_bit_int_eq_self)
    moreover have "uint (x mod word_of_int limit) = uint x mod uint (word_of_int limit :: u64)"
      by (rule uint_mod)
    ultimately show ?thesis using that by simp
  qed
  then show "0 \<le> fst (rng_range limit s)" "fst (rng_range limit s) < (if limit \<le> 1 then 1 else limit)"
    by (simp_all add: rng_range_def rng_next_def Let_def)
qed

lemma rng_range_frame: "\<exists>x. snd (rng_range limit s) = s \<lparr> s_rng := x \<rparr>"
  by (cases "limit \<le> 1") (auto simp: rng_range_def rng_next_def Let_def intro: exI [of _ "s_rng s"])

text \<open>One step of the gravity formula stays within the bound for every bonus within it.\<close>

lemma gravity_upper:
  assumes "0 \<le> e" "e \<le> M" "0 \<le> p" "p \<le> M" "0 < (M :: int)"
  shows "e + p - e * p div M \<le> M"
proof -
  have "0 \<le> (M - e) * (M - p)" using assms by simp
  then have "(e + p - M) * M \<le> e * p" by (simp add: algebra_simps)
  then have "e + p - M \<le> e * p div M" using zdiv_mono1 [of "(e + p - M) * M" "e * p" M] assms(5) by simp
  then show ?thesis by simp
qed

lemma history_gravity_neg: "history_gravity (- e) (- p) = - history_gravity e p"
  by (simp add: history_gravity_def cdiv_neg)

lemma history_gravity_pos:
  assumes "0 \<le> e" "e \<le> 16384" "\<bar>p\<bar> \<le> 16384"
  shows "\<bar>history_gravity e p\<bar> \<le> 16384"
proof -
  define d where "d = e * \<bar>p\<bar> div 16384"
  have g: "history_gravity e p = e + p - d" using assms(1) by (simp add: history_gravity_def d_def)
  have "e * \<bar>p\<bar> \<le> e * 16384" using assms(1,3) by (intro mult_left_mono) auto
  then have "d \<le> e" using zdiv_mono1 [of "e * \<bar>p\<bar>" "e * 16384" 16384] by (simp add: d_def)
  moreover have "0 \<le> d" using assms(1) unfolding d_def by (intro div_int_pos_iff [THEN iffD2]) simp
  moreover have "e + \<bar>p\<bar> - d \<le> 16384"
    using gravity_upper [of e 16384 "\<bar>p\<bar>"] assms by (simp add: d_def)
  ultimately show ?thesis unfolding g using assms by linarith
qed

lemma history_gravity_bound:
  assumes "\<bar>e\<bar> \<le> 16384" "\<bar>p\<bar> \<le> 16384"
  shows "\<bar>history_gravity e p\<bar> \<le> 16384"
proof (cases "0 \<le> e")
  case True
  with assms show ?thesis by (intro history_gravity_pos) auto
next
  case False
  with assms have "\<bar>history_gravity (- e) (- p)\<bar> \<le> 16384" by (intro history_gravity_pos) auto
  then show ?thesis by (simp add: history_gravity_neg)
qed

definition history_ok :: "SearchState \<Rightarrow> bool" where
  "history_ok s \<longleftrightarrow> (\<forall>c f t. \<bar>s_history s c f t\<bar> \<le> 16384)"

lemma update_history_ok: "history_ok s \<Longrightarrow> \<bar>bonus\<bar> \<le> 16384 \<Longrightarrow> history_ok (update_history c m bonus s)"
  by (auto simp: history_ok_def update_history_def history_gravity_bound)

lemma square_bound:
  assumes "\<bar>d\<bar> \<le> (128 :: int)"
  shows "\<bar>d * d\<bar> \<le> 16384"
proof -
  have "\<bar>d\<bar> * \<bar>d\<bar> \<le> 128 * 128" using assms by (intro mult_mono) auto
  then show ?thesis by (simp add: abs_mult)
qed

lemma record_history_ok: "history_ok s \<Longrightarrow> \<bar>depth\<bar> \<le> 128 \<Longrightarrow> history_ok (record_history c m depth s)"
  unfolding record_history_def by (intro update_history_ok square_bound)

lemma penalize_quiets_ok:
  assumes "history_ok s" "\<bar>depth\<bar> \<le> 128"
  shows "history_ok (penalize_quiets c quiets depth s)"
proof -
  have "\<bar>- (depth * depth)\<bar> \<le> 16384" using square_bound [OF assms(2)] by simp
  then show ?thesis
    using assms(1) unfolding penalize_quiets_def Let_def
    by (induction quiets arbitrary: s) (simp_all add: update_history_ok)
qed

end
