(* ===== verification/HeurSaveQueen.thy ===== *)
theory HeurSaveQueen
  imports HeurTypes SearchState
begin

text \<open>
  The Save the Queen heuristics, which stand in \<open>search.c\<close> itself: the terminal test of the game,
  and the scores of developing, pawn, queen and king moves in the opening.
\<close>

section \<open>Terminal positions\<close>

text \<open>The out-parameter \<open>is_terminal\<close> and the score as an option.\<close>

definition stq_terminal_score :: "Board \<Rightarrow> int \<Rightarrow> int option" where
  "stq_terminal_score b at =
     (if game_mod b \<noteq> MOD_SAVE_QUEEN then None
      else let us = side b; opp = color_opposite us;
          home = (\<lambda>c d. pieces b c QUEEN \<noteq> BB_EMPTY \<and>
            stq_is_own_half (bb_lsb (pieces b c QUEEN)) c \<and> stq_on_prison (bb_lsb (pieces b c QUEEN)) d) in
        if home us opp then Some (MATE_SCORE - at)
        else if home opp us then Some (- (MATE_SCORE - at))
        else if ply b > 0 then
          let captured = u_captured (history b (ply b - 1)); captured_sq = u_captured_sq (history b (ply b - 1)) in
          if captured \<noteq> PIECE_EMPTY \<and> PIECE_TYPE captured = QUEEN \<and> captured_sq \<noteq> SQ_NONE then
            let captured_color = PIECE_COLOR captured in
            if stq_is_own_half captured_sq captured_color then
              Some (if captured_color = us then - (MATE_SCORE - at) else MATE_SCORE - at)
            else None
          else None
        else None)"


section \<open>Scores of single moves\<close>

definition stq_undeveloped_minor_count :: "Board \<Rightarrow> Color \<Rightarrow> int" where
  "stq_undeveloped_minor_count b c = (if game_mod b \<noteq> MOD_SAVE_QUEEN then 0 else home_minors b c)"

definition stq_knight_score :: "Board \<Rightarrow> Move \<Rightarrow> Color \<Rightarrow> int" where
  "stq_knight_score b m c =
     (let to_sq = MOVE_TO m; pawn = (\<lambda>d s. BB_HAS (pieces b d PAWN) s) in
      bonus_if (c = WHITE \<and> to_sq = SQ 2 5 \<or> c = BLACK \<and> to_sq = SQ 5 5) 34
      - (if fullmove b \<le> 10 then
           (if c = WHITE \<and> MOVE_FROM m = SQ 0 1 \<and> (to_sq = SQ 2 2 \<or> to_sq = SQ 1 3)
            then 48 + bonus_if (pawn WHITE (SQ 1 2)) 20 + bonus_if (pawn WHITE (SQ 1 3)) 10 else 0)
           + (if c = BLACK \<and> MOVE_FROM m = SQ 7 1 \<and> (to_sq = SQ 5 2 \<or> to_sq = SQ 6 3)
              then 56 + bonus_if (pawn BLACK (SQ 6 2)) 24 + bonus_if (pawn BLACK (SQ 6 3)) 10 else 0)
         else 0))"

definition stq_minor_development_score :: "Board \<Rightarrow> Move \<Rightarrow> Color \<Rightarrow> int" where
  "stq_minor_development_score b m c =
     (if game_mod b \<noteq> MOD_SAVE_QUEEN \<or> \<not> quiet m then 0
      else let piece = MOVE_PIECE m in
        if piece \<noteq> KNIGHT \<and> piece \<noteq> BISHOP then 0
        else if \<not> leaves_back_rank c m then 0
        else let to_sq = MOVE_TO m; undeveloped = stq_undeveloped_minor_count b c in
          (if piece = KNIGHT then 40 else 30)
          + bonus_if (center_files to_sq) 6
          + bonus_if (rel_row c to_sq \<ge> 2) 4
          + bonus_if (undeveloped \<ge> 3) 6
          + (if piece = KNIGHT then stq_knight_score b m c else 0))"

definition stq_quiet_pawn_score :: "Board \<Rightarrow> Move \<Rightarrow> Color \<Rightarrow> int" where
  "stq_quiet_pawn_score b m c =
     (if game_mod b \<noteq> MOD_SAVE_QUEEN \<or> MOVE_PIECE m \<noteq> PAWN \<or> \<not> quiet m then 0
      else if rel_row c (MOVE_FROM m) \<noteq> 1 then 0
      else let to_rank = rel_row c (MOVE_TO m); to_file = SQ_COL (MOVE_TO m) in
        bonus_if (to_file \<ge> 2 \<and> to_file \<le> 5) 26
        + bonus_if (to_file \<ge> 3 \<and> to_file \<le> 4) 10
        + bonus_if (to_rank \<ge> 3) 10)"

definition stq_flank_pawn_penalty :: "Board \<Rightarrow> Move \<Rightarrow> Color \<Rightarrow> int" where
  "stq_flank_pawn_penalty b m c =
     (if game_mod b \<noteq> MOD_SAVE_QUEEN \<or> MOVE_PIECE m \<noteq> PAWN \<or> \<not> quiet m then 0
      else if rel_row c (MOVE_FROM m) \<noteq> 1 then 0
      else if stq_undeveloped_minor_count b c < 2 then 0
      else let from_file = SQ_COL (MOVE_FROM m) in
        if from_file = 0 \<or> from_file = 7 then 90
        else if from_file = 1 \<or> from_file = 6 then 50
        else 0)"

definition stq_early_queen_sortie_penalty :: "ZobState \<Rightarrow> Board \<Rightarrow> Move \<Rightarrow> Color \<Rightarrow> int" where
  "stq_early_queen_sortie_penalty Z b m c =
     (if game_mod b \<noteq> MOD_SAVE_QUEEN \<or> MOVE_PIECE m \<noteq> QUEEN \<or> \<not> quiet m then 0
      else if fullmove b > 12 then 0
      else let from_sq = MOVE_FROM m; to_sq = MOVE_TO m;
          undeveloped = stq_undeveloped_minor_count b c;
          from_own_half = stq_is_own_half from_sq c;
          child = board_make_move Z b m;
          queen_attacked = board_square_attacked child to_sq (side child);
          queen_defended = board_square_attacked child to_sq c in
        if \<not> from_own_half then
          let before_dist = (if c = WHITE then SQ_ROW from_sq - 3 else 4 - SQ_ROW from_sq);
              after_dist = (if c = WHITE then SQ_ROW to_sq - 3 else 4 - SQ_ROW to_sq)
          in 70 + undeveloped * 18 + bonus_if (before_dist \<ge> 3) 45 + bonus_if (after_dist \<ge> before_dist) 65
            + (if queen_attacked \<and> \<not> queen_defended then 260 else bonus_if queen_attacked 90)
        else if undeveloped \<ge> 2 then
          70 + undeveloped * 16 + (if queen_attacked \<and> \<not> queen_defended then 240 else bonus_if queen_attacked 80)
        else 0)"

definition stq_king_drift_penalty :: "Board \<Rightarrow> Move \<Rightarrow> Color \<Rightarrow> int" where
  "stq_king_drift_penalty b m c =
     (if game_mod b \<noteq> MOD_SAVE_QUEEN \<or> MOVE_PIECE m \<noteq> KING \<or> \<not> quiet m then 0
      else if fullmove b > 12 then 0
      else if board_in_check b c then 0
      else let from_sq = MOVE_FROM m; to_sq = MOVE_TO m in
        120 + bonus_if (c = WHITE \<and> from_sq = SQ 0 4 \<or> c = BLACK \<and> from_sq = SQ 7 4) 30
        + bonus_if (SQ_COL to_sq \<noteq> 4) 20)"

end
