(* ===== verification/See.thy ===== *)
theory See
  imports Attacks SearchState
begin

text \<open>
  Static exchange evaluation of \<open>search.c\<close>: \<open>attackers_to\<close>, \<open>see_pv\<close> and \<open>see_value\<close>.  The array
  \<open>gain[0..d]\<close> is the list of its entries, the last one first; one round of the capture loop is
  \<open>see_next\<close>, which is \<open>None\<close> where the loop breaks for want of a capture.
\<close>

section \<open>Definitions\<close>

definition diag_sliders :: "Board \<Rightarrow> Bitboard" where
  "diag_sliders b = pieces b WHITE BISHOP OR pieces b BLACK BISHOP OR pieces b WHITE QUEEN OR pieces b BLACK QUEEN"

definition orth_sliders :: "Board \<Rightarrow> Bitboard" where
  "orth_sliders b = pieces b WHITE ROOK OR pieces b BLACK ROOK OR pieces b WHITE QUEEN OR pieces b BLACK QUEEN"

definition attackers_to :: "Board \<Rightarrow> Square \<Rightarrow> Bitboard \<Rightarrow> Bitboard" where
  "attackers_to b sq occ =
     (let att = BB_EMPTY;
          att = att OR (knight_attacks sq AND (pieces b WHITE KNIGHT OR pieces b BLACK KNIGHT));
          att = att OR (king_attacks sq AND (pieces b WHITE KING OR pieces b BLACK KING));
          att = att OR (bishop_attacks_calc sq occ AND diag_sliders b);
          att = att OR (rook_attacks_calc sq occ AND orth_sliders b);
          att = (if game_mod b = MOD_MERCENARY
                 then att OR (king_attacks sq AND (pieces b WHITE PAWN OR pieces b BLACK PAWN))
                 else att OR (pawn_attacks BLACK sq AND pieces b WHITE PAWN)
                          OR (pawn_attacks WHITE sq AND pieces b BLACK PAWN))
      in att AND occ)"

definition SEE_PIECE_VAL :: "int list" where
  "SEE_PIECE_VAL = [100, 320, 330, 500, 900, 20000, 0]"

text \<open>The four flags \<open>is_merc\<close>, \<open>is_heir\<close>, \<open>is_stq\<close> and \<open>is_succ\<close> are read off the mod.\<close>

definition see_pv :: "GameMod \<Rightarrow> PieceType \<Rightarrow> int" where
  "see_pv md pt =
     (if pt = PAWN \<and> md = MOD_MERCENARY then 180
      else if pt = PAWN \<and> md = MOD_HEIR then 140
      else if pt = KING \<and> md = MOD_HEIR then 250
      else if pt = QUEEN \<and> md = MOD_SAVE_QUEEN then 1200
      else if pt = QUEEN \<and> md = MOD_SUCCESSION then 1300
      else if pt = PAWN \<and> md = MOD_SUCCESSION then 160
      else if pt = KING \<and> md = MOD_SUCCESSION then 700
      else SEE_PIECE_VAL ! type_val pt)"

text \<open>
  One capture: the least valuable attacker of the side to move, the occupancy without it, and the
  attackers after the x-rays behind it are revealed.
\<close>

definition see_next :: "Board \<Rightarrow> Square \<Rightarrow> Color \<Rightarrow> Bitboard \<Rightarrow> Bitboard \<Rightarrow> (PieceType \<times> Bitboard \<times> Bitboard) option" where
  "see_next b to stm occ all_atk =
     (let stm_atk = all_atk AND occupied b stm AND occ in
      if stm_atk = 0 then None
      else case find (\<lambda>p. stm_atk AND pieces b stm p \<noteq> 0) piece_types of
        None \<Rightarrow> None
      | Some pt \<Rightarrow>
          if pt = KING \<and> all_atk AND occupied b (color_opposite stm) AND occ \<noteq> 0 then None
          else let overlap = stm_atk AND pieces b stm pt;
              pt_bb = overlap AND (NOT overlap + 1);
              occ = occ XOR pt_bb;
              all_atk = (if pt = PAWN \<or> pt = BISHOP \<or> pt = QUEEN
                         then all_atk OR (bishop_attacks_calc to occ AND diag_sliders b) else all_atk);
              all_atk = (if pt = ROOK \<or> pt = QUEEN
                         then all_atk OR (rook_attacks_calc to occ AND orth_sliders b) else all_atk)
            in Some (pt, occ, all_atk AND occ))"

text \<open>The loop \<open>while (d < 31)\<close>; its first argument is \<open>31 - d\<close>.\<close>

primrec see_loop :: "nat \<Rightarrow> Board \<Rightarrow> Square \<Rightarrow> PieceType \<Rightarrow> Color \<Rightarrow> Bitboard \<Rightarrow> Bitboard \<Rightarrow> int list \<Rightarrow> int list" where
  "see_loop 0 b to next_victim stm occ all_atk gain = gain"
| "see_loop (Suc n) b to next_victim stm occ all_atk gain =
     (let g = see_pv (game_mod b) next_victim - hd gain; gain' = g # gain in
      if max (- hd gain) g < 0 then gain'
      else case see_next b to stm occ all_atk of
        None \<Rightarrow> gain'
      | Some (pt, occ, all_atk) \<Rightarrow> see_loop n b to pt (color_opposite stm) occ all_atk gain')"

text \<open>The loop \<open>while (--d > 0)\<close>, on the list without \<open>gain[d]\<close>.\<close>

fun see_negamax :: "int list \<Rightarrow> int" where
  "see_negamax [] = 0"
| "see_negamax [g] = g"
| "see_negamax (g # h # gs) = see_negamax (- max (- h) g # gs)"

definition see_gain0 :: "Board \<Rightarrow> Move \<Rightarrow> int" where
  "see_gain0 b m =
     (let g = see_pv (game_mod b) (MOVE_CAPTURED m);
          g = (if game_mod b = MOD_FRIENDLY_FIRE \<and> \<not> MOVE_IS_EP m \<and>
                 PIECE_COLOR (piece_at b (MOVE_FROM m)) = PIECE_COLOR (piece_at b (MOVE_TO m)) then - g else g)
      in if MOVE_IS_PROMO m
         then g + (see_pv (game_mod b) (MOVE_PROMO_TYPE m) - see_pv (game_mod b) PAWN) else g)"

definition see_occ :: "Board \<Rightarrow> Move \<Rightarrow> Bitboard" where
  "see_occ b m =
     (let occ = all_bb b XOR BB_SQ (MOVE_FROM m) in
      if MOVE_IS_EP m then occ XOR BB_SQ (SQ (SQ_ROW (MOVE_FROM m)) (SQ_COL (MOVE_TO m))) else occ)"

definition see_victim :: "Move \<Rightarrow> PieceType" where
  "see_victim m = (if MOVE_IS_PROMO m then MOVE_PROMO_TYPE m else MOVE_PIECE m)"

definition see_value :: "Board \<Rightarrow> Move \<Rightarrow> int" where
  "see_value b m =
     (if \<not> MOVE_IS_CAPTURE m \<and> \<not> MOVE_IS_EP m then 0
      else let occ = see_occ b m;
          all_atk = attackers_to b (MOVE_TO m) occ;
          stm = color_opposite (PIECE_COLOR (piece_at b (MOVE_FROM m)));
          gain = see_loop 31 b (MOVE_TO m) (see_victim m) stm occ all_atk [see_gain0 b m]
        in see_negamax (tl gain))"


section \<open>The exchange as a game\<close>

text \<open>
  The reference: the values of the pieces that can be captured one after the other on the square,
  each by the least valuable attacker, and the outcome when either side stops capturing as soon as
  that is better for it.
\<close>

primrec see_captures :: "nat \<Rightarrow> Board \<Rightarrow> Square \<Rightarrow> PieceType \<Rightarrow> Color \<Rightarrow> Bitboard \<Rightarrow> Bitboard \<Rightarrow> int list" where
  "see_captures 0 b to next_victim stm occ all_atk = []"
| "see_captures (Suc n) b to next_victim stm occ all_atk =
     (case see_next b to stm occ all_atk of
        None \<Rightarrow> []
      | Some (pt, occ, all_atk) \<Rightarrow>
          see_pv (game_mod b) next_victim # see_captures n b to pt (color_opposite stm) occ all_atk)"

primrec exchange :: "int list \<Rightarrow> int" where
  "exchange [] = 0"
| "exchange (v # vs) = max 0 (v - exchange vs)"

lemma exchange_nonneg: "0 \<le> exchange vs"
  by (cases vs) simp_all

lemma exchange_le: "v \<ge> 0 \<Longrightarrow> exchange (v # vs) \<le> v"
  using exchange_nonneg [of vs] by simp

lemma see_pv_nonneg: "pt \<noteq> PT_7 \<Longrightarrow> 0 \<le> see_pv md pt"
  by (cases pt) (simp_all add: see_pv_def SEE_PIECE_VAL_def)

text \<open>Only the sign of the first entry matters for the sign of the result.\<close>

lemma see_negamax_sgn: "sgn g = sgn g' \<Longrightarrow> sgn (see_negamax (g # gs)) = sgn (see_negamax (g' # gs))"
proof (induction gs arbitrary: g g')
  case Nil
  then show ?case by simp
next
  case (Cons h gs)
  have "sgn (- max (- h) g) = sgn (- max (- h) g')"
    using Cons.prems by (auto simp: sgn_if max_def split: if_splits)
  then show ?case using Cons.IH by simp
qed

lemma find_type_ne_PT_7: "find P piece_types = Some pt \<Longrightarrow> pt \<noteq> PT_7"
  by (auto simp: piece_types_def split: if_splits)

lemma see_next_victim: "see_next b to stm occ atk = Some (pt, occ', atk') \<Longrightarrow> pt \<noteq> PT_7"
  by (auto simp: see_next_def Let_def split: if_splits option.splits dest: find_type_ne_PT_7)

lemma see_loop_sgn:
  assumes "victim \<noteq> PT_7"
  shows "sgn (see_negamax (tl (see_loop (Suc n) b to victim stm occ atk (g # gs)))) =
    sgn (see_negamax ((g - exchange (see_captures n b to victim stm occ atk)) # gs))"
  using assms
proof (induction n arbitrary: victim stm occ atk g gs)
  case 0
  then show ?case by (simp add: Let_def split: option.split)
next
  case (Suc n)
  let ?v = "see_pv (game_mod b) victim"
  have v: "0 \<le> ?v" using see_pv_nonneg [OF Suc.prems] .
  show ?case
  proof (cases "max (- g) (?v - g) < 0")
    case True
    let ?e = "exchange (see_captures (Suc n) b to victim stm occ atk)"
    have "?e \<le> ?v" using exchange_le [OF v] v by (auto split: option.split simp del: exchange.simps(2))
    then have "sgn g = sgn (g - ?e)" using True by (auto simp: sgn_if)
    from see_negamax_sgn [OF this, of gs] show ?thesis using True by (simp add: Let_def)
  next
    case False
    show ?thesis
    proof (cases "see_next b to stm occ atk")
      case None
      then show ?thesis using False by (simp add: Let_def)
    next
      case (Some r)
      then obtain pt occ' atk' where r: "see_next b to stm occ atk = Some (pt, occ', atk')" by (cases r) auto
      let ?vs = "see_captures n b to pt (color_opposite stm) occ' atk'"
      have "see_loop (Suc (Suc n)) b to victim stm occ atk (g # gs) =
          see_loop (Suc n) b to pt (color_opposite stm) occ' atk' ((?v - g) # g # gs)"
        by (subst see_loop.simps) (use False r in \<open>auto simp: Let_def simp del: see_loop.simps\<close>)
      moreover have "see_captures (Suc n) b to victim stm occ atk = ?v # ?vs" by (simp add: r)
      moreover have "- max (- g) (?v - g - exchange ?vs) = g - exchange (?v # ?vs)" by (simp add: max_def)
      ultimately show ?thesis
        using Suc.IH [OF see_next_victim [OF r], of "color_opposite stm" occ' atk' "?v - g" "g # gs"]
        by (simp del: see_loop.simps)
    qed
  qed
qed

definition see_reference :: "Board \<Rightarrow> Move \<Rightarrow> int" where
  "see_reference b m =
     (let occ = see_occ b m in
      see_gain0 b m - exchange (see_captures 30 b (MOVE_TO m) (see_victim m)
        (color_opposite (PIECE_COLOR (piece_at b (MOVE_FROM m)))) occ (attackers_to b (MOVE_TO m) occ)))"


text \<open>
  (C21) The loop of \<open>see_value\<close> gives up on an exchange as soon as both sides would rather stop, and
  yet its verdict is right: the result has the sign of the exchange in which every capture is made
  by the least valuable attacker and either side may stop at any time.  The decisions of the
  search that compare the result with 0 (good and bad captures in the ordering, losing captures in the
  quiescence search) therefore agree with the full exchange; those that compare it with
  another bound need not.
\<close>

theorem see_value_sign:
  assumes "MOVE_IS_CAPTURE m \<or> MOVE_IS_EP m" "MOVE_PIECE m \<noteq> PT_7" "MOVE_PROMO_TYPE m \<noteq> PT_7"
  shows "sgn (see_value b m) = sgn (see_reference b m)"
proof -
  have v: "see_victim m \<noteq> PT_7" using assms(2,3) by (simp add: see_victim_def)
  have e: "see_loop 31 = see_loop (Suc 30)" by (simp only: eval_nat_numeral)
  show ?thesis
    using see_loop_sgn [OF v, of 30 b "MOVE_TO m" _ _ _ "see_gain0 b m" "[]"] assms(1)
    unfolding see_value_def see_reference_def Let_def e by (auto simp del: see_loop.simps)
qed

text \<open>A pawn takes a queen that a pawn protects.\<close>

definition see_demo :: Board where
  "see_demo = board_place (board_place (board_place board_clear 28 WHITE PAWN) 35 BLACK QUEEN) 42 BLACK PAWN"

theorem see_value_sign_witness:
  "sgn (see_value see_demo (move_capture 28 35 PAWN QUEEN)) =
   sgn (see_reference see_demo (move_capture 28 35 PAWN QUEEN))"
  by (rule see_value_sign) (simp_all add: SQ_VALID_def move_capture_def)


end
