(* ===== verification/MoveOrder.thy ===== *)
theory MoveOrder
  imports "HOL-Library.Multiset" See HeurHeir HeurTruce HeurMercenary HeurFriendlyFire HeurKingsBattle HeurSaveQueen
begin

text \<open>
  Move ordering of \<open>search.c\<close>: \<open>move_score\<close>, and the insertion sorts of \<open>order_moves\<close> and
  \<open>order_captures_see\<close>.  The two parallel arrays of moves and scores are one list of pairs.
\<close>

section \<open>Scores\<close>

definition MVV_LVA :: "int list list" where
  "MVV_LVA =
     [[105, 205, 305, 405, 505, 605],
      [104, 204, 304, 404, 504, 604],
      [103, 203, 303, 403, 503, 603],
      [102, 202, 302, 402, 502, 602],
      [101, 201, 301, 401, 501, 601],
      [100, 200, 300, 400, 500, 600]]"

definition capture_score :: "Board \<Rightarrow> Move \<Rightarrow> Color \<Rightarrow> int" where
  "capture_score b m c =
     (let see = see_value b m;
          ff_self_cap_score = search_ff_self_capture_score b m c;
          score = (if game_mod b = MOD_FRIENDLY_FIRE \<and> search_ff_is_own_capture b m \<and> ff_self_cap_score \<ge> 140
                   then 4600000 + ff_self_cap_score + max see (- 200)
                   else if see \<ge> 0 then 5000000 + MVV_LVA ! type_val (MOVE_PIECE m) ! type_val (MOVE_CAPTURED m)
                   else - 1000000 + see);
          score = (if game_mod b = MOD_HEIR \<and> see \<ge> 0 then
                     let captured = MOVE_CAPTURED m;
                         bishop_grab_penalty = search_heir_risky_bishop_pawn_grab_penalty b m
                     in score + bonus_if (captured \<ge> KNIGHT) 240
                          + bonus_if (captured = PAWN \<and> central (MOVE_TO m)) 140
                          - bonus_if (bishop_grab_penalty > 0) bishop_grab_penalty
                   else score)
      in if game_mod b = MOD_KINGS_BATTLE \<and> \<not> kb_unlocked b then
           score + bonus_if (MOVE_PIECE m = KING \<and> MOVE_CAPTURED m = PAWN) 1600
             + (if MOVE_PIECE m = PAWN then search_kb_phase1_pawn_race_score b m c else 0)
         else score)"

definition heir_quiet_score :: "Board \<Rightarrow> Move \<Rightarrow> Color \<Rightarrow> int" where
  "heir_quiet_score b m c =
     (let piece = MOVE_PIECE m; to = MOVE_TO m; to_rel = rel_row c to;
          minus = (\<lambda>penalty. - bonus_if (penalty > 0) penalty);
          harass = search_heir_pawn_harass_score b m
      in bonus_if ((piece = KNIGHT \<or> piece = BISHOP) \<and> leaves_back_rank c m) 140
       + bonus_if (piece = KING \<and> search_heir_king_under_direct_fire b) 220
       + (if piece = ROOK then
            bonus_if (to_rel = 6) 80 + bonus_if (pieces b c PAWN AND file_bb (SQ_COL to) = 0) 40
          else 0)
       + bonus_if ((piece = KNIGHT \<or> piece = BISHOP) \<and> center_files to \<and> to_rel \<ge> 2 \<and> to_rel \<le> 5) 30
       + minus (search_heir_early_queen_sortie_penalty b m)
       + minus (search_heir_f_pawn_block_move_penalty b m)
       + minus (search_heir_flank_pawn_drift_penalty b m)
       + minus (search_heir_risky_center_pawn_push_penalty b m)
       + minus (search_heir_simplified_center_pawn_push_penalty b m)
       + bonus_if (harass > 0) harass)"

definition quiet_score :: "ZobState \<Rightarrow> SearchState \<Rightarrow> Board \<Rightarrow> Move \<Rightarrow> Color \<Rightarrow> int" where
  "quiet_score Z s b m c =
     s_history s c (MOVE_FROM m) (MOVE_TO m)
     + (if game_mod b = MOD_HEIR then heir_quiet_score b m c else 0)
     + search_truce_minor_development_score b m c
     - search_truce_early_queen_sortie_penalty b m c
     + search_truce_quiet_pawn_score b m c
     + search_ff_minor_development_score b m c
     - search_ff_early_queen_sortie_penalty b m c
     + search_ff_quiet_pawn_score b m c
     + search_ff_quiet_pressure_score b m c
     + search_ff_king_safety_score Z b m c
     + search_ff_king_zone_guard_score b m c
     + search_ff_self_capture_prep_score b m c
     - search_ff_pawn_challenge_penalty b m c
     - search_ff_flank_pawn_harass_penalty b m c
     + search_kb_phase1_king_activation_score b m c
     + search_kb_phase1_pawn_race_score b m c
     + search_kb_unlocked_queen_pressure_score b m c
     + search_kb_unlocked_king_safety_score b m c
     + search_kb_unlocked_development_score b m c
     + search_kb_unlocked_king_shelter_score b m c
     + search_merc_minor_development_score b m c
     - search_merc_early_queen_sortie_penalty b m c
     + search_merc_quiet_pawn_score b m c
     + search_merc_king_safety_score b m c
     + stq_minor_development_score b m c
     + stq_quiet_pawn_score b m c
     - stq_flank_pawn_penalty b m c
     - stq_early_queen_sortie_penalty Z b m c
     - stq_king_drift_penalty b m c"

definition move_score :: "ZobState \<Rightarrow> SearchState \<Rightarrow> Board \<Rightarrow> Move \<Rightarrow> Move \<Rightarrow> int \<Rightarrow> Color \<Rightarrow> Move \<Rightarrow> int" where
  "move_score Z s b m tt_move at c countermove =
     (let kb_pawn_score = search_kb_phase1_pawn_race_score b m c in
      if m = tt_move \<and> tt_move \<noteq> MOVE_NONE then 10000000
      else if MOVE_IS_PROMO m then (if MOVE_PROMO_TYPE m = QUEEN then 8000000 else - 500000)
      else if MOVE_IS_CAPTURE m \<or> MOVE_IS_EP m then capture_score b m c
      else if game_mod b = MOD_KINGS_BATTLE \<and> \<not> kb_unlocked b \<and> MOVE_PIECE m = PAWN \<and> kb_pawn_score \<ge> 260
      then 5200000 + kb_pawn_score
      else if at < MAX_PLY \<and> m = fst (s_killers s at) then 900000
      else if at < MAX_PLY \<and> m = snd (s_killers s at) then 899000
      else if m = countermove \<and> countermove \<noteq> MOVE_NONE then 800000
      else quiet_score Z s b m c)"


section \<open>Insertion sort\<close>

text \<open>
  The inner loop shifts the entries with a smaller score, from the right end of the sorted prefix,
  and puts the new entry where it stops.
\<close>

definition shift_in :: "Move \<times> int \<Rightarrow> (Move \<times> int) list \<Rightarrow> (Move \<times> int) list" where
  "shift_in x sorted_part =
     (let shifted = takeWhile (\<lambda>y. snd y < snd x) (rev sorted_part);
          rest = dropWhile (\<lambda>y. snd y < snd x) (rev sorted_part)
      in rev rest @ x # rev shifted)"

definition sort_scored :: "(Move \<times> int) list \<Rightarrow> (Move \<times> int) list" where
  "sort_scored xs = fold shift_in xs []"

definition order_moves :: "ZobState \<Rightarrow> SearchState \<Rightarrow> Board \<Rightarrow> MoveList \<Rightarrow> Move \<Rightarrow> int \<Rightarrow> Color \<Rightarrow> Move \<Rightarrow> MoveList" where
  "order_moves Z s b ml tt_move at c countermove =
     map fst (sort_scored (map (\<lambda>m. (m, move_score Z s b m tt_move at c countermove)) ml))"

definition order_captures_see :: "Board \<Rightarrow> MoveList \<Rightarrow> MoveList" where
  "order_captures_see b ml = map fst (sort_scored (map (\<lambda>m. (m, see_value b m)) ml))"


section \<open>The sort is stable\<close>

lemma shift_in_insort: "rev (shift_in x ys) = insort_key snd x (rev ys)"
proof -
  have "rev (shift_in x (rev zs)) = insort_key snd x zs" for zs
    by (induction zs) (auto simp: shift_in_def Let_def not_le)
  from this [of "rev ys"] show ?thesis by simp
qed

lemma sort_scored_fold: "rev (fold shift_in xs ys) = fold (insort_key snd) xs (rev ys)"
  by (induction xs arbitrary: ys) (simp_all add: shift_in_insort)

lemma rev_sort_scored: "rev (sort_scored xs) = sort_key snd (rev xs)"
proof -
  have "fold (insort_key snd) xs [] = foldr (insort_key snd) (rev xs) []" by (simp add: foldr_conv_fold)
  then show ?thesis by (simp add: sort_scored_def sort_scored_fold sort_key_def)
qed

lemma set_sort_scored [simp]: "set (sort_scored xs) = set xs"
  using arg_cong [OF rev_sort_scored [of xs], of set] by simp

lemma length_sort_scored [simp]: "length (sort_scored xs) = length xs"
  using arg_cong [OF rev_sort_scored [of xs], of length] by simp

lemma sort_scored_descending: "sorted_wrt (\<lambda>x y. snd x \<ge> snd y) (sort_scored xs)"
proof -
  have "sorted (map snd (rev (sort_scored xs)))" unfolding rev_sort_scored by (rule sorted_sort_key)
  then have "sorted_wrt (\<lambda>x y. snd x \<le> snd y) (rev (sort_scored xs))" by (simp add: sorted_map)
  then show ?thesis by (simp add: sorted_wrt_rev)
qed

lemma sort_scored_stable: "filter (\<lambda>x. snd x = k) (sort_scored xs) = filter (\<lambda>x. snd x = k) xs"
proof -
  have "filter (\<lambda>x. snd x = k) (rev (sort_scored xs)) = filter (\<lambda>x. snd x = k) (rev xs)"
    unfolding rev_sort_scored by (rule sort_key_stable)
  then show ?thesis by (simp add: rev_filter [symmetric])
qed

lemma order_set [simp]:
  "set (order_moves Z s b ml tt_move at c countermove) = set ml"
  "set (order_captures_see b ml) = set ml"
  by (simp_all add: order_moves_def order_captures_see_def image_image)

lemma order_length [simp]:
  "length (order_moves Z s b ml tt_move at c countermove) = length ml"
  "length (order_captures_see b ml) = length ml"
  by (simp_all add: order_moves_def order_captures_see_def)

lemma mset_sort_scored: "mset (sort_scored xs) = mset xs"
  using arg_cong [OF rev_sort_scored [of xs], of mset] by simp

text \<open>
  (C23) \<open>order_moves\<close> is a stable sort: it returns the same moves, in descending order of their scores,
  and moves of equal score keep the order in which the generator produced them.
\<close>

theorem order_moves_stable_sort:
  "let score = (\<lambda>m. move_score Z s b m tt_move at c countermove);
       ms = order_moves Z s b ml tt_move at c countermove
   in mset ms = mset ml \<and> sorted_wrt (\<lambda>m m'. score m \<ge> score m') ms \<and>
      filter (\<lambda>m. score m = k) ms = filter (\<lambda>m. score m = k) ml"
proof -
  define score where "score = (\<lambda>m. move_score Z s b m tt_move at c countermove)"
  let ?xs = "map (\<lambda>m. (m, score m)) ml" and ?ys = "sort_scored (map (\<lambda>m. (m, score m)) ml)"
  have o: "order_moves Z s b ml tt_move at c countermove = map fst ?ys"
    by (simp add: order_moves_def score_def)
  have sc: "snd x = score (fst x)" if "x \<in> set ?ys" for x using that by auto
  have "mset (map fst ?ys) = mset (map fst ?xs)" by (metis mset_map mset_sort_scored)
  moreover have "sorted_wrt (\<lambda>m m'. score m \<ge> score m') (map fst ?ys)"
    using sort_scored_descending [of ?xs] unfolding sorted_wrt_map
    by (rule sorted_wrt_mono_rel [rotated]) (use sc in simp)
  moreover have "filter (\<lambda>m. score m = k) (map fst ?ys) = map fst (filter (\<lambda>x. snd x = k) ?ys)"
    unfolding filter_map comp_def using sc by (intro arg_cong [where f = "map fst"] filter_cong) auto
  ultimately show ?thesis
    unfolding Let_def score_def [symmetric] o sort_scored_stable by (simp add: filter_map comp_def map_idI)
qed

end
