(* ===== verification/Quiescence.thy ===== *)
theory Quiescence
  imports Legality Evaluate MoveOrder
begin

text \<open>
  The quiescence search of \<open>search.c\<close>.  A search function takes the board and the statics and returns
  the score with both, since it plays and takes back moves on the caller's board.  The recursion
  \<open>quiescence(b, alpha, beta, ply + 1, qply + 1)\<close> is over the \<open>MAX_QPLY - qply\<close> levels left: \<open>q_body\<close> is
  the body of the function with the recursive call as a parameter.
\<close>

type_synonym result = "int \<times> Board \<times> SearchState"

section \<open>Definitions\<close>

definition heir_terminal :: "Board \<Rightarrow> int \<Rightarrow> int option" where
  "heir_terminal b at =
     (if game_mod b = MOD_HEIR then
        let us = side b in
        if pieces b us KING = BB_EMPTY \<and> (heir_promoted b us \<or> pieces b us PAWN = BB_EMPTY)
        then Some (- (MATE_SCORE - at)) else None
      else None)"

definition succession_terminal :: "Board \<Rightarrow> int \<Rightarrow> int option" where
  "succession_terminal b at =
     (if game_mod b = MOD_SUCCESSION then
        let us = side b; them = color_opposite us in
        if heir_promoted b them then Some (- (MATE_SCORE - at))
        else if bb_popcount (pieces b us QUEEN) < 2 \<and> \<not> heir_promoted b us then Some (- (MATE_SCORE - at))
        else if pieces b us PAWN = BB_EMPTY \<and> \<not> heir_promoted b us then Some (- (MATE_SCORE - at))
        else if bb_popcount (pieces b them QUEEN) < 2 \<and> \<not> heir_promoted b them then Some (MATE_SCORE - at)
        else if pieces b them PAWN = BB_EMPTY \<and> \<not> heir_promoted b them then Some (MATE_SCORE - at)
        else None
      else None)"

text \<open>One move: make it, search the position with the window of the side to move there, take it back.\<close>

definition q_try :: "ZobState \<Rightarrow> (Board \<Rightarrow> int \<Rightarrow> int \<Rightarrow> int \<Rightarrow> SearchState \<Rightarrow> result) \<Rightarrow>
    Board \<Rightarrow> Move \<Rightarrow> int \<Rightarrow> int \<Rightarrow> int \<Rightarrow> SearchState \<Rightarrow> result" where
  "q_try Z rec b m alpha beta at s =
     (let mover = side b; b = board_make_move Z b m in
      case (if side b = mover then rec b alpha beta (at + 1) s
            else case rec b (- beta) (- alpha) (at + 1) s of (v, b, s) \<Rightarrow> (- v, b, s))
      of (score, b, s) \<Rightarrow> (score, board_unmake_move b, s))"

text \<open>The loop over the moves; \<open>skip\<close> is the pruning that the capture search does before a move.\<close>

primrec q_loop :: "ZobState \<Rightarrow> (Board \<Rightarrow> int \<Rightarrow> int \<Rightarrow> int \<Rightarrow> SearchState \<Rightarrow> result) \<Rightarrow>
    (Board \<Rightarrow> Move \<Rightarrow> int \<Rightarrow> bool) \<Rightarrow> int \<Rightarrow> int \<Rightarrow> Move list \<Rightarrow> int \<Rightarrow> int \<Rightarrow> Board \<Rightarrow> SearchState \<Rightarrow> result" where
  "q_loop Z rec skip beta at [] alpha best b s = (best, b, s)"
| "q_loop Z rec skip beta at (m # ms) alpha best b s =
     (if skip b m alpha then q_loop Z rec skip beta at ms alpha best b s
      else case q_try Z rec b m alpha beta at s of (score, b, s) \<Rightarrow>
        if s_stopped s then (0, b, s)
        else let best = (if score > best then score else best);
            alpha = (if best > alpha then best else alpha)
          in if alpha \<ge> beta then (best, b, s) else q_loop Z rec skip beta at ms alpha best b s)"

definition q_evasions :: "ZobState \<Rightarrow> (Board \<Rightarrow> int \<Rightarrow> int \<Rightarrow> int \<Rightarrow> SearchState \<Rightarrow> result) \<Rightarrow> int \<Rightarrow>
    Board \<Rightarrow> int \<Rightarrow> int \<Rightarrow> int \<Rightarrow> SearchState \<Rightarrow> result" where
  "q_evasions Z rec qply b alpha beta at s =
     (let search = (\<lambda>ml. q_loop Z rec (\<lambda>_ _ _. False) beta at
            (order_moves Z s b ml MOVE_NONE (min at (MAX_PLY - 1)) (side b) MOVE_NONE)
            alpha (- INFINITY_SCORE) b s) in
      if qply \<ge> 4 then
        if length (generate_captures Z b) = 0 then
          if length (generate_moves Z b) = 0 then (- (MATE_SCORE - at), b, s) else (evaluate b, b, s)
        else search (generate_captures Z b)
      else if length (generate_moves Z b) = 0 then (- (MATE_SCORE - at), b, s)
      else search (generate_moves Z b))"

definition q_skip :: "int \<Rightarrow> int \<Rightarrow> Board \<Rightarrow> Move \<Rightarrow> int \<Rightarrow> bool" where
  "q_skip qply stand_pat b m alpha =
     (let ff_tactical_capture = (search_ff_self_capture_score b m (side b) \<ge> 140);
          see = see_value b m;
          cap_val = see_pv (game_mod b) (MOVE_CAPTURED m)
      in (if game_mod b = MOD_MERCENARY then (if qply < 4 then see < - 50 else see \<le> 0)
          else if ff_tactical_capture then see < - 220
          else see < 0) \<or>
         stand_pat + cap_val + 200 < alpha)"

definition q_captures :: "ZobState \<Rightarrow> (Board \<Rightarrow> int \<Rightarrow> int \<Rightarrow> int \<Rightarrow> SearchState \<Rightarrow> result) \<Rightarrow> int \<Rightarrow>
    Board \<Rightarrow> int \<Rightarrow> int \<Rightarrow> int \<Rightarrow> SearchState \<Rightarrow> result" where
  "q_captures Z rec qply b alpha beta at s =
     (let stand_pat = evaluate b in
      if stand_pat \<ge> beta then (stand_pat, b, s)
      else let alpha = (if stand_pat > alpha then stand_pat else alpha) in
        q_loop Z rec (q_skip qply stand_pat) beta at (order_captures_see b (generate_captures Z b))
          alpha stand_pat b s)"

definition q_body :: "ZobState \<Rightarrow> (nat \<Rightarrow> int) \<Rightarrow> (Board \<Rightarrow> int \<Rightarrow> int \<Rightarrow> int \<Rightarrow> SearchState \<Rightarrow> result) \<Rightarrow> int \<Rightarrow>
    Board \<Rightarrow> int \<Rightarrow> int \<Rightarrow> int \<Rightarrow> SearchState \<Rightarrow> result" where
  "q_body Z now rec qply b alpha beta at s =
     (let s = check_time now (s \<lparr> s_nodes := s_nodes s + 1 \<rparr>) in
      if s_stopped s then (0, b, s)
      else case stq_terminal_score b at of
        Some v \<Rightarrow> (v, b, s)
      | None \<Rightarrow>
          if at \<ge> MAX_PLY + MAX_QPLY then (evaluate b, b, s)
          else if qply \<ge> MAX_QPLY then (evaluate b, b, s)
          else case heir_terminal b at of
            Some v \<Rightarrow> (v, b, s)
          | None \<Rightarrow> case succession_terminal b at of
              Some v \<Rightarrow> (v, b, s)
            | None \<Rightarrow>
                if board_in_check b (side b) then q_evasions Z rec qply b alpha beta at s
                else q_captures Z rec qply b alpha beta at s)"

primrec q_levels :: "nat \<Rightarrow> ZobState \<Rightarrow> (nat \<Rightarrow> int) \<Rightarrow> Board \<Rightarrow> int \<Rightarrow> int \<Rightarrow> int \<Rightarrow> SearchState \<Rightarrow> result" where
  "q_levels 0 Z now = q_body Z now (\<lambda>b _ _ _ s. (0, b, s)) MAX_QPLY"
| "q_levels (Suc n) Z now = q_body Z now (q_levels n Z now) (MAX_QPLY - int (Suc n))"

definition quiescence :: "ZobState \<Rightarrow> (nat \<Rightarrow> int) \<Rightarrow> Board \<Rightarrow> int \<Rightarrow> int \<Rightarrow> int \<Rightarrow> int \<Rightarrow> SearchState \<Rightarrow> result" where
  "quiescence Z now b alpha beta at qply s = q_levels (nat (MAX_QPLY - qply)) Z now b alpha beta at s"


section \<open>The recursion of the source\<close>

lemma q_body_leaf:
  "MAX_QPLY \<le> qply \<Longrightarrow> MAX_QPLY \<le> qply' \<Longrightarrow> q_body Z now rec qply = q_body Z now rec' qply'"
  by (intro ext) (simp add: q_body_def Let_def split: option.split)

lemma quiescence_unfold:
  "quiescence Z now b alpha beta at qply s =
     q_body Z now (\<lambda>b alpha beta at s. quiescence Z now b alpha beta at (qply + 1) s) qply b alpha beta at s"
proof (cases "qply < MAX_QPLY")
  case True
  then have "nat (MAX_QPLY - qply) = Suc (nat (MAX_QPLY - (qply + 1)))" by simp
  moreover have "MAX_QPLY - int (Suc (nat (MAX_QPLY - (qply + 1)))) = qply" using True by simp
  ultimately show ?thesis by (simp add: quiescence_def [abs_def])
next
  case False
  then have "quiescence Z now b alpha beta at qply s = q_body Z now (\<lambda>b _ _ _ s. (0, b, s)) MAX_QPLY b alpha beta at s"
    by (simp add: quiescence_def)
  also have "\<dots> = q_body Z now (\<lambda>b alpha beta at s. quiescence Z now b alpha beta at (qply + 1) s) qply b alpha beta at s"
    using False by (intro q_body_leaf [THEN fun_cong, THEN fun_cong, THEN fun_cong, THEN fun_cong, THEN fun_cong]) auto
  finally show ?thesis .
qed

end
