(* ===== verification/AlphaBeta.thy ===== *)
theory AlphaBeta
  imports Quiescence
begin

text \<open>
  The alpha-beta search of \<open>search.c\<close>, \<open>alpha_beta\<close>.  The function is cut at its own section marks: the
  tests that end a node at once, the table, the static evaluation, razoring, reverse futility, the
  null move, internal iterative deepening, and the loop over the moves with pruning, extensions,
  reductions and the principal variation search.  A stage that may end the node returns \<open>Inl\<close> the
  result of the function, and otherwise \<open>Inr\<close> what the next stage works on.

  \<open>ab_body\<close> is the body of the function with its recursive calls as parameters: \<open>rec\<close> for the
  calls at \<open>ply + 1\<close>, and \<open>iid\<close> for the call of internal iterative deepening at the same \<open>ply\<close> and
  \<open>depth - 2\<close>.  The recursion is over the \<open>MAX_PLY - ply\<close> plies left and, within a ply, the depth.
\<close>

type_synonym searcher = "Board \<Rightarrow> int \<Rightarrow> int \<Rightarrow> int \<Rightarrow> int \<Rightarrow> bool \<Rightarrow> bool \<Rightarrow> SearchState \<Rightarrow> result"

section \<open>Ends of a node\<close>

text \<open>The loop over \<open>history[ply - 2], history[ply - 4], ...\<close>.\<close>

fun ab_repeats :: "Board \<Rightarrow> nat \<Rightarrow> bool" where
  "ab_repeats b (Suc (Suc i)) = (u_hash (history b i) = hash b \<or> ab_repeats b i)"
| "ab_repeats b _ = False"

text \<open>What a node knows: its arguments (with the window after mate distance pruning) and its evaluation.\<close>

record Node =
  n_depth :: int
  n_beta :: int
  n_ply :: int
  n_pv :: bool
  n_check :: bool
  n_eval :: int
  n_improving :: bool
  n_mod :: GameMod
  n_volatile :: bool
  n_phase1 :: bool

definition tt_depth_margin :: "SearchState \<Rightarrow> int" where
  "tt_depth_margin s =
     (if s_skill_level s \<ge> 4 then 0 else if s_skill_level s \<ge> 3 then 2 else if s_skill_level s \<ge> 2 then 3 else 5)"

definition ab_tt_cutoff :: "SearchState \<Rightarrow> int \<Rightarrow> int \<Rightarrow> int \<Rightarrow> bool \<Rightarrow> TTEntry option \<Rightarrow> int option" where
  "ab_tt_cutoff s depth alpha beta is_pv tte =
     (case tte of None \<Rightarrow> None
      | Some e \<Rightarrow>
          if \<not> is_pv \<and> tt_depth e \<ge> depth + tt_depth_margin s then
            if tt_flag e = TT_EXACT then Some (tt_score e)
            else if tt_flag e = TT_LOWER \<and> tt_score e \<ge> beta then Some (tt_score e)
            else if tt_flag e = TT_UPPER \<and> tt_score e \<le> alpha then Some (tt_score e)
            else None
          else None)"

text \<open>The static evaluation goes to the stack; a table score may replace it in the node.\<close>

definition ab_static_eval :: "Board \<Rightarrow> bool \<Rightarrow> TTEntry option \<Rightarrow> int \<Rightarrow> SearchState \<Rightarrow> int \<times> SearchState" where
  "ab_static_eval b in_check tte at s =
     (let static_eval = (if in_check then - INFINITY_SCORE else evaluate b);
          s = s \<lparr> s_eval_stack := (s_eval_stack s)(at := static_eval) \<rparr>
      in case tte of
           None \<Rightarrow> (static_eval, s)
         | Some e \<Rightarrow>
             (if \<not> in_check \<and> (tt_flag e = TT_EXACT \<or> tt_flag e = TT_LOWER \<and> tt_score e > static_eval \<or>
                  tt_flag e = TT_UPPER \<and> tt_score e < static_eval) then tt_score e else static_eval, s))"


section \<open>Pruning before the moves\<close>

definition prunable :: "Node \<Rightarrow> bool" where
  "prunable nd \<longleftrightarrow> n_mod nd \<noteq> MOD_MERCENARY \<and> \<not> n_volatile nd \<and> \<not> n_phase1 nd \<and> \<not> n_pv nd \<and> \<not> n_check nd"

definition succ_opening :: "Node \<Rightarrow> Board \<Rightarrow> bool" where
  "succ_opening nd b \<longleftrightarrow> n_mod nd = MOD_SUCCESSION \<and> fullmove b \<le> 16"

definition ab_razor :: "ZobState \<Rightarrow> (nat \<Rightarrow> int) \<Rightarrow> Node \<Rightarrow> int \<Rightarrow> Board \<Rightarrow> SearchState \<Rightarrow> result + Board \<times> SearchState" where
  "ab_razor Z now nd alpha b s =
     (if prunable nd \<and> n_depth nd \<le> 2 \<and> \<not> is_mate alpha \<and> \<not> succ_opening nd b then
        let razor_margin = (if n_depth nd = 1 then 300 else 500) in
        if n_eval nd + razor_margin < alpha then
          case quiescence Z now b alpha (n_beta nd) (n_ply nd) 0 s of (razor, b, s) \<Rightarrow>
            if razor < alpha then Inl (razor, b, s) else Inr (b, s)
        else Inr (b, s)
      else Inr (b, s))"

definition ab_reverse_futility :: "Node \<Rightarrow> int \<Rightarrow> Board \<Rightarrow> int option" where
  "ab_reverse_futility nd alpha b =
     (if prunable nd \<and> n_depth nd \<le> 6 \<and> \<not> succ_opening nd b \<and> \<not> is_mate alpha \<and> \<not> is_mate (n_beta nd) then
        let rfp_margin = n_depth nd * (if n_improving nd then 70 else 100) in
        if n_eval nd - rfp_margin \<ge> n_beta nd then Some (n_eval nd) else None
      else None)"

definition null_make :: "ZobState \<Rightarrow> Board \<Rightarrow> Board" where
  "null_make Z b =
     (let sv_ep = ep_square b;
          b = b \<lparr> side := color_opposite (side b) \<rparr>;
          b = b \<lparr> hash := hash b XOR zob_side Z \<rparr>;
          b = (if sv_ep \<noteq> SQ_NONE then b \<lparr> hash := hash b XOR zob_ep Z ! nat sv_ep \<rparr> else b)
      in b \<lparr> ep_square := SQ_NONE \<rparr>)"

text \<open>The three fields saved before the null move are written back.\<close>

definition null_unmake :: "Board \<Rightarrow> Board \<Rightarrow> Board" where
  "null_unmake saved b = b \<lparr> side := side saved, ep_square := ep_square saved, hash := hash saved \<rparr>"

definition ab_null :: "ZobState \<Rightarrow> searcher \<Rightarrow> Node \<Rightarrow> bool \<Rightarrow> Board \<Rightarrow> SearchState \<Rightarrow> result + Board \<times> SearchState" where
  "ab_null Z rec nd do_null b s =
     (let us = side b; beta = n_beta nd; depth = n_depth nd;
          has_pieces = (pieces b us KNIGHT \<noteq> 0 \<or> pieces b us BISHOP \<noteq> 0 \<or> pieces b us ROOK \<noteq> 0 \<or> pieces b us QUEEN \<noteq> 0) in
      if prunable nd \<and> do_null \<and> depth \<ge> 3 \<and> n_ply nd > 0 \<and> \<not> succ_opening nd b \<and> n_eval nd \<ge> beta \<and> has_pieces then
        let R = 3 + cdiv depth 4 in
        case rec (null_make Z b) (depth - R) (- beta) (- beta + 1) (n_ply nd + 1) False False s of (v, nb, s) \<Rightarrow>
          let null_s = - v; b = null_unmake b nb in
          if s_stopped s then Inl (0, b, s)
          else if null_s \<ge> beta \<and> \<not> is_mate null_s then Inl (null_s, b, s)
          else Inr (b, s)
      else Inr (b, s))"

definition prev_move :: "Board \<Rightarrow> Move" where
  "prev_move b = (if ply b > 0 then u_move (history b (ply b - 1)) else MOVE_NONE)"

definition ab_countermove :: "Board \<Rightarrow> SearchState \<Rightarrow> Move" where
  "ab_countermove b s =
     (let prev = prev_move b in
      if prev \<noteq> MOVE_NONE then s_countermoves s (color_opposite (side b)) (MOVE_PIECE prev) (MOVE_TO prev)
      else MOVE_NONE)"

definition ab_iid :: "searcher \<Rightarrow> Node \<Rightarrow> int \<Rightarrow> Move \<Rightarrow> Board \<Rightarrow> SearchState \<Rightarrow> Move \<times> Board \<times> SearchState" where
  "ab_iid iid nd alpha tt_move b s =
     (if n_pv nd \<and> n_depth nd \<ge> 4 \<and> tt_move = MOVE_NONE \<and> \<not> n_check nd then
        let h = hash b in
        case iid b (n_depth nd - 2) alpha (n_beta nd) (n_ply nd) False True s of (_, b, s) \<Rightarrow>
          (case tt_probe (s_tt s) h of None \<Rightarrow> tt_move | Some e \<Rightarrow> tt_best_move e, b, s)
      else (tt_move, b, s))"

definition ab_futility :: "Node \<Rightarrow> int \<Rightarrow> bool" where
  "ab_futility nd alpha =
     (if prunable nd \<and> n_depth nd \<le> 3 \<and> \<not> is_mate alpha then
        let fut_margin = n_depth nd * (if n_improving nd then 120 else 180) in n_eval nd + fut_margin \<le> alpha
      else False)"


section \<open>One move\<close>

text \<open>What the loop computes before it makes the move; \<open>ff_prep_score\<close> is computed and never used.\<close>

record MoveInfo =
  i_cap :: bool
  i_promo :: bool
  i_critical :: bool
  i_kb_pawn :: int
  i_see :: int
  i_tactical :: bool
  i_ff_self :: int
  i_ff_dev :: int
  i_ff_pawn :: int
  i_ff_king :: int
  i_ff_guard :: int
  i_ff_harass :: int
  i_recapture :: bool

definition ab_info :: "ZobState \<Rightarrow> Node \<Rightarrow> Board \<Rightarrow> Move \<Rightarrow> MoveInfo" where
  "ab_info Z nd b m =
     (let is_cap = (MOVE_IS_CAPTURE m \<or> MOVE_IS_EP m); is_promo = MOVE_IS_PROMO m; mover = side b;
          is_heir = (n_mod nd = MOD_HEIR);
          see_val = (if is_cap then see_value b m else 0);
          ff = (game_mod b = MOD_FRIENDLY_FIRE);
          ff_quiet = (\<lambda>f. if ff \<and> \<not> is_cap \<and> \<not> is_promo then f b m mover else 0);
          prev = prev_move b
      in \<lparr> i_cap = is_cap, i_promo = is_promo,
           i_critical = (is_heir \<and> search_heir_critical_move b m),
           i_kb_pawn = (if n_phase1 nd \<and> MOVE_PIECE m = PAWN then search_kb_phase1_pawn_race_score b m mover else 0),
           i_see = see_val,
           i_tactical = (is_heir \<and> search_heir_tactical_capture b m see_val),
           i_ff_self = (if ff \<and> is_cap then search_ff_self_capture_score b m mover else 0),
           i_ff_dev = ff_quiet search_ff_minor_development_score,
           i_ff_pawn = ff_quiet search_ff_quiet_pawn_score,
           i_ff_king = ff_quiet (search_ff_king_safety_score Z),
           i_ff_guard = ff_quiet search_ff_king_zone_guard_score,
           i_ff_harass = ff_quiet search_ff_flank_pawn_harass_penalty,
           i_recapture = (is_cap \<and> prev \<noteq> MOVE_NONE \<and> MOVE_IS_CAPTURE prev \<and> MOVE_TO prev = MOVE_TO m) \<rparr>)"

definition LMP_LIMIT :: "int list" where
  "LMP_LIMIT = [0, 5, 10, 18, 28, 40]"

definition ff_keeps :: "MoveInfo \<Rightarrow> bool" where
  "ff_keeps i \<longleftrightarrow> i_ff_dev i \<ge> 60 \<or> i_ff_king i \<ge> 70 \<or> i_ff_guard i \<ge> 90 \<or> i_ff_pawn i \<ge> 120"

definition ab_prunes :: "Node \<Rightarrow> bool \<Rightarrow> MoveInfo \<Rightarrow> int \<Rightarrow> bool \<Rightarrow> bool" where
  "ab_prunes nd do_futility i moves_done gives_check =
     (let depth = n_depth nd;
          late_quiet = (\<not> n_phase1 nd \<and> n_mod nd \<noteq> MOD_MERCENARY \<and> n_mod nd \<noteq> MOD_SUCCESSION \<and> \<not> n_volatile nd \<and>
            \<not> i_cap i \<and> \<not> i_promo i \<and> \<not> gives_check)
      in \<not> n_pv nd \<and> \<not> n_check nd \<and> moves_done > 0 \<and>
         (late_quiet \<and> depth \<le> 5 \<and> moves_done \<ge> LMP_LIMIT ! nat depth \<and> \<not> ff_keeps i \<or>
          late_quiet \<and> do_futility \<and> \<not> ff_keeps i \<or>
          i_cap i \<and> depth \<le> 3 \<and> \<not> gives_check \<and>
            (if i_ff_self i \<ge> 140 then i_see i < - 220 else \<not> i_critical i \<and> i_see i < - 80 * depth)))"

text \<open>The board is the one after the move.\<close>

definition ab_extension :: "Node \<Rightarrow> MoveInfo \<Rightarrow> Move \<Rightarrow> Board \<Rightarrow> bool \<Rightarrow> int" where
  "ab_extension nd i m b gives_check =
     (let depth = n_depth nd; pawn = (MOVE_PIECE m = PAWN);
          merc_endgame = (n_mod nd = MOD_MERCENARY \<and> bb_popcount (all_bb b) \<le> 16);
          ext = (if gives_check then 1 else 0);
          ext = (if n_check nd \<and> depth \<ge> 2 then max ext 1 else ext);
          ext = (if n_phase1 nd \<and> depth \<ge> 3 \<and> (i_cap i \<or> i_promo i) then max ext 1 else ext);
          ext = (if n_phase1 nd \<and> depth \<ge> 4 \<and> i_cap i \<and> pawn \<and> MOVE_CAPTURED m = PAWN then max ext 2 else ext);
          ext = (if n_phase1 nd \<and> depth \<ge> 4 \<and> pawn \<and> i_kb_pawn i \<ge> 320 then max ext 2
                 else if n_phase1 nd \<and> depth \<ge> 3 \<and> pawn \<and> \<not> i_cap i \<and> \<not> i_promo i \<and> i_kb_pawn i \<ge> 220 then max ext 1
                 else ext);
          ext = (if ext = 0 \<and> i_ff_self i \<ge> 140 \<and> depth \<ge> 4 then 1 else ext);
          ext = (if ext = 0 \<and> i_recapture i \<and> depth \<ge> 4 then 1 else ext);
          ext = (if ext = 0 \<and> merc_endgame \<and> i_cap i \<and> depth \<ge> 4 then 1 else ext);
          ext = (if ext = 0 \<and> i_tactical i \<and> depth \<ge> 4 then 1 else ext)
      in if ext = 0 \<and> n_mod nd = MOD_HEIR \<and> depth \<ge> 4 \<and> i_critical i then 1 else ext)"


section \<open>Reductions\<close>

text \<open>\<open>if (c && reduction > 0) reduction--\<close>.\<close>

definition dec_if :: "bool \<Rightarrow> int \<Rightarrow> int" where
  "dec_if c r = (if c \<and> r > 0 then r - 1 else r)"

definition truce_harasses_bishop :: "Board \<Rightarrow> Color \<Rightarrow> Square \<Rightarrow> bool" where
  "truce_harasses_bishop b mover to_sq =
     (let file = SQ_COL to_sq; attack_row = SQ_ROW to_sq + forward_step mover;
          bishops = pieces b (color_opposite mover) BISHOP
      in attack_row \<ge> 0 \<and> attack_row < 8 \<and>
         (file > 0 \<and> BB_HAS bishops (SQ attack_row (file - 1)) \<or> file < 7 \<and> BB_HAS bishops (SQ attack_row (file + 1))))"

definition ab_reduce_truce :: "Board \<Rightarrow> Color \<Rightarrow> Move \<Rightarrow> int \<Rightarrow> int" where
  "ab_reduce_truce b mover m r =
     (let piece = MOVE_PIECE m; from_rank = rel_row mover (MOVE_FROM m); to_rank = rel_row mover (MOVE_TO m) in
      if game_mod b = MOD_TRUCE \<and> truce_active b \<and> r > 0 then
        if piece = KNIGHT \<or> piece = BISHOP then
          let r = (if from_rank \<le> 1 then r - 1 else r)
          in dec_if (piece = KNIGHT \<and> search_truce_undeveloped_minor_count b mover \<ge> 2) r
        else if piece = PAWN \<and> from_rank = 1 then
          dec_if (to_rank \<ge> 3 \<or> truce_harasses_bishop b mover (MOVE_TO m)) (r - 1)
        else r
      else r)"

definition ab_reduce_ff :: "Board \<Rightarrow> MoveInfo \<Rightarrow> int \<Rightarrow> int" where
  "ab_reduce_ff b i r =
     (if game_mod b = MOD_FRIENDLY_FIRE \<and> r > 0 then
        let r = (if i_ff_dev i \<ge> 50 \<or> i_ff_king i \<ge> 80 then r - 1 else r);
            r = dec_if (i_ff_guard i \<ge> 70) r;
            r = dec_if (i_ff_pawn i \<ge> 120) r;
            r = dec_if (i_ff_dev i \<ge> 80 \<or> i_ff_king i \<ge> 120) r;
            r = dec_if (i_ff_guard i \<ge> 120) r
        in if i_ff_harass i \<ge> 70 then r + 1 else r
      else r)"

definition ab_reduce_kb :: "Node \<Rightarrow> Board \<Rightarrow> Color \<Rightarrow> MoveInfo \<Rightarrow> Move \<Rightarrow> int \<Rightarrow> int" where
  "ab_reduce_kb nd b mover i m r =
     (let kb = (game_mod b = MOD_KINGS_BATTLE);
          r = (if kb \<and> \<not> kb_unlocked b \<and> MOVE_PIECE m = KING \<and> r > 0 then 0 else r);
          r = (if n_phase1 nd \<and> MOVE_PIECE m = PAWN then
                 let from_rank = search_kb_phase1_forward_rank mover (MOVE_FROM m);
                     to_rank = search_kb_phase1_forward_rank mover (MOVE_TO m);
                     r = dec_if (i_kb_pawn i \<ge> 120) r;
                     r = dec_if (i_kb_pawn i \<ge> 220) r
                 in if \<not> i_cap i \<and> \<not> i_promo i \<and> from_rank = 1 \<and> to_rank \<le> 2 \<and>
                      search_kb_phase1_any_pawn_capture_available b mover then r + 1 else r
               else r)
      in if kb \<and> kb_unlocked b \<and> r > 0 \<and>
           (search_kb_unlocked_queen_pressure_score b m mover \<ge> 90 \<or> search_kb_unlocked_king_safety_score b m mover \<ge> 60 \<or>
            search_kb_unlocked_development_score b m mover \<ge> 50 \<or> search_kb_unlocked_king_shelter_score b m mover \<ge> 80)
         then r - 1 else r)"

definition ab_reduce_succ :: "Node \<Rightarrow> Board \<Rightarrow> Move \<Rightarrow> int \<Rightarrow> int" where
  "ab_reduce_succ nd b m r =
     (if n_mod nd = MOD_SUCCESSION \<and> r > 0 then
        dec_if (MOVE_PIECE m = QUEEN) (dec_if (fullmove b \<le> 16) (r - 1))
      else r)"

definition ab_reduction :: "Node \<Rightarrow> Board \<Rightarrow> Color \<Rightarrow> MoveInfo \<Rightarrow> Move \<Rightarrow> int \<Rightarrow> int \<Rightarrow> int \<Rightarrow> int" where
  "ab_reduction nd b mover i m moves_done ext new_depth =
     (let is_heir = (n_mod nd = MOD_HEIR);
          merc_quiet = (n_mod nd = MOD_MERCENARY \<and> \<not> i_cap i \<and> \<not> i_promo i);
          heir_quiet = (is_heir \<and> n_volatile nd \<and> i_critical i \<and> \<not> i_cap i \<and> \<not> i_promo i) in
      if \<not> merc_quiet \<and> \<not> heir_quiet \<and> moves_done \<ge> 3 \<and> n_depth nd \<ge> 3 \<and> ext = 0 \<and> \<not> i_cap i \<and> \<not> i_promo i then
        let r = 1;
            r = (if moves_done \<ge> 6 then r + 1 else r);
            r = (if moves_done \<ge> 12 then r + 1 else r);
            r = (if \<not> n_improving nd then r + 1 else r);
            r = dec_if (n_pv nd) r;
            r = dec_if (is_heir \<and> i_critical i) r;
            r = ab_reduce_truce b mover m r;
            r = ab_reduce_ff b i r;
            r = ab_reduce_kb nd b mover i m r;
            r = ab_reduce_succ nd b m r;
            r = min r (new_depth - 1)
        in if r < 0 then 0 else r
      else 0)"


section \<open>Principal variation search\<close>

text \<open>A call at the next ply, with the window of the side that moves there.\<close>

definition ab_call :: "searcher \<Rightarrow> Node \<Rightarrow> bool \<Rightarrow> int \<Rightarrow> int \<Rightarrow> int \<Rightarrow> bool \<Rightarrow> Board \<Rightarrow> SearchState \<Rightarrow> result" where
  "ab_call rec nd same_turn depth lo hi is_pv b s =
     (if same_turn then rec b depth lo hi (n_ply nd + 1) True is_pv s
      else case rec b depth (- hi) (- lo) (n_ply nd + 1) True is_pv s of (v, b, s) \<Rightarrow> (- v, b, s))"

definition ab_pvs :: "searcher \<Rightarrow> Node \<Rightarrow> bool \<Rightarrow> bool \<Rightarrow> int \<Rightarrow> int \<Rightarrow> int \<Rightarrow> Board \<Rightarrow> SearchState \<Rightarrow> result" where
  "ab_pvs rec nd same_turn full_window new_depth reduction alpha b s =
     (let beta = n_beta nd in
      if full_window then ab_call rec nd same_turn new_depth alpha beta (n_pv nd) b s
      else case ab_call rec nd same_turn (new_depth - reduction) alpha (alpha + 1) False b s of (score, b, s) \<Rightarrow>
        case (if score > alpha \<and> reduction > 0 then ab_call rec nd same_turn new_depth alpha (alpha + 1) False b s
              else (score, b, s)) of (score, b, s) \<Rightarrow>
          if score > alpha \<and> score < beta then ab_call rec nd same_turn new_depth alpha beta True b s
          else (score, b, s))"

text \<open>Making, searching and taking back one move; \<open>None\<close> when it is pruned.\<close>

definition ab_try :: "ZobState \<Rightarrow> searcher \<Rightarrow> Node \<Rightarrow> bool \<Rightarrow> Move \<Rightarrow> int \<Rightarrow> int \<Rightarrow> Board \<Rightarrow> SearchState \<Rightarrow>
    int option \<times> Board \<times> SearchState" where
  "ab_try Z rec nd do_futility m alpha moves_done b s =
     (let mover = side b; i = ab_info Z nd b m;
          b = board_make_move Z b m;
          same_turn = (side b = mover);
          gives_check = board_in_check b (if same_turn then color_opposite mover else side b) in
      if ab_prunes nd do_futility i moves_done gives_check then (None, board_unmake_move b, s)
      else let ext = ab_extension nd i m b gives_check;
          new_depth = n_depth nd - 1 + ext;
          full_window = (moves_done = 0 \<or> game_mod b = MOD_KINGS_BATTLE \<and> n_pv nd \<and> n_depth nd \<le> 4);
          reduction = ab_reduction nd b mover i m moves_done ext new_depth in
        case ab_pvs rec nd same_turn full_window new_depth reduction alpha b s of (score, b, s) \<Rightarrow>
          (Some score, board_unmake_move b, s))"

definition ab_record_cutoff :: "Node \<Rightarrow> Move \<Rightarrow> Move list \<Rightarrow> Board \<Rightarrow> SearchState \<Rightarrow> SearchState" where
  "ab_record_cutoff nd m quiets b s =
     (let s = record_killer m (n_ply nd) s;
          s = record_history (side b) m (n_depth nd) s;
          s = penalize_quiets (side b) (butlast quiets) (n_depth nd) s;
          prev = prev_move b
      in if prev \<noteq> MOVE_NONE then
           let ps = color_opposite (side b) in
           s \<lparr> s_countermoves := (s_countermoves s)(ps := (s_countermoves s ps)(MOVE_PIECE prev :=
             (s_countermoves s ps (MOVE_PIECE prev))(MOVE_TO prev := m))) \<rparr>
         else s)"

text \<open>
  The loop over the moves; \<open>Inl\<close> when the search was stopped, else the best score and move.
\<close>

primrec ab_loop :: "ZobState \<Rightarrow> searcher \<Rightarrow> Node \<Rightarrow> bool \<Rightarrow> Move list \<Rightarrow> int \<Rightarrow> int \<Rightarrow> Move \<Rightarrow> int \<Rightarrow> Move list \<Rightarrow>
    Board \<Rightarrow> SearchState \<Rightarrow> result + int \<times> Move \<times> Board \<times> SearchState" where
  "ab_loop Z rec nd fut [] alpha best_score best_move moves_done quiets b s = Inr (best_score, best_move, b, s)"
| "ab_loop Z rec nd fut (m # ms) alpha best_score best_move moves_done quiets b s =
     (case ab_try Z rec nd fut m alpha moves_done b s of
        (None, b, s) \<Rightarrow> ab_loop Z rec nd fut ms alpha best_score best_move moves_done quiets b s
      | (Some score, b, s) \<Rightarrow>
          if s_stopped s then Inl (0, b, s)
          else let is_quiet = quiet m;
              quiets = (if is_quiet \<and> length quiets < MAX_MOVES then quiets @ [m] else quiets);
              best_move = (if score > best_score then m else best_move);
              best_score = (if score > best_score then score else best_score);
              alpha = (if score > alpha then score else alpha)
            in if alpha \<ge> n_beta nd then
                 Inr (best_score, best_move, b, if is_quiet then ab_record_cutoff nd m quiets b s else s)
               else ab_loop Z rec nd fut ms alpha best_score best_move (moves_done + 1) quiets b s)"


section \<open>The function\<close>

definition ab_flag :: "int \<Rightarrow> int \<Rightarrow> int \<Rightarrow> TTFlag" where
  "ab_flag best_score orig_alpha beta =
     (if best_score \<le> orig_alpha then TT_UPPER else if best_score \<ge> beta then TT_LOWER else TT_EXACT)"

text \<open>From move generation to the store into the table.\<close>

definition ab_moves :: "ZobState \<Rightarrow> searcher \<Rightarrow> searcher \<Rightarrow> Node \<Rightarrow> int \<Rightarrow> Move \<Rightarrow> u64 \<Rightarrow> Board \<Rightarrow> SearchState \<Rightarrow> result" where
  "ab_moves Z rec iid nd alpha tt_move h b s =
     (let ml = generate_moves Z b in
      if length ml = 0 then
        if n_check nd then (- (MATE_SCORE - n_ply nd), b, s)
        else if game_mod b = MOD_HEIR \<and> pieces b (side b) KING = BB_EMPTY then (- (MATE_SCORE - n_ply nd), b, s)
        else (0, b, s)
      else let countermove = ab_countermove b s in
        case ab_iid iid nd alpha tt_move b s of (tt_move, b, s) \<Rightarrow>
          let ml = order_moves Z s b ml tt_move (n_ply nd) (side b) countermove in
          case ab_loop Z rec nd (ab_futility nd alpha) ml alpha (- INFINITY_SCORE) MOVE_NONE 0 [] b s of
            Inl r \<Rightarrow> r
          | Inr (best_score, best_move, b, s) \<Rightarrow>
              (best_score, b, s \<lparr> s_tt := tt_store (s_tt s) h (n_depth nd) best_score
                 (ab_flag best_score alpha (n_beta nd)) best_move \<rparr>))"

text \<open>From the static evaluation to the null move.\<close>

definition ab_node :: "ZobState \<Rightarrow> (nat \<Rightarrow> int) \<Rightarrow> searcher \<Rightarrow> searcher \<Rightarrow> TTEntry option \<Rightarrow>
    Board \<Rightarrow> int \<Rightarrow> int \<Rightarrow> int \<Rightarrow> int \<Rightarrow> bool \<Rightarrow> bool \<Rightarrow> SearchState \<Rightarrow> result" where
  "ab_node Z now rec iid tte b depth alpha beta at do_null is_pv s =
     (let in_check = board_in_check b (side b);
          h = hash b;
          tt_move = (case tte of None \<Rightarrow> MOVE_NONE | Some e \<Rightarrow> tt_best_move e) in
      case ab_static_eval b in_check tte at s of (static_eval, s) \<Rightarrow>
        let improving = (\<not> in_check \<and> at \<ge> 2 \<and> s_eval_stack s at > s_eval_stack s (at - 2));
            nd = \<lparr> n_depth = depth, n_beta = beta, n_ply = at, n_pv = is_pv, n_check = in_check,
                   n_eval = static_eval, n_improving = improving, n_mod = game_mod b,
                   n_volatile = (game_mod b = MOD_HEIR \<and> search_heir_position_volatile b),
                   n_phase1 = (game_mod b = MOD_KINGS_BATTLE \<and> \<not> kb_unlocked b) \<rparr> in
        case ab_razor Z now nd alpha b s of
          Inl r \<Rightarrow> r
        | Inr (b, s) \<Rightarrow>
            case ab_reverse_futility nd alpha b of
              Some v \<Rightarrow> (v, b, s)
            | None \<Rightarrow>
                case ab_null Z rec nd do_null b s of
                  Inl r \<Rightarrow> r
                | Inr (b, s) \<Rightarrow> ab_moves Z rec iid nd alpha tt_move h b s)"

definition ab_body :: "ZobState \<Rightarrow> (nat \<Rightarrow> int) \<Rightarrow> searcher \<Rightarrow> searcher \<Rightarrow> searcher" where
  "ab_body Z now rec iid b depth alpha beta at do_null is_pv s =
     (let s = check_time now s in
      if s_stopped s then (0, b, s)
      else let s = s \<lparr> s_nodes := s_nodes s + 1 \<rparr> in
        if ply b \<ge> 4 \<and> ab_repeats b (ply b) then (0, b, s)
        else case stq_terminal_score b at of
          Some v \<Rightarrow> (v, b, s)
        | None \<Rightarrow>
            if at \<ge> MAX_PLY then (evaluate b, b, s)
            else if depth \<le> 0 then quiescence Z now b alpha beta at 0 s
            else case heir_terminal b at of
              Some v \<Rightarrow> (v, b, s)
            | None \<Rightarrow> case succession_terminal b at of
                Some v \<Rightarrow> (v, b, s)
              | None \<Rightarrow>
                  let alpha = (if alpha < - (MATE_SCORE - at) then - (MATE_SCORE - at) else alpha);
                      beta = (if beta > MATE_SCORE - at - 1 then MATE_SCORE - at - 1 else beta) in
                  if alpha \<ge> beta then (alpha, b, s)
                  else let tte = tt_probe (s_tt s) (hash b) in
                    case ab_tt_cutoff s depth alpha beta is_pv tte of
                      Some v \<Rightarrow> (v, b, s)
                    | None \<Rightarrow> ab_node Z now rec iid tte b depth alpha beta at do_null is_pv s)"

text \<open>The recursion within a ply, on the depth, and the recursion over the plies.\<close>

definition no_search :: searcher where
  "no_search b depth alpha beta at do_null is_pv s = (0, b, s)"

primrec ab_depths :: "nat \<Rightarrow> ZobState \<Rightarrow> (nat \<Rightarrow> int) \<Rightarrow> searcher \<Rightarrow> searcher" where
  "ab_depths 0 Z now rec = ab_body Z now rec no_search"
| "ab_depths (Suc k) Z now rec = ab_body Z now rec (ab_depths k Z now rec)"

primrec ab_plies :: "nat \<Rightarrow> ZobState \<Rightarrow> (nat \<Rightarrow> int) \<Rightarrow> searcher" where
  "ab_plies 0 Z now = (\<lambda>b depth. ab_depths (nat depth) Z now no_search b depth)"
| "ab_plies (Suc n) Z now = (\<lambda>b depth. ab_depths (nat depth) Z now (ab_plies n Z now) b depth)"

definition alpha_beta :: "ZobState \<Rightarrow> (nat \<Rightarrow> int) \<Rightarrow> searcher" where
  "alpha_beta Z now b depth alpha beta at do_null is_pv s =
     ab_plies (nat (MAX_PLY - at)) Z now b depth alpha beta at do_null is_pv s"


section \<open>The recursion of the source\<close>

lemma ab_iid_cong:
  assumes "n_depth nd \<ge> 4 \<Longrightarrow> iid b (n_depth nd - 2) = iid' b (n_depth nd - 2)"
  shows "ab_iid iid nd alpha tt_move b s = ab_iid iid' nd alpha tt_move b s"
  using assms by (simp add: ab_iid_def)

lemma ab_body_iid_cong:
  assumes "\<And>b. depth \<ge> 4 \<Longrightarrow> iid b (depth - 2) = iid' b (depth - 2)"
  shows "ab_body Z now rec iid b depth = ab_body Z now rec iid' b depth"
proof -
  have i: "ab_iid iid nd alpha tt_move b s = ab_iid iid' nd alpha tt_move b s" if "n_depth nd = depth" for nd alpha tt_move b s
    using assms that by (intro ab_iid_cong) simp
  have m: "ab_moves Z rec iid nd alpha tt_move h b s = ab_moves Z rec iid' nd alpha tt_move h b s"
    if "n_depth nd = depth" for nd alpha tt_move h b s
    unfolding ab_moves_def i [OF that] by (rule refl)
  have "ab_node Z now rec iid tte b depth = ab_node Z now rec iid' tte b depth" for tte b
    by (intro ext) (simp only: ab_node_def Let_def m Node.select_convs cong: prod.case_cong sum.case_cong option.case_cong)
  then show ?thesis by (intro ext) (simp only: ab_body_def)
qed

text \<open>More levels than the depth make no difference.\<close>

lemma ab_depths_more:
  "nat depth \<le> k \<Longrightarrow> nat depth \<le> k' \<Longrightarrow> ab_depths k Z now rec b depth = ab_depths k' Z now rec b depth"
proof (induction k arbitrary: k' b depth)
  case 0
  then have d: "\<not> depth \<ge> 4" by simp
  have "ab_body Z now rec iid b depth = ab_body Z now rec iid' b depth" for iid iid'
    using d by (intro ab_body_iid_cong) simp
  then show ?case by (cases k') (simp_all only: ab_depths.simps)
next
  case (Suc k)
  show ?case
  proof (cases k')
    case 0
    then have "\<not> depth \<ge> 4" using Suc.prems by simp
    then show ?thesis unfolding 0 ab_depths.simps by (intro ab_body_iid_cong) simp
  next
    case (Suc j)
    show ?thesis
      unfolding Suc ab_depths.simps
      by (intro ab_body_iid_cong Suc.IH) (use Suc.prems \<open>k' = Suc j\<close> in auto)
  qed
qed

lemma ab_body_deep:
  assumes "MAX_PLY \<le> at"
  shows "ab_body Z now rec iid b depth alpha beta at = ab_body Z now rec' iid' b depth alpha beta at"
  using assms by (intro ext) (simp only: ab_body_def if_True Let_def)

text \<open>
  \<open>ab_body\<close> calls \<open>rec\<close> only at the next ply, and \<open>iid\<close> only at its own.
\<close>

lemma ab_call_ply: "ab_call (\<lambda>b depth alpha beta _. f b depth alpha beta (n_ply nd + 1)) nd = ab_call f nd"
  by (intro ext) (simp only: ab_call_def)

lemma ab_try_ply: "ab_try Z (\<lambda>b depth alpha beta _. f b depth alpha beta (n_ply nd + 1)) nd = ab_try Z f nd"
  by (intro ext) (simp only: ab_try_def ab_pvs_def ab_call_ply)

lemma ab_loop_ply: "ab_loop Z (\<lambda>b depth alpha beta _. f b depth alpha beta (n_ply nd + 1)) nd fut ms alpha v m n qs b s =
    ab_loop Z f nd fut ms alpha v m n qs b s"
  by (induction ms arbitrary: alpha v m n qs b s)
    (simp_all only: ab_loop.simps ab_try_ply cong: prod.case_cong option.case_cong if_cong)

lemma ab_body_ply:
  "ab_body Z now (\<lambda>b depth alpha beta _. f b depth alpha beta (at + 1)) (\<lambda>b depth alpha beta _. g b depth alpha beta at)
     b depth alpha beta at = ab_body Z now f g b depth alpha beta at"
proof -
  have i: "ab_iid (\<lambda>b depth alpha beta _. g b depth alpha beta (n_ply nd)) nd = ab_iid g nd" for nd
    by (intro ext) (simp only: ab_iid_def)
  have m: "ab_moves Z (\<lambda>b depth alpha beta _. f b depth alpha beta (at + 1)) (\<lambda>b depth alpha beta _. g b depth alpha beta at) nd =
      ab_moves Z f g nd" if "n_ply nd = at" for nd at
    unfolding that [symmetric] by (intro ext) (simp only: ab_moves_def i ab_loop_ply)
  have n: "ab_null Z (\<lambda>b depth alpha beta _. f b depth alpha beta (at + 1)) nd = ab_null Z f nd" if "n_ply nd = at" for nd at
    unfolding that [symmetric] by (intro ext) (simp only: ab_null_def)
  show ?thesis
    by (intro ext) (simp only: ab_body_def ab_node_def Let_def m n Node.select_convs cong: prod.case_cong sum.case_cong option.case_cong if_cong)
qed

lemma alpha_beta_unfold:
  "alpha_beta Z now b depth alpha beta at do_null is_pv s =
     ab_body Z now (alpha_beta Z now) (alpha_beta Z now) b depth alpha beta at do_null is_pv s"
proof (cases "at < MAX_PLY")
  case False
  then have "MAX_PLY \<le> at" "nat (MAX_PLY - at) = 0" by auto
  obtain iid where "alpha_beta Z now b depth alpha beta at do_null is_pv s = ab_body Z now no_search iid b depth alpha beta at do_null is_pv s"
    unfolding alpha_beta_def \<open>nat (MAX_PLY - at) = 0\<close> ab_plies.simps by (cases "nat depth") auto
  then show ?thesis using ab_body_deep [OF \<open>MAX_PLY \<le> at\<close>] by metis
next
  case True
  define n where "n = nat (MAX_PLY - (at + 1))"
  have n: "nat (MAX_PLY - at) = Suc n" using True by (simp add: n_def)
  have at1: "(\<lambda>b depth alpha beta _. ab_plies n Z now b depth alpha beta (at + 1)) =
      (\<lambda>b depth alpha beta _. alpha_beta Z now b depth alpha beta (at + 1))"
    by (intro ext) (simp only: alpha_beta_def n_def)
  have at0: "(\<lambda>b depth alpha beta _. ab_plies (Suc n) Z now b depth alpha beta at) =
      (\<lambda>b depth alpha beta _. alpha_beta Z now b depth alpha beta at)"
    by (intro ext) (simp only: alpha_beta_def n)
  have "ab_depths (nat depth) Z now (ab_plies n Z now) b depth = ab_depths (Suc (nat depth)) Z now (ab_plies n Z now) b depth"
    by (rule ab_depths_more) simp_all
  also have "\<dots> = ab_body Z now (ab_plies n Z now) (ab_plies (Suc n) Z now) b depth"
    unfolding ab_depths.simps ab_plies.simps by (intro ab_body_iid_cong ab_depths_more) simp_all
  finally have "alpha_beta Z now b depth alpha beta at do_null is_pv s =
      ab_body Z now (ab_plies n Z now) (ab_plies (Suc n) Z now) b depth alpha beta at do_null is_pv s"
    by (simp only: alpha_beta_def n ab_plies.simps(2))
  also have "\<dots> = ab_body Z now (\<lambda>b depth alpha beta _. alpha_beta Z now b depth alpha beta (at + 1))
      (\<lambda>b depth alpha beta _. alpha_beta Z now b depth alpha beta at) b depth alpha beta at do_null is_pv s"
    unfolding at1 [symmetric] at0 [symmetric] ab_body_ply by (rule refl)
  finally show ?thesis unfolding ab_body_ply .
qed

end
