(* ===== verification/SearchFrame.thy ===== *)
theory SearchFrame
  imports AlphaBeta Play
begin

text \<open>
  What a search leaves behind.  The locale \<open>search_frame\<close> is the contract of a relation between the
  statics before and after: it is reflexive and transitive and holds for every single update the
  search makes.  In it the search is shown to restore the caller's board up to dead history
  entries, and to relate the statics at its start and end.  The interpretations give the bound of
  the history table, the reasons for stopping, and the shape of the transposition table.
\<close>

section \<open>Boards the search visits\<close>

definition playable :: "Board \<Rightarrow> bool" where
  "playable b \<longleftrightarrow> gen_inv b \<and> game_mod b \<noteq> MOD_HEIR"

lemma live_eq_refl [simp]: "live_eq b b"
  by (rule chess.eqv_refl)

lemma gen_inv_history [simp]: "gen_inv (b \<lparr> history := h \<rparr>) = gen_inv b"
  by (simp add: gen_inv_def ep_ok_def rights_ok_def right_ok_def)

lemma gen_ok_history [simp]: "gen_ok (b \<lparr> history := h \<rparr>) m = gen_ok b m"
  by (simp add: gen_ok_def captured_of_def)

lemma playable_live: "live_eq b b' \<Longrightarrow> playable b' = playable b"
  by (auto elim!: live_eqE simp: playable_def)

lemma gen_ok_live: "live_eq b b' \<Longrightarrow> gen_ok b' m = gen_ok b m"
  by (auto elim!: live_eqE)

lemma playable_make:
  assumes "playable b" "gen_ok b m"
  shows "playable (board_make_move Z b m)"
  using assms gen_okD(3) [OF assms(2)] gen_inv_make [of b m Z]
  by (auto simp: playable_def board_make_move_frame(3))

lemma unmake_live:
  assumes "playable b" "gen_ok b m" "live_eq (board_make_move Z b m) c"
  shows "live_eq b (board_unmake_move c)"
  using assms gen_okD(1) [OF assms(2)] by (intro chess.unmake_eqv [of b m Z c]) (auto simp: playable_def gen_inv_def)

lemma generated_ok:
  assumes "playable b"
  shows "\<forall>m \<in> set (generate_moves Z b). gen_ok b m" "\<forall>m \<in> set (generate_captures Z b). gen_ok b m"
proof -
  have i: "gen_inv b" using assms by (simp add: playable_def)
  show "\<forall>m \<in> set (generate_moves Z b). gen_ok b m" using generated_gen_ok(1) [OF i] by blast
  show "\<forall>m \<in> set (generate_captures Z b). gen_ok b m"
    using all_captures_gen_ok [OF i]
    by (auto simp: generate_captures_filter [OF i] pseudo_captures_take dest!: in_set_takeD)
qed

text \<open>The generators do not read the history.\<close>

lemma history_fields:
  "pieces (b \<lparr> history := h \<rparr>) = pieces b" "occupied (b \<lparr> history := h \<rparr>) = occupied b"
  "all_bb (b \<lparr> history := h \<rparr>) = all_bb b" "mailbox (b \<lparr> history := h \<rparr>) = mailbox b"
  "side (b \<lparr> history := h \<rparr>) = side b" "castling (b \<lparr> history := h \<rparr>) = castling b"
  "ep_square (b \<lparr> history := h \<rparr>) = ep_square b" "game_mod (b \<lparr> history := h \<rparr>) = game_mod b"
  "heir_promoted (b \<lparr> history := h \<rparr>) = heir_promoted b" "truce_active (b \<lparr> history := h \<rparr>) = truce_active b"
  "truce_frozen (b \<lparr> history := h \<rparr>) = truce_frozen b" "ff_moved (b \<lparr> history := h \<rparr>) = ff_moved b"
  "kb_unlocked (b \<lparr> history := h \<rparr>) = kb_unlocked b" "kb_idle_kings (b \<lparr> history := h \<rparr>) = kb_idle_kings b"
  by simp_all

lemma pawn_history: "gen_pawn_moves (b \<lparr> history := h \<rparr>) = gen_pawn_moves b"
  unfolding gen_pawn_moves_def [abs_def] gen_pawn_sq_def [abs_def] gen_pawn_capture_def [abs_def]
    gen_merc_pawn_def [abs_def] gen_pawn_push_def [abs_def] gen_enemy_capture_def [abs_def]
    gen_friendly_capture_def [abs_def] gen_en_passant_def [abs_def] pawn_blocked_def [abs_def]
    add_promos_def [abs_def] succ_add_promos_def [abs_def] stq_protected_def [abs_def] truce_no_cap_def [abs_def] history_fields attacked_history
  by (rule refl)

lemma piece_history: "gen_piece_moves (b \<lparr> history := h \<rparr>) = gen_piece_moves b"
  unfolding gen_piece_moves_def [abs_def] gen_piece_sq_def [abs_def] gen_target_def [abs_def] mod_targets_def [abs_def]
    piece_targets_def [abs_def] gen_stq_prisoner_def [abs_def] gen_stq_escaped_def [abs_def] stq_own_targets_def [abs_def]
    stq_protected_def [abs_def] truce_no_cap_def [abs_def] history_fields attacked_history
  by (rule refl)

lemma castling_history: "gen_castling (b \<lparr> history := h \<rparr>) = gen_castling b"
  unfolding gen_castling_def [abs_def] gen_castle_side_def [abs_def] castling_blocked_def [abs_def]
    need_check_safe_def [abs_def] heir_check_applies_def [abs_def] history_fields attacked_history
  by (rule refl)

lemma pseudo_history:
  "pseudo_moves (b \<lparr> history := h \<rparr>) = pseudo_moves b" "pseudo_captures (b \<lparr> history := h \<rparr>) = pseudo_captures b"
  unfolding pseudo_moves_def [abs_def] pseudo_captures_def [abs_def] pawn_history piece_history castling_history history_fields
  by (rule refl)+

lemma generate_moves_live:
  assumes "gen_inv b" "live_eq b b'"
  shows "generate_moves Z b' = generate_moves Z b"
proof -
  obtain h where b': "b' = b \<lparr> history := h \<rparr>" using assms(2) by (rule live_eqE)
  have "legal Z b' m = legal Z b m" if "m \<in> set (pseudo_moves b)" for m
  proof -
    have "live_eq (board_make_move Z b m) (board_make_move Z b' m)"
      using that pseudo_move_ok(1) [OF assms(1)] assms by (intro chess.make_eqv) (auto simp: gen_inv_def)
    then show ?thesis using safe_after_live_eq live_eq_side [OF assms(2)] by (simp add: legal_def)
  qed
  then show ?thesis
    using assms(1) by (simp add: b' generate_moves_filter pseudo_history cong: filter_cong)
qed

lemma null_make_eq:
  "null_make Z b = b \<lparr> side := color_opposite (side b), ep_square := SQ_NONE,
     hash := hash b XOR zob_side Z XOR (if ep_square b \<noteq> SQ_NONE then zob_ep Z ! nat (ep_square b) else 0) \<rparr>"
  by (simp add: null_make_def Let_def xor.assoc)

lemma playable_null:
  assumes "playable b"
  shows "playable (null_make Z b)"
proof -
  have "wf_place (b \<lparr> side := c, ep_square := e, hash := h \<rparr>) = wf_place b" for c e h
    by (simp add: wf_place_def)
  moreover have "rights_ok (b \<lparr> side := c, ep_square := e, hash := h \<rparr>) = rights_ok b" for c e h
    by (simp add: rights_ok_def right_ok_def)
  ultimately show ?thesis
    using assms unfolding playable_def gen_inv_def null_make_eq by (auto simp: ep_ok_def)
qed

lemma null_live: "live_eq (null_make Z b) c \<Longrightarrow> live_eq b (null_unmake b c)"
  unfolding null_make_eq by (erule live_eqE) (simp add: null_unmake_def live_eq_def)



section \<open>The contract\<close>

locale search_frame =
  fixes now :: "nat \<Rightarrow> int" and R :: "SearchState \<Rightarrow> SearchState \<Rightarrow> bool"
  assumes R_refl: "R s s"
    and R_trans: "R s t \<Longrightarrow> R t u \<Longrightarrow> R s u"
    and R_nodes: "R s (s \<lparr> s_nodes := s_nodes s + 1 \<rparr>)"
    and R_time: "R s (check_time now s)"
    and R_stack: "R s (s \<lparr> s_eval_stack := f \<rparr>)"
    and R_killer: "R s (record_killer m at s)"
    and R_history: "\<bar>d\<bar> \<le> 128 \<Longrightarrow> R s (record_history c m d s)"
    and R_quiets: "\<bar>d\<bar> \<le> 128 \<Longrightarrow> R s (penalize_quiets c ms d s)"
    and R_counter: "R s (s \<lparr> s_countermoves := g \<rparr>)"
    and R_store: "R s (s \<lparr> s_tt := tt_store (s_tt s) key d v fl m \<rparr>)"
begin

text \<open>A result whose board and statics fit those before it.\<close>

definition keeps :: "Board \<Rightarrow> SearchState \<Rightarrow> Board \<times> SearchState \<Rightarrow> bool" where
  "keeps b s r \<longleftrightarrow> live_eq b (fst r) \<and> R s (snd r)"

lemma keepsI [intro]: "live_eq b b' \<Longrightarrow> R s s' \<Longrightarrow> keeps b s (b', s')"
  by (simp add: keeps_def)

lemma keepsD: "keeps b s (b', s') \<Longrightarrow> live_eq b b'" "keeps b s (b', s') \<Longrightarrow> R s s'"
  by (simp_all add: keeps_def)

lemma keeps_refl [simp]: "keeps b s (b, s)"
  by (simp add: keeps_def R_refl)

lemma keeps_state: "R s s' \<Longrightarrow> keeps b s (b, s')"
  by (simp add: keeps_def)

lemma keeps_trans: "keeps b s (b', s') \<Longrightarrow> keeps b' s' r \<Longrightarrow> keeps b s r"
  by (auto simp: keeps_def intro: R_trans chess.eqv_trans)

definition q_ok :: "(Board \<Rightarrow> int \<Rightarrow> int \<Rightarrow> int \<Rightarrow> SearchState \<Rightarrow> result) \<Rightarrow> bool" where
  "q_ok f \<longleftrightarrow> (\<forall>b alpha beta at s. playable b \<longrightarrow> keeps b s (snd (f b alpha beta at s)))"

lemma q_okD: "q_ok f \<Longrightarrow> playable b \<Longrightarrow> f b alpha beta at s = (v, b', s') \<Longrightarrow> keeps b s (b', s')"
  by (metis q_ok_def snd_conv)

lemma q_okI: "(\<And>b alpha beta at s. playable b \<Longrightarrow> keeps b s (snd (f b alpha beta at s))) \<Longrightarrow> q_ok f"
  by (simp add: q_ok_def)

text \<open>Taking back a move after a search below it.\<close>

lemma keeps_unmake:
  assumes "playable b" "gen_ok b m" "keeps (board_make_move Z b m) s (b', s')"
  shows "keeps b s (board_unmake_move b', s')"
  using unmake_live [OF assms(1,2) keepsD(1) [OF assms(3)]] keepsD(2) [OF assms(3)] by blast

lemma q_try_keeps:
  assumes "q_ok rec" "playable b" "gen_ok b m"
  shows "keeps b s (snd (q_try Z rec b m alpha beta at s))"
proof -
  note p = playable_make [OF assms(2,3), of Z]
  show ?thesis
    unfolding q_try_def Let_def
    by (auto split: prod.split intro: keeps_unmake [OF assms(2,3)] q_okD [OF assms(1) p])
qed

lemma q_loop_keeps:
  assumes "q_ok rec" "playable b0" "\<forall>m \<in> set ms. gen_ok b0 m" "keeps b0 s0 (b, s)"
  shows "keeps b0 s0 (snd (q_loop Z rec skip beta at ms alpha best b s))"
  using assms(3,4)
proof (induction ms arbitrary: alpha best b s)
  case Nil
  then show ?case by simp
next
  case (Cons m ms)
  note l = keepsD(1) [OF Cons.prems(2)]
  obtain v b' s' where t: "q_try Z rec b m alpha beta at s = (v, b', s')" by (rule prod_cases3)
  have "keeps b s (b', s')"
    using q_try_keeps [of rec b m s Z alpha beta at] assms(1,2) Cons.prems(1) playable_live [OF l] gen_ok_live [OF l]
    by (simp add: t)
  note k = keeps_trans [OF Cons.prems(2) this]
  show ?case using k Cons.IH [OF _ k] Cons.IH [OF _ Cons.prems(2)] Cons.prems(1) by (simp add: t Let_def)
qed

lemma q_evasions_keeps:
  assumes "q_ok rec" "playable b"
  shows "keeps b s (snd (q_evasions Z rec qply b alpha beta at s))"
  unfolding q_evasions_def Let_def
  using q_loop_keeps [OF assms, where s = s and ?s0.0 = s] generated_ok [OF assms(2), of Z] by simp

lemma q_captures_keeps:
  assumes "q_ok rec" "playable b"
  shows "keeps b s (snd (q_captures Z rec qply b alpha beta at s))"
  unfolding q_captures_def Let_def
  using q_loop_keeps [OF assms, where s = s and ?s0.0 = s] generated_ok(2) [OF assms(2), of Z] by simp

lemma q_body_keeps:
  assumes "q_ok rec" "playable b"
  shows "keeps b s (snd (q_body Z now rec qply b alpha beta at s))"
proof -
  define s1 where "s1 = check_time now (s \<lparr> s_nodes := s_nodes s + 1 \<rparr>)"
  have k: "keeps b s (b, s1)" using R_trans [OF R_nodes R_time, of s] by (simp add: s1_def keeps_state)
  have "keeps b s1 (snd (q_body Z now rec qply b alpha beta at s))"
    unfolding q_body_def s1_def [symmetric] Let_def
    using q_evasions_keeps [OF assms] q_captures_keeps [OF assms] by (simp split: option.split)
  then show ?thesis by (rule keeps_trans [OF k])
qed

lemma q_levels_ok: "q_ok (q_levels n Z now)"
proof (induction n)
  case 0
  have "q_ok (\<lambda>b _ _ _ s. (0, b, s))" by (simp add: q_ok_def)
  from q_body_keeps [OF this] show ?case unfolding q_levels.simps by (rule q_okI)
next
  case (Suc n)
  from q_body_keeps [OF this] show ?case unfolding q_levels.simps by (rule q_okI)
qed

lemma quiescence_keeps: "playable b \<Longrightarrow> keeps b s (snd (quiescence Z now b alpha beta at qply s))"
  using q_levels_ok unfolding quiescence_def q_ok_def by blast

subsection \<open>Alpha-beta\<close>

text \<open>
  A searcher that is called with at most \<open>64 + ply\<close> depth; extensions add at most one to the depth
  from one ply to the next, so the bound is handed down.
\<close>

definition s_ok :: "searcher \<Rightarrow> bool" where
  "s_ok f \<longleftrightarrow> (\<forall>b depth alpha beta at dn pv s. playable b \<longrightarrow> depth \<le> 64 + at \<longrightarrow>
     keeps b s (snd (f b depth alpha beta at dn pv s)))"

lemma s_okD:
  "s_ok f \<Longrightarrow> playable b \<Longrightarrow> depth \<le> 64 + at \<Longrightarrow> f b depth alpha beta at dn pv s = (v, b', s') \<Longrightarrow> keeps b s (b', s')"
  by (metis s_ok_def snd_conv)

lemma s_okI:
  "(\<And>b depth alpha beta at dn pv s. playable b \<Longrightarrow> depth \<le> 64 + at \<Longrightarrow>
      keeps b s (snd (f b depth alpha beta at dn pv s))) \<Longrightarrow> s_ok f"
  by (simp add: s_ok_def)

lemma ab_razor_keeps:
  assumes "playable b"
  shows "keeps b s (case ab_razor Z now nd alpha b s of Inl r \<Rightarrow> snd r | Inr r \<Rightarrow> r)"
  using quiescence_keeps [OF assms, of s Z alpha "n_beta nd" "n_ply nd" 0]
  by (auto simp: ab_razor_def Let_def split: prod.split)

lemma ab_null_keeps:
  assumes "s_ok rec" "playable b" "n_depth nd \<le> 64 + n_ply nd"
  shows "keeps b s (case ab_null Z rec nd dn b s of Inl r \<Rightarrow> snd r | Inr r \<Rightarrow> r)"
proof -
  have k: "keeps b s (null_unmake b b', s')"
    if "rec (null_make Z b) d alpha beta (n_ply nd + 1) e p s = (v, b', s')" "d \<le> 64 + (n_ply nd + 1)"
    for d alpha beta e p v b' s'
    using s_okD [OF assms(1) playable_null [OF assms(2)] that(2,1)] null_live keepsD by blast
  have "n_depth nd - (3 + n_depth nd div 4) \<le> 64 + (n_ply nd + 1)" if "3 \<le> n_depth nd"
    using that assms(3) pos_imp_zdiv_nonneg_iff [of 4 "n_depth nd"] by linarith
  then show ?thesis unfolding ab_null_def Let_def by (auto split: prod.split dest: k)
qed

lemma ab_iid_keeps:
  assumes "s_ok iid" "playable b" "n_depth nd \<le> 64 + n_ply nd"
  shows "keeps b s (snd (ab_iid iid nd alpha tt b s))"
proof -
  have "keeps b s (b', s')" if "iid b (n_depth nd - 2) alpha beta (n_ply nd) d p s = (v, b', s')" for beta d p v b' s'
    using assms(3) by (intro s_okD [OF assms(1,2) _ that]) auto
  then show ?thesis unfolding ab_iid_def Let_def by (auto split: prod.split)
qed

lemma ab_call_keeps:
  assumes "s_ok rec" "playable b" "d \<le> 64 + (n_ply nd + 1)" "ab_call rec nd same d lo hi pv b s = (v, b', s')"
  shows "keeps b s (b', s')"
  using assms(4) by (auto simp: ab_call_def split: prod.splits if_splits intro: s_okD [OF assms(1-3)])

lemma ab_pvs_keeps:
  assumes "s_ok rec" "playable b" "d \<le> 64 + (n_ply nd + 1)" "0 \<le> r" "ab_pvs rec nd same full d r alpha b s = (v, b', s')"
  shows "keeps b s (b', s')"
proof -
  have call: "playable b2 \<and> keeps b s (b2, s2)"
    if "ab_call rec nd same d' lo hi pv b1 s1 = (v2, b2, s2)" "playable b1 \<and> keeps b s (b1, s1)" "d' \<le> d"
    for d' lo hi pv b1 s1 v2 b2 s2
  proof -
    have "keeps b1 s1 (b2, s2)" using ab_call_keeps [OF assms(1) _ _ that(1)] that(2,3) assms(3) by auto
    then show ?thesis using that(2) playable_live keepsD(1) keeps_trans by blast
  qed
  obtain v1 b1 s1 where c1: "ab_call rec nd same (d - r) alpha (alpha + 1) False b s = (v1, b1, s1)" by (rule prod_cases3)
  define r2 where "r2 = (if v1 > alpha \<and> r > 0 then ab_call rec nd same d alpha (alpha + 1) False b1 s1 else (v1, b1, s1))"
  obtain v2 b2 s2 where c2: "r2 = (v2, b2, s2)" by (rule prod_cases3)
  have k1: "playable b1 \<and> keeps b s (b1, s1)" using call [OF c1] assms(2,4) by simp
  then have k2: "playable b2 \<and> keeps b s (b2, s2)" using call [of d _ _ _ b1 s1] c2 by (auto simp: r2_def split: if_splits)
  show ?thesis
    using assms(5) call [of d _ _ _ b s] call [of d _ _ _ b2 s2] k2 assms(2)
    unfolding ab_pvs_def Let_def c1 prod.case r2_def [symmetric] c2 by (auto split: if_splits)
qed

lemma ab_extension_le: "ab_extension nd i m b g \<le> 2"
  by (simp add: ab_extension_def Let_def)

lemma ab_reduction_nonneg: "0 \<le> ab_reduction nd b c i m n e d"
proof -
  have "0 \<le> (if p then if (r :: int) < 0 then 0 else r else 0)" for p r by simp
  then show ?thesis unfolding ab_reduction_def Let_def .
qed

lemma ab_try_keeps:
  assumes "s_ok rec" "playable b" "gen_ok b m" "n_depth nd \<le> 64 + n_ply nd"
  shows "keeps b s (snd (ab_try Z rec nd fut m alpha n b s))"
proof -
  note p = playable_make [OF assms(2,3), of Z]
  have "keeps b s (board_unmake_move b', s')"
    if "ab_pvs rec nd same full (n_depth nd - 1 + ab_extension nd i m (board_make_move Z b m) g)
        (ab_reduction nd (board_make_move Z b m) c i m k e d) alpha (board_make_move Z b m) s = (v, b', s')"
    for same full i g c k e d v b' s'
    using that assms(4) ab_extension_le [of nd i m "board_make_move Z b m" g]
    by (intro keeps_unmake [where Z = Z, OF assms(2,3)] ab_pvs_keeps [OF assms(1) p _ ab_reduction_nonneg]) auto
  moreover have "keeps b s (board_unmake_move (board_make_move Z b m), s)"
    by (rule keeps_unmake [OF assms(2,3) keeps_refl])
  ultimately show ?thesis unfolding ab_try_def Let_def by (auto split: prod.split)
qed

lemma ab_record_cutoff_R: "\<bar>n_depth nd\<bar> \<le> 128 \<Longrightarrow> R s (ab_record_cutoff nd m qs b s)"
proof -
  assume d: "\<bar>n_depth nd\<bar> \<le> 128"
  let ?s1 = "record_killer m (n_ply nd) s"
  let ?s2 = "record_history (side b) m (n_depth nd) ?s1"
  let ?s3 = "penalize_quiets (side b) (butlast qs) (n_depth nd) ?s2"
  have "R s ?s3" using R_trans [OF R_killer R_trans [OF R_history [OF d] R_quiets [OF d]]] .
  then show ?thesis unfolding ab_record_cutoff_def Let_def by (auto intro: R_trans [OF _ R_counter])
qed

lemma ab_loop_keeps:
  assumes "s_ok rec" "playable b0" "n_depth nd \<le> 64 + n_ply nd" "\<bar>n_depth nd\<bar> \<le> 128"
    and "\<forall>m \<in> set ms. gen_ok b0 m" "keeps b0 s0 (b, s)"
  shows "keeps b0 s0 (case ab_loop Z rec nd fut ms alpha v bm n qs b s of Inl r \<Rightarrow> snd r | Inr r \<Rightarrow> snd (snd r))"
  using assms(5,6)
proof (induction ms arbitrary: alpha v bm n qs b s)
  case Nil
  then show ?case by simp
next
  case (Cons m ms)
  note l = keepsD(1) [OF Cons.prems(2)]
  obtain w b' s' where t: "ab_try Z rec nd fut m alpha n b s = (w, b', s')" by (rule prod_cases3)
  have "keeps b s (b', s')"
    using ab_try_keeps [of rec b m nd s Z fut alpha n] assms(1-3) Cons.prems(1) playable_live [OF l] gen_ok_live [OF l]
    by (simp add: t)
  note k = keeps_trans [OF Cons.prems(2) this]
  have "keeps b0 s0 (b', ab_record_cutoff nd m qs' b' s')" for qs'
    using keeps_trans [OF k keeps_state [OF ab_record_cutoff_R [OF assms(4)]]] .
  then show ?case using k Cons.IH [OF _ k] Cons.prems(1) by (cases w) (simp_all add: t Let_def)
qed

lemma ab_moves_keeps:
  assumes "s_ok rec" "s_ok iid" "playable b" "n_depth nd \<le> 64 + n_ply nd" "\<bar>n_depth nd\<bar> \<le> 128"
  shows "keeps b s (snd (ab_moves Z rec iid nd alpha tt h b s))"
proof -
  obtain tt' b' s' where i: "ab_iid iid nd alpha tt b s = (tt', b', s')" by (rule prod_cases3)
  have k: "keeps b s (b', s')" using ab_iid_keeps [OF assms(2-4), of s alpha tt] by (simp add: i)
  define ml where "ml = order_moves Z s' b' (generate_moves Z b) tt' (n_ply nd) (side b') (ab_countermove b s)"
  define r where "r = ab_loop Z rec nd (ab_futility nd alpha) ml alpha (- INFINITY_SCORE) MOVE_NONE 0 [] b' s'"
  have "keeps b s (case r of Inl r \<Rightarrow> snd r | Inr r \<Rightarrow> snd (snd r))"
    unfolding r_def using generated_ok(1) [OF assms(3), of Z]
    by (intro ab_loop_keeps [OF assms(1,3,4,5) _ k]) (simp add: ml_def)
  then show ?thesis
    unfolding ab_moves_def Let_def i prod.case ml_def [symmetric] r_def [symmetric]
    by (auto split: sum.splits intro: keeps_trans [OF _ keeps_state [OF R_store]])
qed

text \<open>A stage that ends the node or hands on to the next one.\<close>

lemma keeps_stage:
  assumes "keeps b s (case r of Inl x \<Rightarrow> snd x | Inr x \<Rightarrow> x)" "playable b"
    and "\<And>b' s'. playable b' \<Longrightarrow> keeps b' s' (snd (f b' s'))"
  shows "keeps b s (snd (case r of Inl x \<Rightarrow> x | Inr (b', s') \<Rightarrow> f b' s'))"
proof (cases r)
  case (Inl x)
  then show ?thesis using assms(1) by simp
next
  case (Inr y)
  obtain b' s' where y: "y = (b', s')" by (rule prod.exhaust)
  have k: "keeps b s (b', s')" using assms(1) Inr y by simp
  then have "playable b'" using playable_live keepsD(1) assms(2) by blast
  from keeps_trans [OF k assms(3) [OF this]] show ?thesis using Inr y by simp
qed

lemma keeps_option: "keeps b s (snd f) \<Longrightarrow> keeps b s (snd (case r of Some v \<Rightarrow> (v, b, s) | None \<Rightarrow> f))"
  by (cases r) simp_all

lemma ab_static_eval_keeps: "keeps b s (b, snd (ab_static_eval b c tte at s))"
  by (auto simp: ab_static_eval_def Let_def intro!: keeps_state R_stack split: option.split)

lemma ab_node_keeps:
  assumes "s_ok rec" "s_ok iid" "playable b" "depth \<le> 64 + at" "\<bar>depth\<bar> \<le> 128"
  shows "keeps b s (snd (ab_node Z now rec iid tte b depth alpha beta at dn pv s))"
proof -
  obtain ev s1 where e: "ab_static_eval b (board_in_check b (side b)) tte at s = (ev, s1)" by (rule prod.exhaust)
  have k: "keeps b s (b, s1)" using ab_static_eval_keeps [of b s "board_in_check b (side b)" tte at] by (simp add: e)
  show ?thesis
    unfolding ab_node_def Let_def e prod.case
  proof (rule keeps_trans [OF k keeps_stage [OF ab_razor_keeps [OF assms(3)] assms(3)]], goal_cases)
    case (1 b' s')
    show ?case
      by (rule keeps_option, rule keeps_stage [OF ab_null_keeps [OF assms(1) 1] 1], simp add: assms(4))
        (rule ab_moves_keeps [OF assms(1,2)], simp_all add: assms(4,5))
  qed
qed

lemma ab_body_keeps:
  assumes "s_ok rec" "s_ok iid"
  shows "s_ok (ab_body Z now rec iid)"
proof (rule s_okI)
  fix b :: Board and depth alpha beta at :: int and dn pv :: bool and s :: SearchState
  assume p: "playable b" and d: "depth \<le> 64 + at"
  define s1 where "s1 = check_time now s"
  have k1: "keeps b s (b, s1)" by (simp add: s1_def keeps_state R_time)
  have k2: "keeps b s (b, s1 \<lparr> s_nodes := s_nodes s1 + 1 \<rparr>)" using keeps_trans [OF k1 keeps_state [OF R_nodes]] .
  have n: "keeps b s (snd (ab_node Z now rec iid tte b depth alpha beta at dn pv (s1 \<lparr> s_nodes := s_nodes s1 + 1 \<rparr>)))"
    if "\<not> MAX_PLY \<le> at" "\<not> depth \<le> 0" for tte alpha beta
    using that d by (intro keeps_trans [OF k2 ab_node_keeps] assms p d) (simp add: MAX_PLY_def)
  show "keeps b s (snd (ab_body Z now rec iid b depth alpha beta at dn pv s))"
    unfolding ab_body_def Let_def s1_def [symmetric]
    using k1 k2 n keeps_trans [OF k2 quiescence_keeps [OF p]] by (simp split: option.split)
qed

lemma no_search_ok: "s_ok no_search"
  by (simp add: s_ok_def no_search_def)

lemma ab_depths_ok: "s_ok rec \<Longrightarrow> s_ok (ab_depths k Z now rec)"
  by (induction k) (simp_all add: ab_body_keeps no_search_ok)

lemma ab_plies_ok: "s_ok (ab_plies n Z now)"
proof (induction n)
  case 0
  show ?case using ab_depths_ok [OF no_search_ok] by (simp add: s_ok_def)
next
  case (Suc n)
  show ?case using ab_depths_ok [OF Suc] by (simp add: s_ok_def)
qed

lemma alpha_beta_ok: "s_ok (alpha_beta Z now)"
  using ab_plies_ok unfolding s_ok_def alpha_beta_def by blast

end


section \<open>Instances\<close>

lemma check_time_frame:
  "s_history (check_time now s) = s_history s" "s_root (check_time now s) = s_root s"
  "s_tt (check_time now s) = s_tt s" "s_nodes (check_time now s) = s_nodes s"
  "s_deadline_ms (check_time now s) = s_deadline_ms s" "s_skill_level (check_time now s) = s_skill_level s"
  by (simp_all add: check_time_def Let_def)

lemma record_killer_frame:
  "s_history (record_killer m at s) = s_history s" "s_root (record_killer m at s) = s_root s"
  "s_tt (record_killer m at s) = s_tt s" "s_nodes (record_killer m at s) = s_nodes s"
  "s_deadline_ms (record_killer m at s) = s_deadline_ms s" "s_skill_level (record_killer m at s) = s_skill_level s"
  "s_stopped (record_killer m at s) = s_stopped s" "s_clock (record_killer m at s) = s_clock s"
  by (simp_all add: record_killer_def)

lemma record_history_eq: "\<exists>f. record_history c m d s = s \<lparr> s_history := f \<rparr>"
  by (auto simp: record_history_def update_history_def)

lemma penalize_quiets_eq: "\<exists>f. penalize_quiets c ms d s = s \<lparr> s_history := f \<rparr>"
proof -
  have "\<exists>f. fold (\<lambda>m s. update_history c m p s) ms s = s \<lparr> s_history := f \<rparr>" for p
  proof (induction ms arbitrary: s)
    case Nil
    have "s = s \<lparr> s_history := s_history s \<rparr>" by simp
    then show ?case by (metis fold_simps(1))
  next
    case (Cons m ms)
    obtain g where "update_history c m p s = s \<lparr> s_history := g \<rparr>" by (auto simp: update_history_def)
    moreover obtain f where "fold (\<lambda>m s. update_history c m p s) ms (s \<lparr> s_history := g \<rparr>) = s \<lparr> s_history := g, s_history := f \<rparr>"
      using Cons.IH by blast
    ultimately show ?case by auto
  qed
  then show ?thesis by (simp add: penalize_quiets_def)
qed

text \<open>The history table stays within its bound.\<close>

lemma history_ok_cong: "s_history s' = s_history s \<Longrightarrow> history_ok s' = history_ok s"
  by (simp add: history_ok_def)

interpretation bounded_history: search_frame now "\<lambda>s s'. history_ok s \<longrightarrow> history_ok s'" for now
proof
  fix s t u and m :: Move and ms at c and d :: int and f g key v fl
  show "history_ok s \<longrightarrow> history_ok s" by simp
  show "history_ok s \<longrightarrow> history_ok t \<Longrightarrow> history_ok t \<longrightarrow> history_ok u \<Longrightarrow> history_ok s \<longrightarrow> history_ok u" by simp
  show "history_ok s \<longrightarrow> history_ok (s \<lparr> s_nodes := s_nodes s + 1 \<rparr>)" by (simp add: history_ok_def)
  show "history_ok s \<longrightarrow> history_ok (check_time now s)" by (simp add: history_ok_cong [OF check_time_frame(1)])
  show "history_ok s \<longrightarrow> history_ok (s \<lparr> s_eval_stack := f \<rparr>)" by (simp add: history_ok_def)
  show "history_ok s \<longrightarrow> history_ok (record_killer m at s)" by (simp add: history_ok_cong [OF record_killer_frame(1)])
  show "history_ok s \<longrightarrow> history_ok (record_history c m d s)" if "\<bar>d\<bar> \<le> 128" using record_history_ok that by blast
  show "history_ok s \<longrightarrow> history_ok (penalize_quiets c ms d s)" if "\<bar>d\<bar> \<le> 128" using penalize_quiets_ok that by blast
  show "history_ok s \<longrightarrow> history_ok (s \<lparr> s_countermoves := g \<rparr>)" by (simp add: history_ok_def)
  show "history_ok s \<longrightarrow> history_ok (s \<lparr> s_tt := tt_store (s_tt s) key d v fl m \<rparr>)" by (simp add: history_ok_def)
qed

text \<open>The search stops only because of the node limit or the clock.\<close>

definition stop_reason :: "(nat \<Rightarrow> int) \<Rightarrow> SearchState \<Rightarrow> SearchState \<Rightarrow> bool" where
  "stop_reason now s s' \<longleftrightarrow>
     s_nodes s \<le> s_nodes s' \<and> s_clock s \<le> s_clock s' \<and> s_deadline_ms s' = s_deadline_ms s \<and>
     (s_stopped s' \<longrightarrow> s_stopped s \<or> s_nodes s' > MAX_NODES \<or>
        (\<exists>i. s_clock s \<le> i \<and> i < s_clock s' \<and> now i \<ge> s_deadline_ms s))"

lemma stop_reason_trans:
  assumes "stop_reason now s t" "stop_reason now t u"
  shows "stop_reason now s u"
proof -
  have "s_stopped s \<or> s_nodes u > MAX_NODES \<or> (\<exists>i. s_clock s \<le> i \<and> i < s_clock u \<and> now i \<ge> s_deadline_ms s)"
    if "s_stopped u"
  proof (cases "s_stopped t")
    case True
    with assms show ?thesis by (auto simp: stop_reason_def intro: less_le_trans)
  next
    case False
    with assms that show ?thesis by (auto simp: stop_reason_def intro: order_trans)
  qed
  then show ?thesis using assms by (auto simp: stop_reason_def)
qed

lemma stop_reason_time: "stop_reason now s (check_time now s)"
  by (auto simp: stop_reason_def check_time_def Let_def)

lemma stop_reason_history: "stop_reason now s (s \<lparr> s_history := f \<rparr>)"
  by (simp add: stop_reason_def)

interpretation stopping: search_frame now "stop_reason now" for now
proof
  fix s t u and m :: Move and ms at c and d :: int and f g key v fl
  show "stop_reason now s s" by (simp add: stop_reason_def)
  show "stop_reason now s t \<Longrightarrow> stop_reason now t u \<Longrightarrow> stop_reason now s u" by (rule stop_reason_trans)
  show "stop_reason now s (s \<lparr> s_nodes := s_nodes s + 1 \<rparr>)" by (auto simp: stop_reason_def)
  show "stop_reason now s (check_time now s)" by (rule stop_reason_time)
  show "stop_reason now s (s \<lparr> s_eval_stack := f \<rparr>)" by (simp add: stop_reason_def)
  show "stop_reason now s (record_killer m at s)" by (simp add: stop_reason_def record_killer_frame)
  show "stop_reason now s (record_history c m d s)" using record_history_eq [of c m d s] stop_reason_history by metis
  show "stop_reason now s (penalize_quiets c ms d s)" using penalize_quiets_eq [of c ms d s] stop_reason_history by metis
  show "stop_reason now s (s \<lparr> s_countermoves := g \<rparr>)" by (simp add: stop_reason_def)
  show "stop_reason now s (s \<lparr> s_tt := tt_store (s_tt s) key d v fl m \<rparr>)" by (simp add: stop_reason_def)
qed

text \<open>
  The table keeps its size, and the root moves, the skill level and the generator of random numbers
  are not touched.
\<close>

definition same_setup :: "SearchState \<Rightarrow> SearchState \<Rightarrow> bool" where
  "same_setup s s' \<longleftrightarrow>
     s_root s' = s_root s \<and> s_skill_level s' = s_skill_level s \<and> s_rng s' = s_rng s \<and>
     tt_mask (s_tt s') = tt_mask (s_tt s) \<and> tt_count (s_tt s') = tt_count (s_tt s) \<and>
     (tt_entries (s_tt s') = None \<longleftrightarrow> tt_entries (s_tt s) = None)"

interpretation kept_setup: search_frame now same_setup for now
proof
  fix s t u and m :: Move and ms at c and d :: int and f g key v fl
  show "same_setup s s" by (simp add: same_setup_def)
  show "same_setup s t \<Longrightarrow> same_setup t u \<Longrightarrow> same_setup s u" by (simp add: same_setup_def)
  show "same_setup s (s \<lparr> s_nodes := s_nodes s + 1 \<rparr>)" by (simp add: same_setup_def)
  show "same_setup s (check_time now s)" by (simp add: same_setup_def check_time_def Let_def)
  show "same_setup s (s \<lparr> s_eval_stack := f \<rparr>)" by (simp add: same_setup_def)
  show "same_setup s (record_killer m at s)" by (simp add: same_setup_def record_killer_def)
  show "same_setup s (record_history c m d s)" using record_history_eq [of c m d s] by (auto simp: same_setup_def)
  show "same_setup s (penalize_quiets c ms d s)" using penalize_quiets_eq [of c ms d s] by (auto simp: same_setup_def)
  show "same_setup s (s \<lparr> s_countermoves := g \<rparr>)" by (simp add: same_setup_def)
  show "same_setup s (s \<lparr> s_tt := tt_store (s_tt s) key d v fl m \<rparr>)" by (simp add: same_setup_def tt_store_def Let_def)
qed


section \<open>Properties\<close>

text \<open>
  (C22) The search function is total and satisfies the recursion of the source: called at any ply and
  depth, it equals the body of \<open>alpha_beta\<close> in which every recursive call, at the next ply and for
  internal iterative deepening, is the function itself.  No bound on the recursion other than the
  ones the code tests enters the equation.
\<close>

theorem alpha_beta_recursion:
  "alpha_beta Z now b depth alpha beta at do_null is_pv s =
     ab_body Z now (alpha_beta Z now) (alpha_beta Z now) b depth alpha beta at do_null is_pv s \<and>
   quiescence Z now b alpha beta at qply s =
     q_body Z now (\<lambda>b alpha beta at s. quiescence Z now b alpha beta at (qply + 1) s) qply b alpha beta at s"
  using alpha_beta_unfold quiescence_unfold by blast

text \<open>
  (C18) A search gives the caller's board back: whatever \<open>alpha_beta\<close> tried, including null moves,
  pruned moves and searches that the clock cut short, the board afterwards differs from the board
  before at most in history entries above the current ply.  The position must be consistent and not one of Heir,
  and the depth at most 64 above the distance from the root, as it is in every call of the engine.
\<close>

theorem alpha_beta_restores_board:
  assumes "gen_inv b" "game_mod b \<noteq> MOD_HEIR" "depth \<le> 64 + at"
    and "alpha_beta Z now b depth alpha beta at do_null is_pv s = (score, b', s')"
  shows "live_eq b b'"
proof -
  have "playable b" using assms(1,2) by (simp add: playable_def)
  from stopping.s_okD [OF stopping.alpha_beta_ok this assms(3,4)] show ?thesis by (rule stopping.keepsD)
qed

theorem alpha_beta_restores_board_witness:
  "live_eq duel (fst (snd (alpha_beta zob_static (\<lambda>_. 0) duel 5 (- 100) 100 1 True False search_static)))"
proof -
  obtain v b' s' where r: "alpha_beta zob_static (\<lambda>_. 0) duel 5 (- 100) 100 1 True False search_static = (v, b', s')"
    by (rule prod_cases3)
  have "live_eq duel b'" by (rule alpha_beta_restores_board [OF duel_gen_inv _ _ r]) (simp_all add: duel_classic)
  then show ?thesis by (simp add: r)
qed

text \<open>
  (C24) The history heuristic stays in range: searching a consistent position of any variant but Heir, with a depth of at
  most 64 above the distance from the root, as in every call of the engine, never moves an entry of the
  history table out of the interval from -16384 to 16384.
\<close>

theorem alpha_beta_history_bound:
  assumes "gen_inv b" "game_mod b \<noteq> MOD_HEIR" "depth \<le> 64 + at" "\<forall>c f t. \<bar>s_history s c f t\<bar> \<le> 16384"
    and "alpha_beta Z now b depth alpha beta at do_null is_pv s = (score, b', s')"
  shows "\<bar>s_history s' c f t\<bar> \<le> 16384"
proof -
  have "playable b" using assms(1,2) by (simp add: playable_def)
  from bounded_history.s_okD [OF bounded_history.alpha_beta_ok this assms(3,5)]
  have "history_ok s \<longrightarrow> history_ok s'" by (rule bounded_history.keepsD)
  then show ?thesis using assms(4) by (simp add: history_ok_def)
qed

theorem alpha_beta_history_bound_witness:
  "\<bar>s_history (snd (snd (alpha_beta zob_static (\<lambda>_. 0) duel 5 (- 100) 100 1 True False search_static))) WHITE 12 28\<bar> \<le> 16384"
proof -
  obtain v b' s' where r: "alpha_beta zob_static (\<lambda>_. 0) duel 5 (- 100) 100 1 True False search_static = (v, b', s')"
    by (rule prod_cases3)
  have "\<bar>s_history s' WHITE 12 28\<bar> \<le> 16384"
    by (rule alpha_beta_history_bound [OF duel_gen_inv _ _ _ r]) (simp_all add: duel_classic search_static_def)
  then show ?thesis by (simp add: r)
qed

end
