(* ===== verification/Think.thy ===== *)
theory Think
  imports SearchFrame
begin

text \<open>
  The root of the search, \<open>search_think\<close> of \<open>search.c\<close>: iterative deepening with aspiration windows, and
  the choice of the move to play by skill level.  The jump to \<open>done\<close> when the search is stopped is
  \<open>Inl\<close>.  The endless loop of the aspiration window is a function with a termination proof: a window
  that fails is widened, and a side of it that fails with a margin over 500 becomes infinite.  The
  debug output is left out.
\<close>

section \<open>Root moves\<close>

definition root_call :: "ZobState \<Rightarrow> (nat \<Rightarrow> int) \<Rightarrow> bool \<Rightarrow> int \<Rightarrow> int \<Rightarrow> int \<Rightarrow> Board \<Rightarrow> SearchState \<Rightarrow> result" where
  "root_call Z now same_turn depth lo hi b s =
     (if same_turn then alpha_beta Z now b depth lo hi 1 True True s
      else case alpha_beta Z now b depth (- hi) (- lo) 1 True True s of (v, b, s) \<Rightarrow> (- v, b, s))"

definition root_try :: "ZobState \<Rightarrow> (nat \<Rightarrow> int) \<Rightarrow> int \<Rightarrow> int \<Rightarrow> int \<Rightarrow> bool \<Rightarrow> Move \<Rightarrow> Board \<Rightarrow> SearchState \<Rightarrow> result" where
  "root_try Z now depth al be root_in_check m b s =
     (let mover = side b; b = board_make_move Z b m; same_turn = (side b = mover);
          ext = (if root_in_check \<or> board_in_check b (if same_turn then color_opposite mover else side b) then 1 else 0) in
      case root_call Z now same_turn (depth - 1 + ext) al be b s of (score, b, s) \<Rightarrow>
        case (if (score \<le> al \<or> score \<ge> be) \<and> (al > - INFINITY_SCORE \<or> be < INFINITY_SCORE)
              then root_call Z now same_turn (depth - 1 + ext) (- INFINITY_SCORE) INFINITY_SCORE b s
              else (score, b, s)) of (score, b, s) \<Rightarrow> (score, board_unmake_move b, s))"

text \<open>The loop over the root moves, with the moves and scores so far, the best score and its move.\<close>

primrec root_loop :: "ZobState \<Rightarrow> (nat \<Rightarrow> int) \<Rightarrow> int \<Rightarrow> int \<Rightarrow> int \<Rightarrow> bool \<Rightarrow> Move list \<Rightarrow>
    (Move \<times> int) list \<Rightarrow> int \<Rightarrow> Move \<Rightarrow> Board \<Rightarrow> SearchState \<Rightarrow>
    Board \<times> SearchState + (Move \<times> int) list \<times> int \<times> Move \<times> Board \<times> SearchState" where
  "root_loop Z now depth al be chk [] tmp best_rs best_rm b s = Inr (tmp, best_rs, best_rm, b, s)"
| "root_loop Z now depth al be chk (m # ms) tmp best_rs best_rm b s =
     (case root_try Z now depth al be chk m b s of (score, b, s) \<Rightarrow>
        if s_stopped s then Inl (b, s)
        else root_loop Z now depth al be chk ms (tmp @ [(m, score)])
          (if score > best_rs then score else best_rs) (if score > best_rs then m else best_rm) b s)"


section \<open>Aspiration windows\<close>

text \<open>\<open>asp\<close> starts at 25 and only doubles; the test that it is positive always holds.\<close>

definition widen :: "int \<Rightarrow> int \<Rightarrow> int \<Rightarrow> int" where
  "widen asp bound unbounded = (if asp > 500 then unbounded else bound)"

function (sequential) aspire :: "ZobState \<Rightarrow> (nat \<Rightarrow> int) \<Rightarrow> int \<Rightarrow> Move \<Rightarrow> MoveList \<Rightarrow> int \<Rightarrow> int \<Rightarrow> int \<Rightarrow> Board \<Rightarrow> SearchState \<Rightarrow>
    Board \<times> SearchState + (Move \<times> int) list \<times> int \<times> Move \<times> Board \<times> SearchState" where
  "aspire Z now depth best ml asp al be b s =
     (let ml = order_moves Z s b ml best 0 (side b) MOVE_NONE in
      case root_loop Z now depth al be (board_in_check b (side b)) ml [] (- INFINITY_SCORE) MOVE_NONE b s of
        Inl r \<Rightarrow> Inl r
      | Inr (tmp, best_rs, best_rm, b, s) \<Rightarrow>
          if asp > 0 \<and> best_rs \<le> al \<and> al > - INFINITY_SCORE then
            aspire Z now depth best ml (asp * 2) (widen (asp * 2) (best_rs - asp * 2) (- INFINITY_SCORE)) be b s
          else if asp > 0 \<and> best_rs \<ge> be \<and> be < INFINITY_SCORE then
            aspire Z now depth best ml (asp * 2) al (widen (asp * 2) (best_rs + asp * 2) INFINITY_SCORE) b s
          else Inr (tmp, best_rs, best_rm, b, s))"
  by pat_completeness auto

termination
proof (relation "measures [\<lambda>(Z, now, depth, best, ml, asp, al, be, b, s).
      (if al > - INFINITY_SCORE then 1 else 0) + (if be < INFINITY_SCORE then 1 else 0),
    \<lambda>(Z, now, depth, best, ml, asp, al, be, b, s). nat (1000 - asp)]", goal_cases)
qed (auto simp: widen_def)

declare aspire.simps [simp del]


section \<open>Iterative deepening\<close>

record SearchResult =
  r_best_move :: Move
  r_score :: int
  r_depth :: int
  r_nodes :: int

text \<open>One completed depth: its scores become the root moves, and its best move the result.\<close>

definition iterate :: "ZobState \<Rightarrow> (nat \<Rightarrow> int) \<Rightarrow> int \<Rightarrow> MoveList \<Rightarrow> SearchResult \<Rightarrow> Board \<Rightarrow> SearchState \<Rightarrow>
    Board \<times> SearchState + SearchResult \<times> Board \<times> SearchState" where
  "iterate Z now depth ml result b s =
     (let asp = 25; narrow = (depth \<ge> 4 \<and> \<not> is_mate (r_score result));
          al = (if narrow then r_score result - asp else - INFINITY_SCORE);
          be = (if narrow then r_score result + asp else INFINITY_SCORE) in
      case aspire Z now depth (r_best_move result) ml asp al be b s of
        Inl r \<Rightarrow> Inl r
      | Inr (tmp, best_rs, best_rm, b, s) \<Rightarrow>
          Inr (\<lparr> r_best_move = best_rm, r_score = best_rs, r_depth = depth, r_nodes = s_nodes s \<rparr>, b,
               s \<lparr> s_root := tmp \<rparr>))"

primrec deepen :: "ZobState \<Rightarrow> (nat \<Rightarrow> int) \<Rightarrow> int list \<Rightarrow> SearchResult \<Rightarrow> Board \<Rightarrow> SearchState \<Rightarrow> SearchResult \<times> Board \<times> SearchState" where
  "deepen Z now [] result b s = (result, b, s)"
| "deepen Z now (depth # ds) result b s =
     (let ml = generate_moves Z b in
      if length ml = 0 then (result, b, s)
      else case iterate Z now depth ml result b s of
        Inl (b, s) \<Rightarrow> (result, b, s)
      | Inr (result, b, s) \<Rightarrow> if is_mate (r_score result) then (result, b, s) else deepen Z now ds result b s)"


section \<open>Choice of the move\<close>

definition SKILL_MARGIN :: "int list" where
  "SKILL_MARGIN = [80, 50, 30, 15, 0]"

definition is_opening :: "Board \<Rightarrow> bool" where
  "is_opening b =
     (case game_mod b of
        MOD_MERCENARY \<Rightarrow> fullmove b \<le> 6
      | MOD_HEIR \<Rightarrow> fullmove b \<le> 5
      | MOD_TRUCE \<Rightarrow> fullmove b \<le> 8
      | MOD_KINGS_BATTLE \<Rightarrow> fullmove b \<le> 6
      | MOD_SAVE_QUEEN \<Rightarrow> fullmove b \<le> 5
      | MOD_SUCCESSION \<Rightarrow> fullmove b \<le> 5
      | _ \<Rightarrow> fullmove b \<le> 4)"

definition top_score :: "(Move \<times> int) list \<Rightarrow> int" where
  "top_score xs = fold (\<lambda>x best. if snd x > best then snd x else best) xs (- INFINITY_SCORE)"

definition skill_margin :: "int \<Rightarrow> Board \<Rightarrow> int" where
  "skill_margin skill b =
     (let margin = SKILL_MARGIN ! nat skill;
          margin = (if is_opening b \<and> skill < 4 then max margin 10 else margin)
      in if skill = 4 then max margin (search_kb_full_skill_variety_margin b) else margin)"

definition skill_band :: "int \<Rightarrow> Board \<Rightarrow> int" where
  "skill_band skill b = (if skill = 4 then max 3 (search_kb_full_skill_tiebreak_band b) else 3)"

definition cand_weight :: "int \<Rightarrow> int \<Rightarrow> int" where
  "cand_weight base score = (let w = score - base + 1 in if w < 1 then 1 else w)"

primrec pick_weighted :: "int \<Rightarrow> int \<Rightarrow> int \<Rightarrow> (Move \<times> int) list \<Rightarrow> Move \<Rightarrow> Move" where
  "pick_weighted base pick cum [] best = best"
| "pick_weighted base pick cum (x # xs) best =
     (let cum = cum + cand_weight base (snd x) in
      if pick < cum then fst x else pick_weighted base pick cum xs best)"

definition choose_move :: "Board \<Rightarrow> SearchResult \<Rightarrow> SearchState \<Rightarrow> SearchResult \<times> SearchState" where
  "choose_move b result s =
     (let skill = s_skill_level s; root = s_root s in
      if length root > 1 \<and> \<not> is_mate (r_score result) then
        let best_root = top_score root;
            margin = skill_margin skill b;
            cands = filter (\<lambda>x. best_root - snd x \<le> margin) root in
        if margin > 0 \<and> length cands > 1 then
          if skill \<ge> 3 then
            let top_sc = top_score cands;
                top_moves = map fst (filter (\<lambda>x. top_sc - snd x \<le> skill_band skill b) cands) in
            if length top_moves > 0 then
              case rng_range (int (length top_moves)) s of (i, s) \<Rightarrow> (result \<lparr> r_best_move := top_moves ! nat i \<rparr>, s)
            else (result, s)
          else
            let base = best_root - margin;
                total_w = sum_list (map (\<lambda>x. cand_weight base (snd x)) cands) in
            case rng_range total_w s of (pick, s) \<Rightarrow>
              (result \<lparr> r_best_move := pick_weighted base pick 0 cands (r_best_move result) \<rparr>, s)
        else (result, s)
      else (result, s))"


section \<open>The search\<close>

definition read_clock :: "(nat \<Rightarrow> int) \<Rightarrow> SearchState \<Rightarrow> int \<times> SearchState" where
  "read_clock now s = (now (s_clock s), s \<lparr> s_clock := s_clock s + 1 \<rparr>)"

definition think_setup :: "(nat \<Rightarrow> int) \<Rightarrow> Board \<Rightarrow> int \<Rightarrow> int \<Rightarrow> SearchState \<Rightarrow> SearchState" where
  "think_setup now b time_ms skill_level s =
     (let s = (if tt_entries (s_tt s) = None then s \<lparr> s_tt := tt_alloc 16 \<rparr> else s);
          s = search_reset False s;
          (t, s) = read_clock now s;
          s = s \<lparr> s_deadline_ms := t + time_ms \<rparr>;
          s = s \<lparr> s_skill_level := (if skill_level < 0 then 0 else if skill_level > 4 then 4 else skill_level) \<rparr>;
          (t, s) = read_clock now s;
          s = s \<lparr> s_search_nonce := s_search_nonce s + 1 \<rparr>;
          s = s \<lparr> s_rng := hash b XOR word_of_int t XOR push_bit 32 (word_of_int (fullmove b)) XOR
                     (s_search_nonce s * 0x9e3779b97f4a7c15) \<rparr>
      in s \<lparr> s_prev_skill := s_skill_level s \<rparr>)"

definition depth_limit :: "int \<Rightarrow> int" where
  "depth_limit max_depth = (if max_depth > 0 \<and> max_depth < MAX_PLY then max_depth else MAX_PLY)"

definition no_result :: SearchResult where
  "no_result = \<lparr> r_best_move = MOVE_NONE, r_score = 0, r_depth = 0, r_nodes = 0 \<rparr>"

definition search_think :: "ZobState \<Rightarrow> (nat \<Rightarrow> int) \<Rightarrow> Board \<Rightarrow> int \<Rightarrow> int \<Rightarrow> int \<Rightarrow> SearchState \<Rightarrow>
    SearchResult \<times> ZobState \<times> Board \<times> SearchState" where
  "search_think Z now b time_ms max_depth skill_level s =
     (let Z = zobrist_init Z;
          s = think_setup now b time_ms skill_level s in
      case deepen Z now [1..depth_limit max_depth] no_result b s of (result, b, s) \<Rightarrow>
        case choose_move b result s of (result, s) \<Rightarrow> (result, Z, b, s))"



section \<open>What the root keeps\<close>

context search_frame
begin

lemma root_call_keeps:
  assumes "playable b" "d \<le> 65" "root_call Z now same d lo hi b s = (v, b', s')"
  shows "keeps b s (b', s')"
proof -
  have "keeps b s (b', s')" if "alpha_beta Z now b d lo hi 1 True True s = (v, b', s')" for lo hi v b' s'
    using assms(2) by (intro s_okD [OF alpha_beta_ok assms(1) _ that]) simp
  then show ?thesis using assms(3) by (auto simp: root_call_def split: prod.splits if_splits)
qed

lemma root_try_keeps:
  assumes "playable b" "gen_ok b m" "depth \<le> 64"
  shows "keeps b s (snd (root_try Z now depth al be chk m b s))"
proof -
  let ?b = "board_make_move Z b m"
  define same where "same = (side ?b = side b)"
  define d where "d = depth - 1 + (if chk \<or> board_in_check ?b (if same then color_opposite (side b) else side ?b) then 1 else 0)"
  note p = playable_make [OF assms(1,2), of Z]
  have d: "d \<le> 65" using assms(3) by (simp add: d_def)
  obtain v1 b1 s1 where c1: "root_call Z now same d al be ?b s = (v1, b1, s1)" by (rule prod_cases3)
  define r2 where "r2 = (if (v1 \<le> al \<or> v1 \<ge> be) \<and> (al > - INFINITY_SCORE \<or> be < INFINITY_SCORE)
    then root_call Z now same d (- INFINITY_SCORE) INFINITY_SCORE b1 s1 else (v1, b1, s1))"
  obtain v2 b2 s2 where c2: "r2 = (v2, b2, s2)" by (rule prod_cases3)
  note k1 = root_call_keeps [OF p d c1]
  have p1: "playable b1" using p playable_live [OF keepsD(1) [OF k1]] by simp
  have "keeps ?b s (b2, s2)"
    using c2 k1 keeps_trans [OF k1 root_call_keeps [OF p1 d]] by (auto simp: r2_def split: if_splits)
  from keeps_unmake [OF assms(1,2) this] show ?thesis
    unfolding root_try_def Let_def same_def [symmetric] d_def [symmetric] c1 prod.case r2_def [symmetric] c2 by simp
qed

lemma root_loop_keeps:
  assumes "playable b0" "depth \<le> 64" "\<forall>m \<in> set ms. gen_ok b0 m" "keeps b0 s0 (b, s)"
  shows "keeps b0 s0 (case root_loop Z now depth al be chk ms tmp rs rm b s of Inl r \<Rightarrow> r | Inr r \<Rightarrow> snd (snd (snd r)))"
  using assms(3,4)
proof (induction ms arbitrary: tmp rs rm b s)
  case Nil
  then show ?case by simp
next
  case (Cons m ms)
  note l = keepsD(1) [OF Cons.prems(2)]
  obtain v b' s' where t: "root_try Z now depth al be chk m b s = (v, b', s')" by (rule prod_cases3)
  have "keeps b s (b', s')"
    using root_try_keeps [of b m depth s Z al be chk] assms(1,2) Cons.prems(1) playable_live [OF l] gen_ok_live [OF l]
    by (simp add: t)
  note k = keeps_trans [OF Cons.prems(2) this]
  show ?case using k Cons.IH [OF _ k] Cons.prems(1) by (simp add: t)
qed

lemma aspire_keeps_at:
  assumes "nw = now" "playable b0" "depth \<le> 64" "\<forall>m \<in> set ml. gen_ok b0 m" "keeps b0 s0 (b, s)"
  shows "keeps b0 s0 (case aspire Z nw depth best ml asp al be b s of Inl r \<Rightarrow> r | Inr r \<Rightarrow> snd (snd (snd r)))"
  using assms
proof (induction Z nw depth best ml asp al be b s rule: aspire.induct)
  case (1 Z nw depth best ml asp al be b s)
  define ml' where "ml' = order_moves Z s b ml best 0 (side b) MOVE_NONE"
  define r where "r = root_loop Z nw depth al be (board_in_check b (side b)) ml' [] (- INFINITY_SCORE) MOVE_NONE b s"
  have ok: "\<forall>m \<in> set ml'. gen_ok b0 m" using "1.prems"(4) by (simp add: ml'_def)
  have k: "keeps b0 s0 (case r of Inl r \<Rightarrow> r | Inr r \<Rightarrow> snd (snd (snd r)))"
    unfolding r_def "1.prems"(1) by (rule root_loop_keeps [OF "1.prems"(2,3) ok "1.prems"(5)])
  show ?case
  proof (cases r)
    case (Inl x)
    then show ?thesis using k by (subst aspire.simps) (simp add: ml'_def [symmetric] r_def [symmetric] Let_def)
  next
    case (Inr y)
    obtain tmp rs rm b' s' where y: "y = (tmp, rs, rm, b', s')" by (metis prod_cases5)
    note IH = "1.IH" [OF ml'_def, folded r_def, OF Inr y [symmetric] refl refl refl]
    have k': "keeps b0 s0 (b', s')" using k Inr y by simp
    show ?thesis
      using k' IH(1) [OF _ "1.prems"(1-3) ok k'] IH(2) [OF _ _ "1.prems"(1-3) ok k'] Inr y
      by (subst aspire.simps) (simp add: ml'_def [symmetric] r_def [symmetric] Let_def)
  qed
qed

lemmas aspire_keeps = aspire_keeps_at [OF refl]

end



section \<open>What the root returns\<close>

lemma root_loop_moves:
  assumes "root_loop Z now depth al be chk ms tmp rs rm b s = Inr (tmp', rs', rm', b', s')"
  shows "map fst tmp' = map fst tmp @ ms \<and> (rm' \<in> set ms \<or> rm' = rm \<and> rs' = rs) \<and> (s_stopped s' \<longrightarrow> s_stopped s)"
  using assms
proof (induction ms arbitrary: tmp rs rm b s)
  case (Cons m ms)
  obtain v b1 s1 where t: "root_try Z now depth al be chk m b s = (v, b1, s1)" by (rule prod_cases3)
  have n: "\<not> s_stopped s1" using Cons.prems t by (auto split: if_splits)
  have "root_loop Z now depth al be chk ms (tmp @ [(m, v)]) (if v > rs then v else rs) (if v > rs then m else rm) b1 s1 =
      Inr (tmp', rs', rm', b', s')"
    using Cons.prems t n by simp
  from Cons.IH [OF this] n show ?case by (auto split: if_splits)
qed simp

lemma root_loop_stopped: "root_loop Z now depth al be chk ms tmp rs rm b s = Inl (b', s') \<Longrightarrow> s_stopped s'"
  by (induction ms arbitrary: tmp rs rm b s) (auto split: prod.splits if_splits)

lemma aspire_moves:
  "(\<forall>b' s'. aspire Z now depth best ml asp al be b s = Inl (b', s') \<longrightarrow> s_stopped s') \<and>
   (\<forall>tmp rs rm b' s'. aspire Z now depth best ml asp al be b s = Inr (tmp, rs, rm, b', s') \<longrightarrow>
     set (map fst tmp) = set ml \<and> length tmp = length ml \<and>
     (rm \<in> set ml \<or> rm = MOVE_NONE \<and> rs = - INFINITY_SCORE) \<and> (s_stopped s' \<longrightarrow> s_stopped s))"
proof (induction Z "now" depth best ml asp al be b s rule: aspire.induct)
  case (1 Z "now" depth best ml asp al be b s)
  define ml' where "ml' = order_moves Z s b ml best 0 (side b) MOVE_NONE"
  define r where "r = root_loop Z now depth al be (board_in_check b (side b)) ml' [] (- INFINITY_SCORE) MOVE_NONE b s"
  have ml': "set ml' = set ml" "length ml' = length ml" by (simp_all add: ml'_def)
  show ?case
  proof (cases r)
    case (Inl x)
    then have "aspire Z now depth best ml asp al be b s = Inl x"
      by (subst aspire.simps) (simp add: ml'_def [symmetric] r_def [symmetric] Let_def)
    moreover have "s_stopped (snd x)"
      using root_loop_stopped Inl unfolding r_def by (metis prod.collapse)
    ultimately show ?thesis by auto
  next
    case (Inr y)
    obtain tmp rs rm b' s' where y: "y = (tmp, rs, rm, b', s')" by (metis prod_cases5)
    note IH = "1.IH" [OF ml'_def, folded r_def, OF Inr y [symmetric] refl refl refl]
    have m: "map fst tmp = ml'" "rm \<in> set ml' \<or> rm = MOVE_NONE \<and> rs = - INFINITY_SCORE" and st: "s_stopped s' \<longrightarrow> s_stopped s"
      using root_loop_moves [of Z "now" depth al be _ ml' "[]" _ _ b s tmp rs rm b' s'] Inr y by (auto simp: r_def)
    have "length tmp = length ml" "set (map fst tmp) = set ml"
      using m(1) ml' by (metis length_map, simp)
    note fin = this m(2) [unfolded ml'] st
    consider (lo) "0 < asp \<and> rs \<le> al \<and> - INFINITY_SCORE < al"
      | (hi) "\<not> (0 < asp \<and> rs \<le> al \<and> - INFINITY_SCORE < al)" "0 < asp \<and> be \<le> rs \<and> be < INFINITY_SCORE"
      | (fits) "\<not> (0 < asp \<and> rs \<le> al \<and> - INFINITY_SCORE < al)" "\<not> (0 < asp \<and> be \<le> rs \<and> be < INFINITY_SCORE)"
      by blast
    then show ?thesis
    proof cases
      case lo
      have "aspire Z now depth best ml asp al be b s =
          aspire Z now depth best ml' (asp * 2) (widen (asp * 2) (rs - asp * 2) (- INFINITY_SCORE)) be b' s'"
        using lo Inr y by (subst aspire.simps) (simp add: ml'_def [symmetric] r_def [symmetric] Let_def)
      then show ?thesis using IH(1) [OF lo] st unfolding ml' by metis
    next
      case hi
      have "aspire Z now depth best ml asp al be b s =
          aspire Z now depth best ml' (asp * 2) al (widen (asp * 2) (rs + asp * 2) INFINITY_SCORE) b' s'"
        using hi Inr y by (subst aspire.simps) (simp only: ml'_def [symmetric] r_def [symmetric] Let_def sum.case prod.case if_False if_True simp_thms)
      then show ?thesis using IH(2) [OF hi] st unfolding ml' by metis
    next
      case fits
      have "aspire Z now depth best ml asp al be b s = Inr y"
        using fits Inr y by (subst aspire.simps) (simp only: ml'_def [symmetric] r_def [symmetric] Let_def sum.case prod.case if_False)
      then show ?thesis using fin y by simp
    qed
  qed
qed

definition root_ok :: "ZobState \<Rightarrow> Board \<Rightarrow> SearchState \<Rightarrow> bool" where
  "root_ok Z b s \<longleftrightarrow> fst ` set (s_root s) \<subseteq> set (generate_moves Z b) \<and> length (s_root s) \<le> MAX_MOVES"

definition result_ok :: "ZobState \<Rightarrow> Board \<Rightarrow> SearchResult \<Rightarrow> bool" where
  "result_ok Z b r \<longleftrightarrow>
     r_best_move r \<in> set (generate_moves Z b) \<or>
     r_best_move r = MOVE_NONE \<and> (r_depth r = 0 \<or> r_score r = - INFINITY_SCORE)"

lemma generate_moves_length: "gen_inv b \<Longrightarrow> length (generate_moves Z b) \<le> MAX_MOVES"
  unfolding generate_moves_filter by (rule order_trans [OF length_filter_le pseudo_length(1)])


text \<open>
  One iteration from a board that the earlier ones gave back, with the frames of the search.
\<close>

lemma iterate_cases:
  assumes "playable b0" "live_eq b0 b" "d \<le> 64"
  shows "case iterate Z now d (generate_moves Z b0) r b s of
      Inl (b', s') \<Rightarrow> live_eq b0 b' \<and> same_setup s s' \<and> stop_reason now s s' \<and> (history_ok s \<longrightarrow> history_ok s') \<and> s_stopped s'
    | Inr (r', b', s') \<Rightarrow> live_eq b0 b' \<and> s_skill_level s' = s_skill_level s \<and> stop_reason now s s' \<and>
        (history_ok s \<longrightarrow> history_ok s') \<and> (s_stopped s' \<longrightarrow> s_stopped s) \<and>
        root_ok Z b0 s' \<and> result_ok Z b0 r' \<and> r_depth r' = d"
proof -
  have inv: "gen_inv b0" using assms(1) by (simp add: playable_def)
  define narrow where "narrow = (d \<ge> 4 \<and> \<not> is_mate (r_score r))"
  define A where "A = aspire Z now d (r_best_move r) (generate_moves Z b0) 25
    (if narrow then r_score r - 25 else - INFINITY_SCORE) (if narrow then r_score r + 25 else INFINITY_SCORE) b s"
  note ok = generated_ok(1) [OF assms(1), of Z]
  have k: "kept_setup.keeps b0 s (case A of Inl r \<Rightarrow> r | Inr r \<Rightarrow> snd (snd (snd r)))"
    "bounded_history.keeps b0 s (case A of Inl r \<Rightarrow> r | Inr r \<Rightarrow> snd (snd (snd r)))"
    "stopping.keeps now b0 s (case A of Inl r \<Rightarrow> r | Inr r \<Rightarrow> snd (snd (snd r)))"
    unfolding A_def
    by (rule kept_setup.aspire_keeps bounded_history.aspire_keeps stopping.aspire_keeps;
        use assms ok in \<open>simp add: kept_setup.keeps_def bounded_history.keeps_def stopping.keeps_def
          kept_setup.R_refl stopping.R_refl\<close>)+
  note k = k [unfolded kept_setup.keeps_def bounded_history.keeps_def stopping.keeps_def]
  have e: "iterate Z now d (generate_moves Z b0) r b s = (case A of Inl r \<Rightarrow> Inl r
      | Inr (tmp, best_rs, best_rm, b, s) \<Rightarrow>
          Inr (\<lparr> r_best_move = best_rm, r_score = best_rs, r_depth = d, r_nodes = s_nodes s \<rparr>, b, s \<lparr> s_root := tmp \<rparr>))"
    by (simp only: iterate_def Let_def narrow_def A_def)
  note m = aspire_moves [of Z "now" d "r_best_move r" "generate_moves Z b0" 25
      "if narrow then r_score r - 25 else - INFINITY_SCORE" "if narrow then r_score r + 25 else INFINITY_SCORE" b s,
      folded A_def]
  show ?thesis
  proof (cases A)
    case (Inl x)
    then show ?thesis using k m by (cases x) (simp add: e)
  next
    case (Inr y)
    obtain tmp rs rm b1 s1 where y: "y = (tmp, rs, rm, b1, s1)" by (metis prod_cases5)
    have "fst ` set tmp = set (generate_moves Z b0)" "length tmp = length (generate_moves Z b0)"
      "rm \<in> set (generate_moves Z b0) \<or> rm = MOVE_NONE \<and> rs = - INFINITY_SCORE" "s_stopped s1 \<longrightarrow> s_stopped s"
      using m Inr y by simp_all
    then show ?thesis
      using k Inr y generate_moves_length [OF inv, of Z]
      by (auto simp: e root_ok_def result_ok_def same_setup_def stop_reason_def history_ok_def)
  qed
qed

text \<open>Whatever a completed or interrupted search leaves, move and root list are legal moves.\<close>

lemma deepen_result:
  assumes "playable b0" "live_eq b0 b" "\<forall>d \<in> set ds. d \<le> 64" "root_ok Z b0 s" "result_ok Z b0 r"
    and "deepen Z now ds r b s = (r', b', s')"
  shows "live_eq b0 b' \<and> root_ok Z b0 s' \<and> result_ok Z b0 r' \<and> s_skill_level s' = s_skill_level s \<and>
    stop_reason now s s' \<and> (history_ok s \<longrightarrow> history_ok s')"
  using assms(2-6)
proof (induction ds arbitrary: r b s)
  case Nil
  then show ?case by (simp add: stopping.R_refl)
next
  case (Cons d ds)
  have g: "generate_moves Z b = generate_moves Z b0"
    using generate_moves_live [OF _ Cons.prems(1)] assms(1) by (simp add: playable_def)
  note i = iterate_cases [OF assms(1) Cons.prems(1), where d = d and Z = Z and now = "now" and r = r and s = s]
  consider (none) "generate_moves Z b0 = []"
    | (stop) b1 s1 where "generate_moves Z b0 \<noteq> []" "iterate Z now d (generate_moves Z b0) r b s = Inl (b1, s1)"
    | (more) r1 b1 s1 where "generate_moves Z b0 \<noteq> []" "iterate Z now d (generate_moves Z b0) r b s = Inr (r1, b1, s1)"
    by (metis sumE prod.exhaust)
  then show ?case
  proof cases
    case none
    then show ?thesis using Cons.prems by (simp add: g stopping.R_refl)
  next
    case stop
    then have "r' = r" "b' = b1" "s' = s1" using Cons.prems(5) by (simp_all add: g)
    then show ?thesis using i stop Cons.prems(2-4) by (simp add: same_setup_def root_ok_def)
  next
    case more
    have e: "deepen Z now (d # ds) r b s = (if is_mate (r_score r1) then (r1, b1, s1) else deepen Z now ds r1 b1 s1)"
      using more by (simp add: g)
    have f: "live_eq b0 b1" "root_ok Z b0 s1" "result_ok Z b0 r1" "s_skill_level s1 = s_skill_level s"
      "stop_reason now s s1" "history_ok s \<longrightarrow> history_ok s1"
      using i more Cons.prems(2) by simp_all
    show ?thesis
      using e f Cons.prems(2,5) Cons.IH [OF f(1) _ f(2,3)] stop_reason_trans [OF f(5)] by (auto split: if_splits)
  qed
qed

text \<open>Without a stop, the iterations run to the end, to a mate score or to a position without moves.\<close>

lemma deepen_complete:
  assumes "playable b0" "live_eq b0 b" "\<forall>d \<in> set ds. d \<le> 64" "root_ok Z b0 s" "result_ok Z b0 r"
    and "deepen Z now ds r b s = (r', b', s')" "\<not> s_stopped s"
    and "s_nodes s' \<le> MAX_NODES" "\<forall>i \<ge> s_clock s. now i < s_deadline_ms s"
  shows "\<not> s_stopped s' \<and> (generate_moves Z b0 = [] \<or> is_mate (r_score r') \<or> r_depth r' = last (r_depth r # ds))"
  using assms(2-9)
proof (induction ds arbitrary: r b s)
  case Nil
  then show ?case by simp
next
  case (Cons d ds)
  have g: "generate_moves Z b = generate_moves Z b0"
    using generate_moves_live [OF _ Cons.prems(1)] assms(1) by (simp add: playable_def)
  have d: "d \<le> 64" using Cons.prems(2) by simp
  note i = iterate_cases [OF assms(1) Cons.prems(1) d, where Z = Z and now = "now" and r = r and s = s]
  show ?case
  proof (cases "generate_moves Z b0 = []")
    case True
    then show ?thesis using Cons.prems by (simp add: g)
  next
    case False
    show ?thesis
    proof (cases "iterate Z now d (generate_moves Z b0) r b s")
      case (Inl x)
      then have "(r', b', s') = (r, x)" using Cons.prems(5) False by (simp add: g split: prod.splits)
      then have "stop_reason now s s'" "s_stopped s'" using i Inl by (auto split: prod.splits)
      then show ?thesis using Cons.prems(6-8) by (auto simp: stop_reason_def not_less)
    next
      case (Inr y)
      obtain r1 b1 s1 where y: "y = (r1, b1, s1)" by (rule prod_cases3)
      have e: "deepen Z now (d # ds) r b s = (if is_mate (r_score r1) then (r1, b1, s1) else deepen Z now ds r1 b1 s1)"
        using False Inr y by (simp add: g)
      have f: "live_eq b0 b1" "root_ok Z b0 s1" "result_ok Z b0 r1" "stop_reason now s s1" "\<not> s_stopped s1" "r_depth r1 = d"
        using i Inr y Cons.prems(6) by auto
      have "\<forall>i \<ge> s_clock s1. now i < s_deadline_ms s1" using f(4) Cons.prems(8) by (auto simp: stop_reason_def)
      then show ?thesis
        using e f Cons.prems(2,5,7) Cons.IH [OF f(1) _ f(2,3) _ f(5)] by (auto split: if_splits)
    qed
  qed
qed

end
