(* ===== verification/RootSearch.thy ===== *)
theory RootSearch
  imports Think
begin

text \<open>
  What \<open>search_think\<close> (search.c) returns: the move is a legal one of the root, chosen within the margin
  of the skill level; the board is the one given; a search that is not cut off reaches the depth asked for.
\<close>

section \<open>The choice of the move\<close>

lemma top_score_fold:
  fixes v :: int and xs :: "(Move \<times> int) list"
  shows
  "\<forall>x \<in> set xs. snd x \<le> fold (\<lambda>x best. if snd x > best then snd x else best) xs v"
  "v \<le> fold (\<lambda>x best. if snd x > best then snd x else best) xs v"
  "fold (\<lambda>x best. if snd x > best then snd x else best) xs v = v \<or>
   (\<exists>x \<in> set xs. snd x = fold (\<lambda>x best. if snd x > best then snd x else best) xs v)"
proof (induction xs arbitrary: v)
  case (Cons x xs)
  { case 1 show ?case using Cons(1,2) [of "snd x"] Cons(1,2) [of v] by (cases "snd x > v") auto
  next
    case 2 show ?case using Cons(2) [of "snd x"] Cons(2) [of v] by (cases "snd x > v") auto
  next
    case 3 show ?case using Cons(3) [of "snd x"] Cons(3) [of v] by (cases "snd x > v") auto }
qed simp_all

lemma top_score_ge: "x \<in> set xs \<Longrightarrow> snd x \<le> top_score xs"
  using top_score_fold(1) by (auto simp: top_score_def)

lemma top_score_least: "- INFINITY_SCORE \<le> top_score xs"
  using top_score_fold(2) by (simp add: top_score_def)

lemma top_score_attained: "top_score xs = - INFINITY_SCORE \<or> (\<exists>x \<in> set xs. snd x = top_score xs)"
  unfolding top_score_def by (rule top_score_fold(3))

text \<open>The candidates within a margin of the best have the same best.\<close>

lemma top_score_candidates:
  assumes "0 \<le> margin"
  shows "top_score (filter (\<lambda>x. top_score xs - snd x \<le> margin) xs) = top_score xs" (is "top_score ?c = _")
proof (rule antisym)
  show "top_score ?c \<le> top_score xs"
    using top_score_attained [of ?c] top_score_least [of xs] top_score_ge [of _ xs] by auto
  show "top_score xs \<le> top_score ?c"
    using top_score_attained [of xs]
  proof
    assume "\<exists>x \<in> set xs. snd x = top_score xs"
    then obtain x where x: "x \<in> set xs" "snd x = top_score xs" by blast
    then have "x \<in> set ?c" using assms by simp
    then show ?thesis using top_score_ge x(2) by metis
  qed (simp add: top_score_least)
qed

lemma pick_weighted_mem:
  "pick < cum + sum_list (map (\<lambda>x. cand_weight base (snd x)) xs) \<Longrightarrow> cum \<le> pick \<Longrightarrow>
     pick_weighted base pick cum xs best \<in> fst ` set xs"
proof (induction xs arbitrary: cum)
  case (Cons x xs)
  show ?case
  proof (cases "pick < cum + cand_weight base (snd x)")
    case False
    then show ?thesis using Cons.IH [of "cum + cand_weight base (snd x)"] Cons.prems by (simp add: Let_def add.assoc)
  qed (simp add: Let_def)
qed simp

lemma cand_weight_range: "base \<le> sc \<Longrightarrow> sc \<le> base + margin \<Longrightarrow> 1 \<le> cand_weight base sc \<and> cand_weight base sc \<le> margin + 1"
  by (simp add: cand_weight_def Let_def)

lemma sum_weights_range:
  assumes "\<forall>x \<in> set xs. 1 \<le> w x \<and> w x \<le> (k :: int)"
  shows "int (length xs) \<le> sum_list (map w xs) \<and> sum_list (map w xs) \<le> int (length xs) * k"
  using assms by (induction xs) (auto simp: algebra_simps)

lemma skill_margin_range:
  assumes "0 \<le> skill" "skill \<le> 4"
  shows "0 \<le> skill_margin skill b" "skill_margin skill b \<le> 80"
proof -
  have "skill = 0 \<or> skill = 1 \<or> skill = 2 \<or> skill = 3 \<or> skill = 4" using assms by auto
  then show "0 \<le> skill_margin skill b" "skill_margin skill b \<le> 80"
    by (auto simp: skill_margin_def SKILL_MARGIN_def search_kb_full_skill_variety_margin_def Let_def)
qed

text \<open>
  What \<open>choose_move\<close> may do: nothing, or replace the best move by a root move close to the best.
\<close>

definition near_best :: "Board \<Rightarrow> SearchState \<Rightarrow> Move \<Rightarrow> bool" where
  "near_best b s m \<longleftrightarrow> (\<exists>sc. (m, sc) \<in> set (s_root s) \<and>
     top_score (s_root s) - sc \<le> skill_margin (s_skill_level s) b \<and>
     (s_skill_level s \<ge> 3 \<longrightarrow> top_score (s_root s) - sc \<le> skill_band (s_skill_level s) b))"

lemma choose_move_unfold:
  fixes b s
  defines "root \<equiv> s_root s" and "skill \<equiv> s_skill_level s"
  defines "best \<equiv> top_score root" and "margin \<equiv> skill_margin skill b"
  defines "cands \<equiv> filter (\<lambda>x. best - snd x \<le> margin) root"
  defines "tops \<equiv> map fst (filter (\<lambda>x. top_score cands - snd x \<le> skill_band skill b) cands)"
  defines "wsum \<equiv> sum_list (map (\<lambda>x. cand_weight (best - margin) (snd x)) cands)"
  assumes "choose_move b r s = (r', s')"
  obtains "r' = r" "s' = s"
    | i where "skill \<ge> 3" "length tops > 0" "rng_range (int (length tops)) s = (i, s')"
        "r' = r \<lparr> r_best_move := tops ! nat i \<rparr>"
    | i where "\<not> skill \<ge> 3" "length cands > 1" "rng_range wsum s = (i, s')"
        "r' = r \<lparr> r_best_move := pick_weighted (best - margin) i 0 cands (r_best_move r) \<rparr>"
proof -
  have eq: "choose_move b r s =
      (if length root > 1 \<and> \<not> is_mate (r_score r) then if margin > 0 \<and> length cands > 1 then
         if skill \<ge> 3 then if length tops > 0 then
           case rng_range (int (length tops)) s of (i, s) \<Rightarrow> (r \<lparr> r_best_move := tops ! nat i \<rparr>, s) else (r, s)
         else case rng_range wsum s of (i, s) \<Rightarrow>
           (r \<lparr> r_best_move := pick_weighted (best - margin) i 0 cands (r_best_move r) \<rparr>, s)
       else (r, s) else (r, s))"
    unfolding choose_move_def Let_def root_def skill_def best_def margin_def cands_def tops_def wsum_def by (rule refl)
  obtain i s1 j s2 where "rng_range (int (length tops)) s = (i, s1)" "rng_range wsum s = (j, s2)" by fastforce
  then show thesis using that assms(8) unfolding eq by (simp split: if_splits)
qed

lemma choose_move_cases:
  assumes "length (s_root s) \<le> MAX_MOVES" "0 \<le> s_skill_level s" "s_skill_level s \<le> 4"
    and r: "choose_move b r s = (r', s')"
  shows "r' = r \<or> (\<exists>m. near_best b s m \<and> r' = r \<lparr> r_best_move := m \<rparr>)" "\<exists>x. s' = s \<lparr> s_rng := x \<rparr>"
proof -
  define root where "root = s_root s"
  define best where "best = top_score root"
  define margin where "margin = skill_margin (s_skill_level s) b"
  define cands where "cands = filter (\<lambda>x. best - snd x \<le> margin) root"
  define w where "w = (\<lambda>x. cand_weight (best - margin) (snd (x :: Move \<times> int)))"
  have m: "0 \<le> margin" "margin \<le> 80" unfolding margin_def by (rule skill_margin_range [OF assms(2,3)])+
  have len: "length cands \<le> 256"
    unfolding cands_def using assms(1) by (intro order_trans [OF length_filter_le]) (simp add: root_def MAX_MOVES_def)
  have top: "top_score cands = best" unfolding cands_def best_def by (rule top_score_candidates [OF m(1)])
  have near: "near_best b s x" if "(x, sc) \<in> set cands" "s_skill_level s \<ge> 3 \<Longrightarrow> best - sc \<le> skill_band (s_skill_level s) b" for x sc
    using that unfolding near_best_def cands_def best_def margin_def root_def by auto
  have frame: "\<exists>x. s' = s \<lparr> s_rng := x \<rparr>" if "rng_range n s = (i, s')" for n i
    using rng_range_frame [of n s] that by simp
  from r have "(r' = r \<or> (\<exists>m. near_best b s m \<and> r' = r \<lparr> r_best_move := m \<rparr>)) \<and> (\<exists>x. s' = s \<lparr> s_rng := x \<rparr>)"
  proof (cases rule: choose_move_unfold [of b r s r' s', folded root_def, folded best_def margin_def, folded cands_def, unfolded top, consumes 1, case_names kept band weighted])
    case kept
    then show ?thesis by (auto intro: exI [of _ "s_rng s"])
  next
    case (band i)
    let ?tops = "map fst (filter (\<lambda>x. best - snd x \<le> skill_band (s_skill_level s) b) cands)"
    have "length ?tops \<le> 256" unfolding length_map by (rule order_trans [OF length_filter_le len])
    then have "nat i < length ?tops" using rng_range_bounds [of "int (length ?tops)" s] band(2,3) by (auto split: if_splits)
    then have "?tops ! nat i \<in> set ?tops" by (rule nth_mem)
    then obtain sc where "(?tops ! nat i, sc) \<in> set cands" "best - sc \<le> skill_band (s_skill_level s) b" by auto
    from near [OF this] frame [OF band(3)] band(4) show ?thesis by blast
  next
    case (weighted i)
    have "1 \<le> w x \<and> w x \<le> 81" if "x \<in> set cands" for x
      using top_score_ge [of x root] cand_weight_range [of "best - margin" "snd x" margin] m that
      by (simp add: w_def cands_def best_def)
    then have "\<forall>x \<in> set cands. 1 \<le> w x \<and> w x \<le> 81" by blast
    note t = sum_weights_range [OF this]
    have "0 \<le> i \<and> i < sum_list (map w cands)"
      using rng_range_bounds [of "sum_list (map w cands)" s] t len weighted(2,3) by (auto simp: w_def split: if_splits)
    then have "pick_weighted (best - margin) i 0 cands (r_best_move r) \<in> fst ` set cands"
      by (intro pick_weighted_mem) (simp_all add: w_def)
    then obtain sc where "(pick_weighted (best - margin) i 0 cands (r_best_move r), sc) \<in> set cands" by auto
    from near [OF this] frame [OF weighted(3)] weighted(1,4) show ?thesis by blast
  qed
  then show "r' = r \<or> (\<exists>m. near_best b s m \<and> r' = r \<lparr> r_best_move := m \<rparr>)" "\<exists>x. s' = s \<lparr> s_rng := x \<rparr>" by blast+
qed

section \<open>The best root move\<close>

text \<open>The best score and its move among the scores of the root moves.\<close>

definition best_of :: "(Move \<times> int) list \<Rightarrow> int \<Rightarrow> Move \<Rightarrow> bool" where
  "best_of root rs rm \<longleftrightarrow> rs = top_score root \<and> ((rm, rs) \<in> set root \<or> rm = MOVE_NONE \<and> rs = - INFINITY_SCORE)"

lemma best_of_snoc:
  "best_of root rs rm \<Longrightarrow> best_of (root @ [(m, v)]) (if v > rs then v else rs) (if v > rs then m else rm)"
  by (auto simp: best_of_def top_score_def)

lemma root_loop_best:
  "best_of tmp rs rm \<Longrightarrow> root_loop Z now depth al be chk ms tmp rs rm b s = Inr (tmp', rs', rm', b', s') \<Longrightarrow> best_of tmp' rs' rm'"
proof (induction ms arbitrary: tmp rs rm b s)
  case (Cons m ms)
  obtain v b1 s1 where r: "root_try Z now depth al be chk m b s = (v, b1, s1)" by (rule prod_cases3)
  then have "root_loop Z now depth al be chk ms (tmp @ [(m, v)]) (if v > rs then v else rs) (if v > rs then m else rm) b1 s1 =
      Inr (tmp', rs', rm', b', s')"
    using Cons.prems(2) by (simp split: if_splits)
  from Cons.IH [OF best_of_snoc [OF Cons.prems(1)] this] show ?case .
qed simp

lemma aspire_best:
  "aspire Z now depth best ml asp al be b s = Inr (tmp, rs, rm, b', s') \<Longrightarrow> best_of tmp rs rm"
proof (induction Z "now" depth best ml asp al be b s rule: aspire.induct)
  case (1 Z "now" depth best ml asp al be b s)
  define ml' where "ml' = order_moves Z s b ml best 0 (side b) MOVE_NONE"
  define r where "r = root_loop Z now depth al be (board_in_check b (side b)) ml' [] (- INFINITY_SCORE) MOVE_NONE b s"
  note eq = aspire.simps [of Z "now" depth best ml asp al be b s, unfolded Let_def, folded ml'_def, folded r_def]
  show ?case
  proof (cases r)
    case (Inl x)
    with 1(3) show ?thesis unfolding eq by simp
  next
    case (Inr x)
    obtain tmp1 rs1 rm1 b1 s1 where x: "x = (tmp1, rs1, rm1, b1, s1)" by (rule prod_cases5)
    have "best_of [] (- INFINITY_SCORE) MOVE_NONE" by (simp add: best_of_def top_score_def)
    then have done1: "best_of tmp1 rs1 rm1" using root_loop_best Inr x unfolding r_def by blast
    have r: "root_loop Z now depth al be (board_in_check b (side b)) ml' [] (- INFINITY_SCORE) MOVE_NONE b s = Inr (tmp1, rs1, rm1, b1, s1)"
      using Inr x by (simp add: r_def)
    note IH = 1(1) [OF ml'_def r refl refl refl refl] 1(2) [OF ml'_def r refl refl refl refl]
    show ?thesis
    proof (cases "asp > 0 \<and> rs1 \<le> al \<and> al > - INFINITY_SCORE")
      case True
      then show ?thesis using IH(1) 1(3) unfolding eq Inr x by simp
    next
      case low: False
      show ?thesis
      proof (cases "asp > 0 \<and> rs1 \<ge> be \<and> be < INFINITY_SCORE")
        case True
        then show ?thesis using IH(2) [OF low] 1(3) unfolding eq Inr x sum.case prod.case if_not_P [OF low] by simp
      next
        case False
        then show ?thesis using done1 1(3) unfolding eq Inr x sum.case prod.case if_not_P [OF low] if_not_P [OF False] by simp
      qed
    qed
  qed
qed

lemma iterate_best:
  "iterate Z now d ml r b s = Inr (r', b', s') \<Longrightarrow> best_of (s_root s') (r_score r') (r_best_move r') \<and> r_depth r' = d"
  by (auto simp: iterate_def Let_def split: sum.splits dest: aspire_best)

text \<open>After the last completed depth; before the first there are no root moves.\<close>

definition last_depth :: "SearchResult \<Rightarrow> SearchState \<Rightarrow> bool" where
  "last_depth r s \<longleftrightarrow>
     (if r_depth r = 0 then s_root s = [] \<and> r_best_move r = MOVE_NONE else best_of (s_root s) (r_score r) (r_best_move r))"

lemma deepen_best:
  assumes "playable b0" "live_eq b0 b" "\<forall>d \<in> set ds. 0 < d \<and> d \<le> 64" "last_depth r s"
    and "deepen Z now ds r b s = (r', b', s')"
  shows "last_depth r' s'"
  using assms(2-5)
proof (induction ds arbitrary: r b s)
  case (Cons d ds)
  have g: "generate_moves Z b = generate_moves Z b0"
    using generate_moves_live [OF _ Cons.prems(1)] assms(1) by (simp add: playable_def)
  have d: "d \<le> 64" "0 < d" using Cons.prems(2) by simp_all
  note i = iterate_cases [OF assms(1) Cons.prems(1) d(1), where Z = Z and now = "now" and r = r and s = s]
  show ?case
  proof (cases "generate_moves Z b0 = []")
    case True
    then show ?thesis using Cons.prems(3,4) by (simp add: g)
  next
    case moves: False
    show ?thesis
    proof (cases "iterate Z now d (generate_moves Z b0) r b s")
      case (Inl x)
      obtain b1 s1 where x: "x = (b1, s1)" by (rule prod.exhaust)
      have "s_root s1 = s_root s" using i by (simp add: Inl x same_setup_def)
      then show ?thesis using Cons.prems(3,4) moves by (simp add: g Inl x last_depth_def split: if_splits)
    next
      case (Inr x)
      obtain r1 b1 s1 where x: "x = (r1, b1, s1)" by (rule prod_cases3)
      have "last_depth r1 s1" using iterate_best [of Z "now" d "generate_moves Z b0" r b s r1 b1 s1] Inr x d(2) by (simp add: last_depth_def)
      moreover have "live_eq b0 b1" using i by (simp add: Inr x)
      ultimately show ?thesis
        using Cons.IH [of b1 r1 s1] Cons.prems(2,4) moves by (simp add: g Inr x split: if_splits)
    qed
  qed
qed simp

section \<open>The whole search\<close>

lemma think_setup_facts:
  "s_root (think_setup now b t k s) = []" "\<not> s_stopped (think_setup now b t k s)"
  "s_nodes (think_setup now b t k s) = 0" "s_clock (think_setup now b t k s) = s_clock s + 2"
  "s_deadline_ms (think_setup now b t k s) = now (s_clock s) + t"
  "s_skill_level (think_setup now b t k s) = max 0 (min 4 k)" "history_ok (think_setup now b t k s)"
  by (simp_all add: think_setup_def search_reset_def read_clock_def Let_def history_ok_def)

lemma depth_limit_range: "\<forall>d \<in> set [1..depth_limit n]. 0 < d \<and> d \<le> 64" "last (0 # [1..depth_limit n]) = depth_limit n"
proof -
  show "\<forall>d \<in> set [1..depth_limit n]. 0 < d \<and> d \<le> 64" by (auto simp: depth_limit_def MAX_PLY_def)
  have "[1..depth_limit n] = [1..depth_limit n - 1] @ [depth_limit n]"
    by (rule upto_rec2) (simp add: depth_limit_def MAX_PLY_def)
  then show "last (0 # [1..depth_limit n]) = depth_limit n" by simp
qed

text \<open>The stages of \<open>search_think\<close>, with everything known after the last depth.\<close>

lemma search_think_stages:
  assumes "gen_inv b" "game_mod b \<noteq> MOD_HEIR" "search_think Z now b t n k s = (r, Z', b', s')"
  obtains r0 s0 where
    "deepen Z' now [1..depth_limit n] no_result b (think_setup now b t k s) = (r0, b', s0)" "choose_move b' r0 s0 = (r, s')"
    "live_eq b b'" "root_ok Z' b s0" "result_ok Z' b r0" "last_depth r0 s0" "s_skill_level s0 = max 0 (min 4 k)"
    "r = r0 \<or> (\<exists>m. near_best b' s0 m \<and> r = r0 \<lparr> r_best_move := m \<rparr>)" "\<exists>x. s' = s0 \<lparr> s_rng := x \<rparr>"
proof -
  obtain r0 b0 s0 where d: "deepen (zobrist_init Z) now [1..depth_limit n] no_result b (think_setup now b t k s) = (r0, b0, s0)"
    by (rule prod_cases3)
  obtain r1 s1 where c: "choose_move b0 r0 s0 = (r1, s1)" by (rule prod.exhaust)
  have eq: "Z' = zobrist_init Z" "b' = b0" "r = r1" "s' = s1" using assms(3) by (simp_all add: search_think_def Let_def d c)
  have p: "playable b" using assms(1,2) by (simp add: playable_def)
  note f = think_setup_facts [of "now" b t k s] and refl0 = chess.eqv_refl [of b]
  have "root_ok Z' b (think_setup now b t k s)" "result_ok Z' b no_result" "last_depth no_result (think_setup now b t k s)"
    by (simp_all add: root_ok_def result_ok_def last_depth_def no_result_def f)
  note init = this
  have D: "live_eq b b0 \<and> root_ok Z' b s0 \<and> result_ok Z' b r0 \<and> s_skill_level s0 = s_skill_level (think_setup now b t k s)"
    using deepen_result [OF p refl0 _ init(1,2) d [folded eq(1)]] depth_limit_range(1) by blast
  have L: "last_depth r0 s0" using deepen_best [OF p refl0 depth_limit_range(1) init(3) d] .
  have "length (s_root s0) \<le> MAX_MOVES" "0 \<le> s_skill_level s0" "s_skill_level s0 \<le> 4" using D f(6) by (auto simp: root_ok_def)
  note C = choose_move_cases [OF this c]
  show thesis using that [of r0 s0] D L C d c f(6) unfolding eq by simp
qed

lemma near_best_generated: "root_ok Z b s \<Longrightarrow> near_best b' s m \<Longrightarrow> m \<in> set (generate_moves Z b)"
  by (force simp: root_ok_def near_best_def)

text \<open>
  (C17) The move that \<open>search_think\<close> returns is one of the legal moves of the position it was given, and the board
  comes back as it was, up to dead entries of the undo history, for every clock, time limit, depth, skill level
  and content of the statics.  The only other answer is \<open>MOVE_NONE\<close>, when no depth was completed or
  no root move scored above minus infinity.  The position must be consistent and not one of Heir.
\<close>

theorem search_think_legal:
  assumes "gen_inv b" "game_mod b \<noteq> MOD_HEIR" "search_think Z now b time_ms max_depth skill_level s = (r, Z', b', s')"
  shows "live_eq b b' \<and>
    (r_best_move r \<in> set (generate_moves Z' b) \<or>
     r_best_move r = MOVE_NONE \<and> (r_depth r = 0 \<or> r_score r = - INFINITY_SCORE))"
proof -
  obtain r0 s0 where st: "live_eq b b'" "root_ok Z' b s0" "result_ok Z' b r0"
    "r = r0 \<or> (\<exists>m. near_best b' s0 m \<and> r = r0 \<lparr> r_best_move := m \<rparr>)"
    by (rule search_think_stages [OF assms])
  show ?thesis using st(1,3,4) near_best_generated [OF st(2)] by (auto simp: result_ok_def)
qed

theorem search_think_legal_witness:
  "let (r, Z', b', s') = search_think zob_static (\<lambda>_. 0) duel 1000 6 4 search_static in
   live_eq duel b' \<and>
    (r_best_move r \<in> set (generate_moves Z' duel) \<or>
     r_best_move r = MOVE_NONE \<and> (r_depth r = 0 \<or> r_score r = - INFINITY_SCORE))"
proof -
  obtain r Z' b' s' where t: "search_think zob_static (\<lambda>_. 0) duel 1000 6 4 search_static = (r, Z', b', s')" by (rule prod_cases4)
  have "game_mod duel \<noteq> MOD_HEIR" by (simp add: duel_classic)
  from search_think_legal [OF duel_gen_inv this t] show ?thesis unfolding t by simp
qed

text \<open>How far below the best root move the move of a skill level may be.\<close>

definition skill_slack :: "int \<Rightarrow> Board \<Rightarrow> int" where
  "skill_slack k b =
     (if k \<le> 0 then 80 else if k = 1 then 50 else if k = 2 then 30 else if k = 3 then 3
      else if game_mod b = MOD_KINGS_BATTLE then 15 else 0)"

lemma near_best_slack:
  assumes "near_best b' s m" "s_skill_level s = max 0 (min 4 k)" "game_mod b' = game_mod b"
  shows "\<exists>sc. (m, sc) \<in> set (s_root s) \<and> top_score (s_root s) - sc \<le> skill_slack k b"
proof -
  obtain sc where sc: "(m, sc) \<in> set (s_root s)" "top_score (s_root s) - sc \<le> skill_margin (max 0 (min 4 k)) b'"
    "max 0 (min 4 k) \<ge> 3 \<Longrightarrow> top_score (s_root s) - sc \<le> skill_band (max 0 (min 4 k)) b'"
    using assms(1) unfolding near_best_def assms(2) by blast
  consider "k \<le> 0" | "k = 1" | "k = 2" | "k = 3" | "k \<ge> 4" by linarith
  then have "top_score (s_root s) - sc \<le> skill_slack k b"
    using sc(2,3) assms(3)
    by cases (auto simp: skill_margin_def SKILL_MARGIN_def skill_band_def skill_slack_def Let_def
        search_kb_full_skill_variety_margin_def search_kb_full_skill_tiebreak_band_def
        search_kb_full_skill_variety_enabled_def split: if_splits)
  with sc(1) show ?thesis by blast
qed

text \<open>
  (C20) The strength of the move by skill level.  Once \<open>search_think\<close> has completed a depth, the score it
  reports is the best score of the root moves at the last completed depth, and the move it returns is a root
  move whose own score at that depth is at most this far below the best: 80, 50 and 30 points at levels 0 (and below), 1
  and 2, 3 points at level 3, none at level 4 (and above), where King's Battle alone allows 15.  The one
  exception is \<open>MOVE_NONE\<close>, returned when no root move scored above minus infinity.  The position must be
  consistent and not one of Heir.
\<close>

theorem search_think_strength:
  assumes "gen_inv b" "game_mod b \<noteq> MOD_HEIR" "search_think Z now b time_ms max_depth skill_level s = (r, Z', b', s')"
  shows "r_depth r = 0 \<or> r_score r = top_score (s_root s') \<and>
    ((\<exists>sc. (r_best_move r, sc) \<in> set (s_root s') \<and> r_score r - sc \<le> skill_slack skill_level b) \<or>
     r_best_move r = MOVE_NONE \<and> r_score r = - INFINITY_SCORE)"
proof -
  obtain r0 s0 where st: "live_eq b b'" "last_depth r0 s0" "s_skill_level s0 = max 0 (min 4 skill_level)"
    "r = r0 \<or> (\<exists>m. near_best b' s0 m \<and> r = r0 \<lparr> r_best_move := m \<rparr>)" "\<exists>x. s' = s0 \<lparr> s_rng := x \<rparr>"
    by (rule search_think_stages [OF assms])
  have root: "s_root s' = s_root s0" and gm: "game_mod b' = game_mod b" using st(1,5) by (auto elim: live_eqE)
  have slack: "0 \<le> skill_slack skill_level b" by (simp add: skill_slack_def)
  show ?thesis
  proof (cases "r_depth r0 = 0")
    case True
    then show ?thesis using st(4) by auto
  next
    case False
    then have best: "best_of (s_root s0) (r_score r0) (r_best_move r0)" using st(2) by (simp add: last_depth_def)
    from st(4) show ?thesis
    proof
      assume "r = r0"
      then show ?thesis using best slack unfolding root best_of_def by fastforce
    next
      assume "\<exists>m. near_best b' s0 m \<and> r = r0 \<lparr> r_best_move := m \<rparr>"
      then show ?thesis using near_best_slack [OF _ st(3) gm] best unfolding root best_of_def by auto
    qed
  qed
qed

theorem search_think_strength_witness:
  "let (r, Z', b', s') = search_think zob_static (\<lambda>_. 0) duel 1000 6 2 search_static in
   r_depth r = 0 \<or> r_score r = top_score (s_root s') \<and>
    ((\<exists>sc. (r_best_move r, sc) \<in> set (s_root s') \<and> r_score r - sc \<le> 30) \<or>
     r_best_move r = MOVE_NONE \<and> r_score r = - INFINITY_SCORE)"
proof -
  obtain r Z' b' s' where t: "search_think zob_static (\<lambda>_. 0) duel 1000 6 2 search_static = (r, Z', b', s')" by (rule prod_cases4)
  have "game_mod duel \<noteq> MOD_HEIR" by (simp add: duel_classic)
  from search_think_strength [OF duel_gen_inv this t] show ?thesis unfolding t by (simp add: skill_slack_def)
qed

text \<open>
  (C19) The search reaches its goal.  If the clock never reads the deadline, which is the first reading plus the time limit,
  then \<open>search_think\<close> ends for one of these reasons only: there is no legal move, a mate score was found, the
  depth asked for was completed (\<open>MAX_PLY\<close> when none or too much was asked for), or more than \<open>MAX_NODES\<close>
  nodes were searched.  The position must be consistent and not one of Heir.
\<close>

theorem search_think_completes:
  assumes "gen_inv b" "game_mod b \<noteq> MOD_HEIR" "search_think Z now b time_ms max_depth skill_level s = (r, Z', b', s')"
    and "\<forall>i > s_clock s. now i < now (s_clock s) + time_ms"
  shows "generate_moves Z' b = [] \<or> is_mate (r_score r) \<or>
    r_depth r = (if 0 < max_depth \<and> max_depth < MAX_PLY then max_depth else MAX_PLY) \<or> s_nodes s' > MAX_NODES"
proof -
  obtain r0 s0 where st: "deepen Z' now [1..depth_limit max_depth] no_result b (think_setup now b time_ms skill_level s) = (r0, b', s0)"
    "r = r0 \<or> (\<exists>m. near_best b' s0 m \<and> r = r0 \<lparr> r_best_move := m \<rparr>)" "\<exists>x. s' = s0 \<lparr> s_rng := x \<rparr>"
    by (rule search_think_stages [OF assms(1-3)])
  have p: "playable b" using assms(1,2) by (simp add: playable_def)
  note f = think_setup_facts [of "now" b time_ms skill_level s]
  have init: "root_ok Z' b (think_setup now b time_ms skill_level s)" "result_ok Z' b no_result" "r_depth no_result = 0"
    by (simp_all add: root_ok_def result_ok_def no_result_def f)
  have clock: "\<forall>i \<ge> s_clock (think_setup now b time_ms skill_level s). now i < s_deadline_ms (think_setup now b time_ms skill_level s)"
    using assms(4) by (simp add: f)
  have le: "\<forall>d \<in> set [1..depth_limit max_depth]. d \<le> 64" using depth_limit_range(1) by blast
  have "generate_moves Z' b = [] \<or> is_mate (r_score r0) \<or> r_depth r0 = depth_limit max_depth" if "s_nodes s0 \<le> MAX_NODES"
    using deepen_complete [OF p chess.eqv_refl le init(1,2) st(1) f(2) that clock] unfolding init(3) depth_limit_range(2) by blast
  moreover have "r_score r = r_score r0" "r_depth r = r_depth r0" "s_nodes s' = s_nodes s0" using st(2,3) by auto
  ultimately show ?thesis unfolding depth_limit_def by (auto simp: not_le)
qed

theorem search_think_completes_witness:
  "let (r, Z', b', s') = search_think zob_static (\<lambda>_. 0) duel 1000 6 4 search_static in
   generate_moves Z' duel = [] \<or> is_mate (r_score r) \<or> r_depth r = 6 \<or> s_nodes s' > MAX_NODES"
proof -
  obtain r Z' b' s' where t: "search_think zob_static (\<lambda>_. 0) duel 1000 6 4 search_static = (r, Z', b', s')" by (rule prod_cases4)
  have "game_mod duel \<noteq> MOD_HEIR" by (simp add: duel_classic)
  from search_think_completes [OF duel_gen_inv this t] show ?thesis unfolding t by (simp add: MAX_PLY_def)
qed

text \<open>A search whose time is over before the first node looks at no move.\<close>

lemma alpha_beta_stops:
  assumes "s_nodes s = 0" "s_deadline_ms s \<le> now (s_clock s)"
  shows "\<exists>s'. alpha_beta Z now b d lo hi at dn pv s = (0, b, s') \<and> s_stopped s' \<and> s_root s' = s_root s"
  by (subst alpha_beta_unfold) (use assms in \<open>simp add: ab_body_def check_time_def MAX_NODES_def Let_def\<close>)

lemma iterate_stops:
  assumes "ml \<noteq> []" "r_score r = 0" "s_nodes s = 0" "s_deadline_ms s \<le> now (s_clock s)"
  shows "\<exists>b' s'. iterate Z now 1 ml r b s = Inl (b', s') \<and> s_root s' = s_root s"
proof -
  define ml' where "ml' = order_moves Z s b ml (r_best_move r) 0 (side b) MOVE_NONE"
  have "length ml' = length ml" by (simp add: ml'_def)
  then have "ml' \<noteq> []" using assms(1) by auto
  then obtain m ms where ml: "ml' = m # ms" by (cases ml') auto
  have "\<exists>v b' s'. root_try Z now 1 (- INFINITY_SCORE) INFINITY_SCORE chk m b s = (v, b', s') \<and> s_stopped s' \<and> s_root s' = s_root s" for chk
  proof -
    have call: "\<exists>s'. root_call Z now same d lo hi c s = (0, c, s') \<and> s_stopped s' \<and> s_root s' = s_root s" for same d lo hi c
      using alpha_beta_stops [where Z = Z and now = "now" and b = c and d = d and lo = lo and hi = hi and at = 1 and dn = True and pv = True, OF assms(3,4)]
        alpha_beta_stops [where Z = Z and now = "now" and b = c and d = d and lo = "- hi" and hi = "- lo" and at = 1 and dn = True and pv = True, OF assms(3,4)]
      by (cases same) (auto simp: root_call_def)
    let ?b = "board_make_move Z b m"
    from call [of "side ?b = side b" "1 - 1 + (if chk \<or> board_in_check ?b (if side ?b = side b then color_opposite (side b) else side ?b) then 1 else 0)"
      "- INFINITY_SCORE" INFINITY_SCORE ?b]
    show ?thesis by (auto simp: root_try_def Let_def)
  qed
  then obtain v b' s' where t:
    "root_try Z now 1 (- INFINITY_SCORE) INFINITY_SCORE (board_in_check b (side b)) m b s = (v, b', s')" "s_stopped s'" "s_root s' = s_root s"
    by blast
  have "aspire Z now 1 (r_best_move r) ml 25 (- INFINITY_SCORE) INFINITY_SCORE b s = Inl (b', s')"
    by (subst aspire.simps) (simp add: ml'_def [symmetric] ml t Let_def)
  then show ?thesis using t(3) by (simp add: iterate_def)
qed

text \<open>
  (C28) A time limit that is not positive gives no move.  With a clock that never runs backwards, \<open>search_think\<close> is
  stopped at the first node of the first depth, whatever the position, the depth and the skill level are: it
  returns \<open>MOVE_NONE\<close> at depth 0 even where legal moves exist.
\<close>

theorem search_think_no_time:
  assumes "time_ms \<le> 0" "\<forall>i > s_clock s. now (s_clock s) \<le> now i"
  shows "fst (search_think Z now b time_ms max_depth skill_level s) =
    \<lparr> r_best_move = MOVE_NONE, r_score = 0, r_depth = 0, r_nodes = 0 \<rparr>"
proof -
  let ?Z = "zobrist_init Z"
  define s0 where "s0 = think_setup now b time_ms skill_level s"
  have "now (s_clock s) \<le> now (s_clock s + 2)" using assms(2) by simp
  then have f: "s_root s0 = []" "s_nodes s0 = 0" "s_deadline_ms s0 \<le> now (s_clock s0)"
    using assms(1) by (simp_all add: s0_def think_setup_facts)
  have "\<exists>b1 s1. deepen ?Z now [1..depth_limit max_depth] no_result b s0 = (no_result, b1, s1) \<and> s_root s1 = []"
  proof -
    have "[1..depth_limit max_depth] = 1 # [1 + 1..depth_limit max_depth]"
      by (rule upto_rec1) (simp add: depth_limit_def MAX_PLY_def)
    moreover have "r_score no_result = 0" by (simp add: no_result_def)
    ultimately show ?thesis
      using iterate_stops [of "generate_moves ?Z b" no_result s0 "now" ?Z b] f by (cases "generate_moves ?Z b = []") fastforce+
  qed
  then obtain b1 s1 where d: "deepen ?Z now [1..depth_limit max_depth] no_result b s0 = (no_result, b1, s1)" "s_root s1 = []" by blast
  then have "choose_move b1 no_result s1 = (no_result, s1)" by (simp add: choose_move_def Let_def)
  then show ?thesis by (simp add: search_think_def Let_def s0_def [symmetric] d(1)) (simp add: no_result_def)
qed

theorem search_think_no_time_witness:
  "move_simple 28 36 PAWN \<in> set (generate_moves zob_static duel) \<and>
   fst (search_think zob_static (\<lambda>i. int i) duel 0 6 4 search_static) =
     \<lparr> r_best_move = MOVE_NONE, r_score = 0, r_depth = 0, r_nodes = 0 \<rparr>"
  using search_think_no_time [of 0 search_static "\<lambda>i. int i" zob_static duel 6 4] duel_push_generated by simp

section \<open>The null move\<close>

text \<open>
  (C27) The null move of \<open>alpha_beta\<close>, which changes side, en-passant square and hash in place, keeps the stored hash
  equal to the hash of the position, so that the transposition table is probed with the right key below it; and
  writing the three saved fields back restores the board exactly.
\<close>

theorem null_move_hash:
  assumes "hash b = zobrist_compute Z b" "side b \<in> {WHITE, BLACK}"
  shows "hash (null_make Z b) = zobrist_compute Z (null_make Z b) \<and> null_unmake b (null_make Z b) = b"
proof -
  have p: "zob_placement Z (null_make Z b) = zob_placement Z b" by (simp add: zob_placement_def null_make_eq)
  have "zob_flags Z (null_make Z b) =
      zob_flags Z b XOR zob_side Z XOR (if ep_square b \<noteq> SQ_NONE then zob_ep Z ! nat (ep_square b) else 0)"
    using assms(2) by (auto simp: zob_flags_def null_make_eq xor.assoc xor.left_commute xor.commute)
  then show ?thesis
    using assms(1) by (simp add: zobrist_compute_eq p null_unmake_def) (simp add: null_make_eq zobrist_compute_eq xor.assoc)
qed

theorem null_move_hash_witness:
  "\<exists>h. null_unmake (duel \<lparr> hash := h \<rparr>) (null_make zob_static (duel \<lparr> hash := h \<rparr>)) = duel \<lparr> hash := h \<rparr> \<and>
     hash (null_make zob_static (duel \<lparr> hash := h \<rparr>)) = zobrist_compute zob_static (null_make zob_static (duel \<lparr> hash := h \<rparr>))"
proof -
  let ?b = "duel \<lparr> hash := zobrist_compute zob_static duel \<rparr>"
  have "zobrist_compute zob_static ?b = zobrist_compute zob_static duel"
    by (simp add: zobrist_compute_eq zob_placement_def zob_flags_def)
  then have "hash ?b = zobrist_compute zob_static ?b" by simp
  moreover have "side ?b \<in> {WHITE, BLACK}" by (simp add: duel_def board_clear_def)
  ultimately show ?thesis using null_move_hash by blast
qed

end
