(* ===== verification/Spec2Isabelle.thy ===== *)
theory Spec2Isabelle
  imports Prelude Types BoardState Zobrist Attacks MakeMove Movegen Legality Play Fen EvalTypes Mirror EvalCommon EvalMercenary EvalFriendlyFire EvalSaveQueen EvalSuccession EvalHeir EvalTruce EvalKingsBattle Evaluate HeurTypes HeurHeir HeurTruce HeurMercenary HeurFriendlyFire HeurKingsBattle SearchState HeurSaveQueen See MoveOrder Quiescence AlphaBeta SearchFrame Think RootSearch
begin

text \<open>
  A verification of the native engine of the chess-variant program, \<open>src/frontend/native/engine\<close>.

  \<^bold>\<open>The program.\<close>  The engine is a C library.  \<open>types.h\<close> defines squares, pieces, bitboards and the
  packed move; \<open>board.h\<close> and \<open>board.c\<close> the board with its redundant representations (mailbox,
  bitboards per colour and type, occupancy) and the state of the variants (Heir, Truce, Friendly Fire,
  King's Battle, Save the Queen, Succession, Mercenary); \<open>board/board_zobrist.c\<close> the hash,
  \<open>board/board_attacks.c\<close> the attack tables, the sliders and the attack and check queries,
  \<open>board/board_make.c\<close> making and taking back moves, \<open>board/board_fen.c\<close> the text form;
  \<open>movegen.c\<close> and \<open>movegen/\<close> generate pseudo-legal moves and filter the legal ones.  On top of these
  stand the evaluation (\<open>evaluate.c\<close> and \<open>eval/\<close>: two common stages around the terms of the variant),
  the search (\<open>search.c\<close> and \<open>search/\<close>: transposition table, move ordering with the heuristics of the
  variants, quiescence, alpha-beta and the root) and the bridge to the host.

  \<^bold>\<open>The model.\<close>  Every function is a HOL function with the name it has in C.  A \<open>Bitboard\<close> is a 64-bit
  word, a packed \<open>Move\<close> a 32-bit word, the board a record; a pointer to a board that a function
  changes is an argument and a result.  C's \<open>int\<close> is \<open>int\<close>; squares are \<open>int\<close> and wrap to \<open>int8_t\<close>
  where they are computed.  Flags that hold 0 or 1 are \<open>bool\<close>.  The tables that C fills at start-up
  (\<open>ZobState\<close>, \<open>AttackTables\<close>) are values; the Zobrist tables are an argument \<open>Z\<close> of every
  function that hashes, so the theorems hold for all keys.  A loop that pops the lowest bit is a
  fold over \<open>bb_squares\<close>, which \<open>bb_iteration_exact\<close> justifies.

  \<^item> \<open>Prelude\<close>: collections of rules, facts on lists, options and words.
  \<^item> \<open>Types\<close>: \<open>types.h\<close>.  Packing and unpacking of moves and pieces, bit iteration.
  \<^item> \<open>BoardState\<close>: \<open>board.h\<close>, \<open>board.c\<close>.  The record, \<open>board_clear\<close>, \<open>board_place\<close>, \<open>board_remove\<close>, and
    the invariant \<open>wf_place\<close> that ties the mailbox to the bitboards.
  \<^item> \<open>Zobrist\<close>: the key generator, \<open>zobrist_compute\<close>, \<open>board_refresh\<close>.
  \<^item> \<open>Attacks\<close>: \<open>init_attacks\<close>, the ray loops, \<open>board_square_attacked\<close>, \<open>board_in_check\<close>; the
    reverse-lookup query is proved equal to the rules of movement of each variant.
  \<^item> \<open>MakeMove\<close>: \<open>board_make_move\<close> as the composition of its blocks and \<open>board_unmake_move\<close>.  The
    specification \<open>moved_to\<close> says what stands on each square after a move; unmake after make
    is the identity.
  \<^item> \<open>Movegen\<close>: the pawn, piece and castling generators.  Each generator is proved to append a list
    of moves (locale \<open>appender\<close>); generated moves fit the board (\<open>gen_ok\<close>).
  \<^item> \<open>Legality\<close>: \<open>is_legal\<close>, \<open>generate_moves\<close>, \<open>generate_captures\<close>, \<open>has_legal_moves\<close>; locale
    \<open>reversible_moves\<close> is the contract between the filter and make/unmake.
  \<^item> \<open>Play\<close>: games as an inductive step relation, the invariant \<open>gen_inv\<close> and the counts of kings.
  \<^item> \<open>Fen\<close>: parsing and printing, with the error results of the parser.
  \<^item> \<open>EvalTypes\<close>: the evaluation context, the piece-square tables and the loop shapes that the evaluation
    terms share: sums, counts, unions and maxima over the squares of a bitboard.
  \<^item> \<open>Mirror\<close>: the exchange of colours on squares, bitboards and boards, and how sliders, leapers and
    the attack query commute with it.
  \<^item> \<open>EvalCommon\<close>: \<open>eval_common_init\<close> and \<open>eval_common_finish\<close>.  \<open>EvalMercenary\<close>, \<open>EvalFriendlyFire\<close>,
    \<open>EvalSaveQueen\<close>, \<open>EvalSuccession\<close>, \<open>EvalHeir\<close>, \<open>EvalTruce\<close>, \<open>EvalKingsBattle\<close>: the terms of the
    variants, one definition per block of the C function.  Each theory ends with the lemma that its
    terms change sign when the colours are exchanged.
  \<^item> \<open>Evaluate\<close>: the dispatcher, colour symmetry of the whole score and where it fails, the agreement of the
    passed-pawn tests, the exactness of the pawn attack map, and what the score depends on.
  \<^item> \<open>HeurTypes\<close>, \<open>HeurHeir\<close>, \<open>HeurTruce\<close>, \<open>HeurMercenary\<close>, \<open>HeurFriendlyFire\<close>, \<open>HeurKingsBattle\<close>, \<open>HeurSaveQueen\<close>: the
    move-ordering heuristics of \<open>search/heuristics_*.c\<close>, and those of \<open>search.c\<close> for Save the Queen.
  \<^item> \<open>SearchState\<close>: the statics of \<open>search.c\<close> as a record (transposition table, killers, history, clock, random
    numbers) with the operations on them.  \<open>See\<close>: static exchange evaluation and its reference.
    \<open>MoveOrder\<close>: \<open>move_score\<close> and the insertion sorts.
  \<^item> \<open>Quiescence\<close>, \<open>AlphaBeta\<close>: the two searches, stage by stage, with the recursive calls as parameters of the body
    and the equations without them.
  \<^item> \<open>SearchFrame\<close>: locale \<open>search_frame\<close>, the contract between the search and what it does to the statics.
    Inside it every stage is shown to give back the board and to respect the contract; it is interpreted for the
    range of the history table, for the reasons to stop and for the statics that stay fixed.
  \<^item> \<open>Think\<close>, \<open>RootSearch\<close>: \<open>search_think\<close>, its aspiration loop with a termination proof, and what it returns.
  \<^item> This theory: the properties that span the components.

  \<^bold>\<open>Bounds.\<close>  The ray loop has fuel 8, one more than the longest ray; \<open>Attacks.ray_loop_fuel\<close> shows that more fuel
  changes nothing.  \<open>bb_squares\<close> terminates because each step clears a bit.  The undo
  history is a function on indices: the C array has 512 entries and the code does not check the index, so
  the theorems speak of games and lines within that length.  The clock fields are unbounded
  integers where C would overflow after more than \<open>2^31\<close> moves.  Characters are unsigned.  \<open>alpha_beta\<close> recurses
  over the plies left up to \<open>MAX_PLY\<close> and over the depth, \<open>quiescence\<close> over the levels left up to \<open>MAX_QPLY\<close>; both tests are
  the source's own, and \<open>alpha_beta_recursion\<close> shows that nothing else bounds them.  The exchange loop runs its
  31 rounds, the ray of \<open>ff_prep_ray\<close> has fuel 8 (\<open>HeurFriendlyFire.ff_prep_ray_more\<close>).  The node counter
  and the scores are unbounded integers.  The system clock is the parameter \<open>now\<close>, the sequence of its readings.

  \<^bold>\<open>Not modelled.\<close>  The bridge (\<open>bridge.c\<close>, \<open>bridge/\<close>): the exported interface and some 4,700 lines of rules that
  prefer certain root moves in certain positions and search again to verify them; they sit on top of \<open>search_think\<close> and are not needed by
  anything modelled here.  \<open>replay_version.c\<close> is a version string.  Allocation failure of the transposition table
  and the debug output of the search are left out.  The Dart front end, the Go services and the platform runners are
  other programs around the engine.
\<close>

section \<open>Games from the starting position\<close>

lemma rights_after_le: "rights_after r us pt from to \<le> r"
  unfolding rights_after_def Let_def
  by (auto intro: word_and_le2 order_trans [OF word_and_le2])

definition clocks_ok :: "Board \<Rightarrow> bool" where
  "clocks_ok b \<longleftrightarrow> 0 \<le> halfmove b \<and> 1 \<le> fullmove b \<and> castling b < 16"

lemma reachable_clocks:
  assumes "reachable Z b0 b" "clocks_ok b0"
  shows "clocks_ok b"
  using assms(1)
proof induction
  case (step b b')
  from step.hyps(2) obtain m where "b' = board_make_move Z b m" by (rule game_stepE)
  then show ?case
    using step.IH order_le_less_trans [OF rights_after_le]
    by (simp add: clocks_ok_def board_make_move_flags board_make_move_frame)
qed (rule assms(2))

lemma board_init_clocks:
  assumes "board_init Z gm = Inr b"
  shows "clocks_ok b"
proof -
  obtain b0 where "fen_parse startpos = Inr b0" "castling b0 = 15" "halfmove b0 = 0" "fullmove b0 = 1" "ep_square b0 = SQ_NONE"
    using startpos_parse by blast
  then have "b = b0 \<lparr> hash := zobrist_compute Z b0, game_mod := gm \<rparr>"
    using assms by (simp add: board_init_def board_set_fen_def board_refresh_wf [OF fen_parse_wf(1)])
  then show ?thesis using \<open>castling b0 = 15\<close> \<open>halfmove b0 = 0\<close> \<open>fullmove b0 = 1\<close> by (simp add: clocks_ok_def)
qed

lemma game_facts:
  assumes "board_init Z gm = Inr b0" "gm \<noteq> MOD_HEIR" "reachable Z b0 b"
  shows "gen_inv b" "game_mod b = gm" "hash b = zobrist_compute Z b" "clocks_ok b"
proof -
  obtain "gen_inv b0" "game_mod b0 = gm" "hash b0 = zobrist_compute Z b0"
    by (rule board_init_ok [of Z gm]) (use assms(1) in auto)
  then show "gen_inv b" "game_mod b = gm" "hash b = zobrist_compute Z b"
    using reachable_inv [OF assms(3)] assms(2) by auto
  show "clocks_ok b" by (rule reachable_clocks [OF assms(3) board_init_clocks [OF assms(1)]])
qed

lemma game_kings:
  assumes "board_init Z gm = Inr b0" "gm \<notin> {MOD_HEIR, MOD_SUCCESSION}" "reachable Z b0 b" "c \<in> {WHITE, BLACK}"
  shows "bb_popcount (pieces b c KING) = 1"
proof -
  obtain i: "gen_inv b0" "game_mod b0 = gm" "king_squares b0 WHITE = {4}" "king_squares b0 BLACK = {60}"
    by (rule board_init_ok [of Z gm]) (use assms(1) in auto)
  have "card (king_squares b c) = 1"
    using reachable_kings [OF assms(3) i(1) _ assms(4)] i assms(2,4) by auto
  moreover have "wf_place b" using game_facts(1) [OF assms(1) _ assms(3)] assms(2) by (simp add: gen_inv_def)
  ultimately show ?thesis using popcount_kings [OF _ assms(4)] by simp
qed

section \<open>Properties\<close>

text \<open>
  (C1) The composition of the engine's board layer.  From the starting position of any variant but
  Heir, every position that a sequence of generated moves can reach is consistent: the
  bitboards agree with the mailbox, the castling rights and the en-passant square
  describe the pieces that stand on the board, the variant never changes, and the incrementally
  stored hash is the hash of the position.
\<close>

theorem game_invariant:
  assumes "board_init Z gm = Inr b0" "gm \<noteq> MOD_HEIR" "reachable Z b0 b"
  shows "gen_inv b \<and> game_mod b = gm \<and> hash b = zobrist_compute Z b"
  using game_facts [OF assms] by blast

theorem game_invariant_witness:
  "\<exists>b0. board_init zob_static MOD_TRUCE = Inr b0 \<and> gen_inv b0 \<and> hash b0 = zobrist_compute zob_static b0"
proof -
  obtain b0 where b0: "board_init zob_static MOD_TRUCE = Inr b0"
    by (rule board_init_ok [of zob_static MOD_TRUCE])
  show ?thesis using game_invariant [OF b0 _ reachable.start] b0 by simp
qed

text \<open>
  (C10) Each side keeps exactly one king through every game of the variants in which kings can
  neither be captured nor promoted to, so the king square that \<open>board_in_check\<close> reads always exists.
\<close>

theorem one_king_each:
  assumes "board_init Z gm = Inr b0" "gm \<notin> {MOD_HEIR, MOD_SUCCESSION}" "reachable Z b0 b" "c \<in> {WHITE, BLACK}"
  shows "bb_popcount (pieces b c KING) = 1"
  using assms by (rule game_kings)

theorem one_king_each_witness:
  "\<exists>b0. board_init zob_static MOD_CLASSIC = Inr b0 \<and> bb_popcount (pieces b0 BLACK KING) = 1"
proof -
  obtain b0 where b0: "board_init zob_static MOD_CLASSIC = Inr b0"
    by (rule board_init_ok [of zob_static MOD_CLASSIC])
  show ?thesis using one_king_each [OF b0 _ reachable.start, of BLACK] b0 by simp
qed

text \<open>
  (C12) The text form keeps a game: every position that a game of any variant but Heir can reach from the
  starting position, printed by \<open>board_get_fen\<close> and read back by \<open>board_set_fen\<close>, has the same
  pieces, side to move, castling rights, en-passant square and clocks, and the board read back is consistent
  (\<open>gen_inv\<close>).  Heir is excluded because there castling without a king can spoil the board.
\<close>

theorem game_fen_round_trip:
  assumes "board_init Z gm = Inr b0" "gm \<noteq> MOD_HEIR" "reachable Z b0 b"
  shows "\<exists>b'. board_set_fen Z (board_get_fen b) = Inr b' \<and> mailbox b' = mailbox b \<and> side b' = side b \<and>
    castling b' = castling b \<and> ep_square b' = ep_square b \<and> halfmove b' = halfmove b \<and>
    fullmove b' = fullmove b \<and> gen_inv b'"
proof -
  note g = game_facts [OF assms]
  have pre: "wf_place b" "side b \<in> {WHITE, BLACK}" "castling b < 16"
      "ep_square b = SQ_NONE \<or> SQ_VALID (ep_square b)" "0 \<le> halfmove b" "1 \<le> fullmove b"
    using g by (auto simp: gen_inv_def ep_ok_def clocks_ok_def)
  obtain b' where b': "board_set_fen Z (board_get_fen b) = Inr b'" "mailbox b' = mailbox b" "side b' = side b"
    "castling b' = castling b" "ep_square b' = ep_square b" "halfmove b' = halfmove b" "fullmove b' = fullmove b"
    by (rule board_set_fen_back [OF pre])
  then have "gen_inv b'"
    using g(1) board_set_fen_ok(1) [OF b'(1)] by (auto simp: gen_inv_def ep_ok_def rights_ok_def right_ok_def)
  with b' show ?thesis by blast
qed

theorem game_fen_round_trip_witness:
  "\<exists>b0 b'. board_init zob_static MOD_CLASSIC = Inr b0 \<and>
     board_set_fen zob_static (board_get_fen b0) = Inr b' \<and> mailbox b' = mailbox b0 \<and> gen_inv b'"
proof -
  obtain b0 where b0: "board_init zob_static MOD_CLASSIC = Inr b0"
    by (rule board_init_ok [of zob_static MOD_CLASSIC])
  show ?thesis using game_fen_round_trip [OF b0 _ reachable.start] b0 by blast
qed

text \<open>
  (C29) In every game of the classic variant and of Friendly Fire the evaluation is impartial: at each
  position that can arise, the position with colours exchanged has the same score for its side to
  move.
\<close>

theorem game_evaluation_impartial:
  assumes "board_init Z gm = Inr b0" "gm \<in> {MOD_CLASSIC, MOD_FRIENDLY_FIRE}" "reachable Z b0 b"
  shows "evaluate (mirror_board b) = evaluate b"
proof -
  have gm: "gm \<noteq> MOD_HEIR" "gm \<notin> {MOD_HEIR, MOD_SUCCESSION}" using assms(2) by auto
  note facts = game_facts [OF assms(1) gm(1) assms(3)]
  have "one_king b" using game_kings [OF assms(1) gm(2) assms(3)] by (simp add: one_king_def)
  then have "fair_position b" using facts(1,2) assms(2) by (auto simp: fair_position_def gen_inv_def)
  moreover have "colour_bias b = 0" using facts(2) assms(2) by (auto simp: colour_bias_def)
  ultimately show ?thesis using evaluate_bias by (simp add: pov_def)
qed

theorem game_evaluation_impartial_witness:
  "\<exists>b0. board_init zob_static MOD_FRIENDLY_FIRE = Inr b0 \<and> evaluate (mirror_board b0) = evaluate b0"
proof -
  obtain b0 where b0: "board_init zob_static MOD_FRIENDLY_FIRE = Inr b0"
    by (rule board_init_ok [of zob_static MOD_FRIENDLY_FIRE])
  show ?thesis using game_evaluation_impartial [OF b0 _ reachable.start] b0 by simp
qed

end
